(* ===== verification/Prelude.thy ===== *)
theory Prelude
  imports Main "HOL-Library.Multiset" "HOL-Library.List_Lexorder" "HOL-Library.Char_ord"
begin

text \<open>
  Shared ground of the development: the theorem collections the component theories add
  to, generic lemmas on lists and folds, and the two interfaces that several components
  rely on.

  \<^item> \<open>strict_linear\<close>: a comparison function that is a strict linear order. Its client is
    the sorting of the controller (\<open>sort.Slice\<close>, \<open>sort.Strings\<close>): inside the locale, any
    sorted permutation of a list is the same list, so the result does not depend on the
    sorting algorithm or on the order the elements arrive in.
  \<^item> \<open>dedup_key\<close>: a key function that tells the valid elements apart. Its client is the
    duplicate elimination with a \<open>seen\<close> set that the extractors use.
\<close>

named_theorems go_simps \<open>equations of the Go standard library model\<close>
named_theorems ref_simps \<open>equations of the reference extractors, as concatenations\<close>
named_theorems client_simps \<open>how client reads answer after client writes\<close>

section \<open>Loops over slices\<close>

text \<open>
  A Go loop \<open>for i, x := range xs { acc = append(acc, f(i, x)...) }\<close> is a \<open>fold\<close> over the
  enumerated list; the proofs read it as a concatenation.
\<close>

lemma fold_append_concat [ref_simps]:
  "fold (\<lambda>x acc. acc @ f x) xs acc = acc @ concat (map f xs)"
  by (induction xs arbitrary: acc) auto

lemma fold_append_concat_pair [ref_simps]:
  "fold (\<lambda>(i, x) acc. acc @ f i x) xs acc = acc @ concat (map (\<lambda>(i, x). f i x) xs)"
  by (induction xs arbitrary: acc) auto

lemma concat_map_if_filter:
  "concat (map (\<lambda>x. if P x then [f x] else []) xs) = map f (filter P xs)"
  by (induction xs) auto

lemma set_enumerate_conv: "(i, x) \<in> set (enumerate 0 xs) \<longleftrightarrow> i < length xs \<and> xs ! i = x"
  by (simp add: in_set_enumerate_eq eq_commute)

text \<open>Lists indexed by position stay distinct when the position is part of the element.\<close>

lemma distinct_concat_enumerate:
  assumes "\<And>x. x \<in> set xs \<Longrightarrow> distinct (f x)"
    and "\<And>i j a b. g i a = g j b \<Longrightarrow> i = j \<and> a = b"
  shows "distinct (concat (map (\<lambda>(i, x). map (g i) (f x)) (enumerate n xs)))"
  using assms(1)
proof (induction xs arbitrary: n)
  case Nil
  then show ?case by simp
next
  case (Cons x xs)
  have inj: "inj_on (g n) (set (f x))"
    by (auto intro: inj_onI dest: assms(2))
  have sep: "g n a \<noteq> g i b" if "i \<in> fst ` set (enumerate (Suc n) xs)" for i a b
    using that assms(2)[of n a i b] by (auto simp: in_set_enumerate_eq)
  have "distinct (map (g n) (f x))"
    using Cons.prems inj by (simp add: distinct_map)
  moreover have "set (map (g n) (f x)) \<inter>
      set (concat (map (\<lambda>(i, x). map (g i) (f x)) (enumerate (Suc n) xs))) = {}"
    using sep by fastforce
  ultimately show ?case
    using Cons.IH[of "Suc n"] Cons.prems by simp
qed

lemma distinct_map_filter_sub: "distinct (map f xs) \<Longrightarrow> distinct (map f (filter P xs))"
  by (rule distinct_map_filter)

section \<open>Sorting with a comparison function\<close>

text \<open>
  \<open>sort.Slice(xs, lt)\<close> sorts in place with respect to \<open>lt\<close>. The standard library
  promises a list in order, not which algorithm produces it (and no stability); the
  executable model is insertion sort, and the locale below shows that the choice cannot
  be observed when \<open>lt\<close> is a strict linear order.
\<close>

fun insert_by :: "('a \<Rightarrow> 'a \<Rightarrow> bool) \<Rightarrow> 'a \<Rightarrow> 'a list \<Rightarrow> 'a list" where
  "insert_by lt x [] = [x]"
| "insert_by lt x (y # ys) = (if lt y x then y # insert_by lt x ys else x # y # ys)"

fun sort_Slice :: "('a \<Rightarrow> 'a \<Rightarrow> bool) \<Rightarrow> 'a list \<Rightarrow> 'a list" where
  "sort_Slice lt [] = []"
| "sort_Slice lt (x # xs) = insert_by lt x (sort_Slice lt xs)"

lemma mset_insert_by [simp]: "mset (insert_by lt x ys) = add_mset x (mset ys)"
  by (induction ys) auto

lemma mset_sort_Slice [simp]: "mset (sort_Slice lt xs) = mset xs"
  by (induction xs) auto

lemma set_sort_Slice [simp]: "set (sort_Slice lt xs) = set xs"
  by (metis mset_sort_Slice set_mset_mset)

lemma length_sort_Slice [simp]: "length (sort_Slice lt xs) = length xs"
  by (metis mset_sort_Slice size_mset)

lemma distinct_sort_Slice [simp]: "distinct (sort_Slice lt xs) = distinct xs"
  by (metis mset_sort_Slice mset_eq_imp_distinct_iff)

lemma sort_Slice_eq_Nil [simp]: "sort_Slice lt xs = [] \<longleftrightarrow> xs = []"
  by (metis length_0_conv length_sort_Slice)

locale strict_linear =
  fixes lt :: "'a \<Rightarrow> 'a \<Rightarrow> bool"
  assumes irreflexive: "\<not> lt x x"
    and transitive: "lt x y \<Longrightarrow> lt y z \<Longrightarrow> lt x z"
    and linear: "lt x y \<or> x = y \<or> lt y x"
begin

definition le :: "'a \<Rightarrow> 'a \<Rightarrow> bool" where
  "le x y \<longleftrightarrow> lt x y \<or> x = y"

lemma le_not_less: "\<not> lt y x \<longleftrightarrow> le x y"
  using irreflexive transitive linear unfolding le_def by blast

lemma le_linorder: "class.linorder le lt"
proof
  show "lt x y \<longleftrightarrow> le x y \<and> \<not> le y x" for x y
    unfolding le_def using irreflexive transitive by blast
  show "le x y \<Longrightarrow> le y z \<Longrightarrow> le x z" for x y z
    unfolding le_def using transitive by blast
  show "le x y \<Longrightarrow> le y x \<Longrightarrow> x = y" for x y
    unfolding le_def using irreflexive transitive by blast
  show "le x y \<or> le y x" for x y
    unfolding le_def using linear by blast
qed (simp add: le_def)

lemma set_insert_by: "set (insert_by lt x ys) = insert x (set ys)"
  by (induction ys) auto

lemma le_trans: "le x y \<Longrightarrow> le y z \<Longrightarrow> le x z"
  unfolding le_def using transitive by blast

lemma sorted_insert_by: "sorted_wrt le ys \<Longrightarrow> sorted_wrt le (insert_by lt x ys)"
proof (induction ys)
  case Nil
  then show ?case by simp
next
  case (Cons y ys)
  show ?case
  proof (cases "lt y x")
    case True
    with Cons show ?thesis by (auto simp: set_insert_by le_def)
  next
    case False
    then have "le x y" by (simp add: le_not_less)
    with False Cons.prems show ?thesis by (auto intro: le_trans)
  qed
qed

lemma sorted_sort_Slice: "sorted_wrt le (sort_Slice lt xs)"
  by (induction xs) (auto intro: sorted_insert_by)

lemma sorted_unique:
  assumes "sorted_wrt le xs" and "sorted_wrt le ys" and "mset xs = mset ys"
  shows "xs = ys"
  using assms
proof (induction xs arbitrary: ys)
  case Nil
  then show ?case by simp
next
  case (Cons x xs)
  then obtain y ys' where ys: "ys = y # ys'" by (cases ys) auto
  have "x \<in> set ys" using Cons.prems(3) by (metis list.set_intros(1) set_mset_mset)
  then have yx: "y = x \<or> le y x" using Cons.prems(2) ys by auto
  have "y \<in> set (x # xs)" using Cons.prems(3) ys by (metis list.set_intros(1) set_mset_mset)
  then have "y = x \<or> le x y" using Cons.prems(1) by auto
  with yx have "x = y" unfolding le_def using irreflexive transitive by blast
  with Cons.prems ys Cons.IH[of ys'] show ?case by simp
qed

text \<open>Whatever algorithm sorts, its result is the model's.\<close>

lemma sort_any_algorithm:
  "mset ys = mset xs \<Longrightarrow> sorted_wrt le ys \<Longrightarrow> ys = sort_Slice lt xs"
  by (rule sorted_unique) (auto simp: sorted_sort_Slice)

lemma sort_permutation: "mset xs = mset ys \<Longrightarrow> sort_Slice lt xs = sort_Slice lt ys"
  by (rule sorted_unique) (auto simp: sorted_sort_Slice)

lemma sort_sorted: "sorted_wrt le xs \<Longrightarrow> sort_Slice lt xs = xs"
  using sort_any_algorithm[of xs xs] by simp

lemma strict_if_distinct: "distinct xs \<Longrightarrow> sorted_wrt le xs \<Longrightarrow> sorted_wrt lt xs"
  by (induction xs) (auto simp: le_def)

end

text \<open>The library's linear orders are instances; Go's string order is one of them.\<close>

interpretation linorder_less: strict_linear "(<) :: 'a::linorder \<Rightarrow> 'a \<Rightarrow> bool"
  by unfold_locales auto

lemma linorder_le [simp]: "linorder_less.le = ((\<le>) :: 'a::linorder \<Rightarrow> 'a \<Rightarrow> bool)"
  by (auto simp: fun_eq_iff linorder_less.le_def)

lemma sort_Slice_linorder: "sort_Slice (<) xs = sort (xs :: 'a::linorder list)"
  by (rule linorder_less.sort_any_algorithm[symmetric]) auto

section \<open>Duplicate elimination with a seen set\<close>

text \<open>
  The loop \<open>for x { k := key(x); if seen[k] continue; seen[k] = {}; out = append(out, x) }\<close>:
  the first element of each key survives, in order.
\<close>

fun dedup_loop :: "('a \<Rightarrow> 'k) \<Rightarrow> 'k list \<Rightarrow> 'a list \<Rightarrow> 'a list" where
  "dedup_loop key seen [] = []"
| "dedup_loop key seen (x # xs) =
     (if key x \<in> set seen then dedup_loop key seen xs
      else x # dedup_loop key (key x # seen) xs)"

lemma set_dedup_loop_subset: "set (dedup_loop key seen xs) \<subseteq> set xs"
  by (induction key seen xs rule: dedup_loop.induct) auto

lemma key_dedup_loop:
  "key ` set (dedup_loop key seen xs) = key ` set xs - set seen"
  by (induction key seen xs rule: dedup_loop.induct) auto

lemma distinct_key_dedup_loop: "distinct (map key (dedup_loop key seen xs))"
proof (induction key seen xs rule: dedup_loop.induct)
  case (2 key seen x xs)
  have "key x \<notin> key ` set (dedup_loop key (key x # seen) xs)"
    by (simp add: key_dedup_loop)
  with 2 show ?case by (simp add: image_iff)
qed simp

lemma distinct_map_dedup_loop:
  "distinct (map f xs) \<Longrightarrow> distinct (map f (dedup_loop key seen xs))"
proof (induction key seen xs rule: dedup_loop.induct)
  case (2 key seen x xs)
  have "set (dedup_loop key (key x # seen) xs) \<subseteq> set xs"
    by (rule set_dedup_loop_subset)
  then have "f ` set (dedup_loop key (key x # seen) xs) \<subseteq> f ` set xs" by (rule image_mono)
  with 2 show ?case by auto
qed simp

text \<open>The specification: keep the first occurrence of every element.\<close>

definition firsts :: "'a list \<Rightarrow> 'a list" where
  "firsts xs = rev (remdups (rev xs))"

lemma set_firsts [simp]: "set (firsts xs) = set xs"
  by (simp add: firsts_def)

lemma distinct_firsts [simp]: "distinct (firsts xs)"
  by (simp add: firsts_def)

lemma firsts_snoc: "firsts (xs @ [x]) = (if x \<in> set xs then firsts xs else firsts xs @ [x])"
  by (simp add: firsts_def)

lemma dedup_loop_snoc:
  "dedup_loop key seen (xs @ [x]) =
     (if key x \<in> set seen \<or> key x \<in> key ` set xs then dedup_loop key seen xs
      else dedup_loop key seen xs @ [x])"
  by (induction key seen xs rule: dedup_loop.induct) auto

locale dedup_key =
  fixes key :: "'a \<Rightarrow> 'k" and valid :: "'a \<Rightarrow> bool"
  assumes key_inj: "valid x \<Longrightarrow> valid y \<Longrightarrow> key x = key y \<Longrightarrow> x = y"
begin

lemma key_mem: "\<forall>y \<in> set xs. valid y \<Longrightarrow> valid x \<Longrightarrow> key x \<in> key ` set xs \<longleftrightarrow> x \<in> set xs"
  by (auto dest: key_inj)

lemma dedup_loop_firsts: "\<forall>x \<in> set xs. valid x \<Longrightarrow> dedup_loop key [] xs = firsts xs"
proof (induction xs rule: rev_induct)
  case Nil
  then show ?case by (simp add: firsts_def)
next
  case (snoc x xs)
  then show ?case by (simp add: dedup_loop_snoc firsts_snoc key_mem)
qed

lemma dedup_loop_set: "\<forall>x \<in> set xs. valid x \<Longrightarrow> set (dedup_loop key [] xs) = set xs"
  by (simp add: dedup_loop_firsts)

lemma dedup_loop_distinct_id:
  "\<forall>x \<in> set xs. valid x \<Longrightarrow> distinct xs \<Longrightarrow> dedup_loop key [] xs = xs"
  by (simp add: dedup_loop_firsts firsts_def distinct_remdups_id)

end

text \<open>The identity is a key; this is the loop over plain strings.\<close>

interpretation id_key: dedup_key "\<lambda>x. x" "\<lambda>_. True"
  by unfold_locales auto

end
