(* ===== verification/GoStd.thy ===== *)
theory GoStd
  imports Prelude "HOL-Library.Word" "HOL-Library.AList_Mapping"
begin

text \<open>
  What the controller uses of the Go language and its standard library.

  \<^item> Slices and maps, where a nil value can be told from an empty one: \<open>reflect.DeepEqual\<close>
    does tell them apart, and the reconciler compares with it. With the representation
    below \<open>reflect.DeepEqual\<close> on the compared structs is equality of their models.
    Where nil-ness cannot be observed (a slice that is only ranged over or appended to)
    the other theories use plain lists.
  \<^item> Strings are byte strings (\<open>char list\<close>); \<open><\<close> on them is the byte-wise lexicographic
    order, which is the order of \<open>HOL-Library.List_Lexorder\<close> over \<open>Char_ord\<close>.
  \<^item> \<open>strconv\<close>, \<open>strings\<close> and the conversions \<open>int32(\<dots>)\<close> and \<open>float64(\<dots>)\<close>.
\<close>

section \<open>Slices and maps\<close>

datatype 'a slice = NilSlice | Slice "'a list"

fun elems :: "'a slice \<Rightarrow> 'a list" where
  "elems NilSlice = []"
| "elems (Slice xs) = xs"

text \<open>\<open>len(s)\<close> is an \<open>int\<close>.\<close>

definition slice_len :: "'a slice \<Rightarrow> int" where
  "slice_len s = int (length (elems s))"

text \<open>\<open>append(s, xs...)\<close>: appending nothing to nil leaves nil.\<close>

definition slice_append :: "'a slice \<Rightarrow> 'a list \<Rightarrow> 'a slice" where
  "slice_append s xs = (if xs = [] then s else Slice (elems s @ xs))"

text \<open>\<open>s[:n]\<close> for \<open>0 \<le> n \<le> len(s)\<close>; reslicing keeps nil nil.\<close>

fun slice_upto :: "'a slice \<Rightarrow> int \<Rightarrow> 'a slice" where
  "slice_upto NilSlice n = NilSlice"
| "slice_upto (Slice xs) n = Slice (take (nat n) xs)"

fun slice_map_list :: "('a list \<Rightarrow> 'b list) \<Rightarrow> 'a slice \<Rightarrow> 'b slice" where
  "slice_map_list f NilSlice = NilSlice"
| "slice_map_list f (Slice xs) = Slice (f xs)"

lemma elems_slice_append [simp]: "elems (slice_append s xs) = elems s @ xs"
  by (simp add: slice_append_def)

lemma elems_slice_upto [simp]: "elems (slice_upto s n) = take (nat n) (elems s)"
  by (cases s) auto

lemma slice_append_Slice [simp]: "slice_append (Slice xs) ys = Slice (xs @ ys)"
  by (simp add: slice_append_def)

lemma fold_slice_append:
  "fold (\<lambda>x s. slice_append s (f x)) xs (Slice acc) = Slice (acc @ concat (map f xs))"
  by (induction xs arbitrary: acc) auto

datatype ('k, 'v) gomap = NilMap | GoMap "('k, 'v) mapping"

fun gomap_lookup :: "('k, 'v) gomap \<Rightarrow> 'k \<Rightarrow> 'v option" where
  "gomap_lookup NilMap k = None"
| "gomap_lookup (GoMap m) k = Mapping.lookup m k"

text \<open>\<open>map[K]V{}\<close> and \<open>m[k] = v\<close> on a map that is not nil.\<close>

abbreviation empty_gomap :: "('k, 'v) gomap" where
  "empty_gomap \<equiv> GoMap Mapping.empty"

fun gomap_put :: "'k \<Rightarrow> 'v \<Rightarrow> ('k, 'v) gomap \<Rightarrow> ('k, 'v) gomap" where
  "gomap_put k v (GoMap m) = GoMap (Mapping.update k v m)"
| "gomap_put k v NilMap = NilMap"

lemma gomap_lookup_put [simp]:
  "m \<noteq> NilMap \<Longrightarrow> gomap_lookup (gomap_put k v m) k' = (if k = k' then Some v else gomap_lookup m k')"
  by (cases m) (auto simp: lookup_update')

lemma update_not_empty [simp]: "Mapping.update k v m \<noteq> Mapping.empty"
  by (metis lookup_empty lookup_update option.distinct(1))

lemma gomap_put_nil [simp]: "gomap_put k v m = NilMap \<longleftrightarrow> m = NilMap"
  by (cases m) auto

lemma gomap_eqI:
  "m \<noteq> NilMap \<Longrightarrow> m' \<noteq> NilMap \<Longrightarrow> (\<And>k. gomap_lookup m k = gomap_lookup m' k) \<Longrightarrow> m = m'"
  by (cases m; cases m') (auto intro: mapping_eqI)

section \<open>Decimal numbers: fmt.Sprintf with %d on an index\<close>

definition digit :: "nat \<Rightarrow> char" where
  "digit d = char_of (48 + d)"

fun itoa :: "nat \<Rightarrow> string" where
  "itoa n = (if n < 10 then [digit n] else itoa (n div 10) @ [digit (n mod 10)])"

declare itoa.simps [simp del]

text \<open>Reading it back: the decimal value of a string of digits.\<close>

definition digit_val :: "char \<Rightarrow> nat" where
  "digit_val c = of_char c - 48"

definition is_digit :: "char \<Rightarrow> bool" where
  "is_digit c \<longleftrightarrow> 48 \<le> (of_char c :: nat) \<and> (of_char c :: nat) \<le> 57"

definition decimal :: "string \<Rightarrow> nat" where
  "decimal s = fold (\<lambda>c n. 10 * n + digit_val c) s 0"

lemma digit_inverse: "d < 10 \<Longrightarrow> digit_val (digit d) = d"
  by (simp add: digit_val_def digit_def of_char_of)

lemma is_digit_digit: "d < 10 \<Longrightarrow> is_digit (digit d)"
  by (simp add: is_digit_def digit_def of_char_of)

lemma decimal_snoc: "decimal (s @ [c]) = 10 * decimal s + digit_val c"
  by (simp add: decimal_def)

lemma decimal_itoa: "decimal (itoa n) = n"
proof (induction n rule: itoa.induct)
  case (1 n)
  show ?case
  proof (cases "n < 10")
    case True
    then show ?thesis by (simp add: itoa.simps[of n] decimal_def digit_inverse)
  next
    case False
    with 1 show ?thesis by (simp add: itoa.simps[of n] decimal_snoc digit_inverse)
  qed
qed

lemma itoa_inject [simp]: "itoa m = itoa n \<longleftrightarrow> m = n"
  by (metis decimal_itoa)

lemma itoa_digits: "c \<in> set (itoa n) \<Longrightarrow> is_digit c"
proof (induction n rule: itoa.induct)
  case (1 n)
  then show ?case
    by (cases "n < 10") (auto simp: itoa.simps[of n] is_digit_digit)
qed

lemma itoa_nonempty [simp]: "itoa n \<noteq> []"
  by (subst itoa.simps) simp

section \<open>Package strings\<close>

text \<open>
  \<open>strings.TrimSpace\<close> removes leading and trailing white space as \<open>unicode.IsSpace\<close> defines
  it. The UTF-8 encodings of these code points are listed: the ASCII ones, U+0085, U+00A0,
  U+1680, U+2000 to U+200A, U+2028, U+2029, U+202F, U+205F and U+3000. Each encoding
  starts with a byte that is not a continuation byte, so decoding a rune at either end of
  the string and comparing it is the same as matching the encoding there.
\<close>

definition white_space :: "string list" where
  "white_space =
     [[CHR 0x09], [CHR 0x0A], [CHR 0x0B], [CHR 0x0C], [CHR 0x0D], [CHR 0x20], [CHR 0xC2, CHR 0x85],
      [CHR 0xC2, CHR 0xA0], [CHR 0xE1, CHR 0x9A, CHR 0x80], [CHR 0xE2, CHR 0x80, CHR 0x80],
      [CHR 0xE2, CHR 0x80, CHR 0x81], [CHR 0xE2, CHR 0x80, CHR 0x82],
      [CHR 0xE2, CHR 0x80, CHR 0x83], [CHR 0xE2, CHR 0x80, CHR 0x84],
      [CHR 0xE2, CHR 0x80, CHR 0x85], [CHR 0xE2, CHR 0x80, CHR 0x86],
      [CHR 0xE2, CHR 0x80, CHR 0x87], [CHR 0xE2, CHR 0x80, CHR 0x88],
      [CHR 0xE2, CHR 0x80, CHR 0x89], [CHR 0xE2, CHR 0x80, CHR 0x8A],
      [CHR 0xE2, CHR 0x80, CHR 0xA8], [CHR 0xE2, CHR 0x80, CHR 0xA9],
      [CHR 0xE2, CHR 0x80, CHR 0xAF], [CHR 0xE2, CHR 0x81, CHR 0x9F],
      [CHR 0xE3, CHR 0x80, CHR 0x80]]"

fun HasPrefix :: "string \<Rightarrow> string \<Rightarrow> bool" where
  "HasPrefix s [] = True"
| "HasPrefix [] (p # ps) = False"
| "HasPrefix (c # s) (p # ps) = (c = p \<and> HasPrefix s ps)"

lemma HasPrefix_conv: "HasPrefix s p \<longleftrightarrow> (\<exists>t. s = p @ t)"
  by (induction s p rule: HasPrefix.induct) auto

lemma HasPrefix_drop: "HasPrefix s p \<Longrightarrow> p @ drop (length p) s = s"
  by (auto simp: HasPrefix_conv)

definition leading_space :: "string list \<Rightarrow> string \<Rightarrow> nat" where
  "leading_space sp s = (case filter (\<lambda>w. w \<noteq> [] \<and> HasPrefix s w) sp of [] \<Rightarrow> 0 | w # _ \<Rightarrow> length w)"

lemma leading_space_le: "leading_space sp s \<le> length s"
proof (cases "filter (\<lambda>w. w \<noteq> [] \<and> HasPrefix s w) sp")
  case (Cons w ws)
  then have "w \<in> set (filter (\<lambda>w. w \<noteq> [] \<and> HasPrefix s w) sp)" by simp
  then obtain t where "s = w @ t" by (auto simp: HasPrefix_conv)
  with Cons show ?thesis by (simp add: leading_space_def)
qed (simp add: leading_space_def)

function trim_with :: "string list \<Rightarrow> string \<Rightarrow> string" where
  "trim_with sp s = (if leading_space sp s = 0 then s else trim_with sp (drop (leading_space sp s) s))"
  by pat_completeness auto
termination
proof (relation "measure (\<lambda>(sp, s). length s)")
  fix sp s
  assume "leading_space sp s \<noteq> 0"
  with leading_space_le[of sp s] have "length s - leading_space sp s < length s" by linarith
  then show "((sp, drop (leading_space sp s) s), sp, s) \<in> measure (\<lambda>(sp, s). length s)" by simp
qed auto

declare trim_with.simps [simp del]

definition TrimSpace :: "string \<Rightarrow> string" where
  "TrimSpace s = rev (trim_with (map rev white_space) (rev (trim_with white_space s)))"

lemma trim_with_fixed: "leading_space sp s = 0 \<Longrightarrow> trim_with sp s = s"
  by (simp add: trim_with.simps)

lemma leading_space_trim_with: "leading_space sp (trim_with sp s) = 0"
proof (induction sp s rule: trim_with.induct)
  case (1 sp s)
  then show ?case by (cases "leading_space sp s = 0") (simp_all add: trim_with.simps[of sp s])
qed

lemma leading_space_0: "leading_space sp s = 0 \<longleftrightarrow> (\<forall>w \<in> set sp. w \<noteq> [] \<longrightarrow> \<not> HasPrefix s w)"
proof (cases "filter (\<lambda>w. w \<noteq> [] \<and> HasPrefix s w) sp")
  case Nil
  then show ?thesis by (auto simp: leading_space_def filter_empty_conv)
next
  case (Cons w ws)
  then have w: "w \<in> set (filter (\<lambda>w. w \<noteq> [] \<and> HasPrefix s w) sp)" by simp
  then have "w \<noteq> []" by auto
  then have "leading_space sp s \<noteq> 0" using Cons by (simp add: leading_space_def)
  with w show ?thesis by auto
qed

lemma trim_with_suffix: "\<exists>p. s = p @ trim_with sp s"
proof (induction sp s rule: trim_with.induct)
  case (1 sp s)
  show ?case
  proof (cases "leading_space sp s = 0")
    case True
    then show ?thesis by (simp add: trim_with.simps[of sp s])
  next
    case False
    with 1 obtain p where "drop (leading_space sp s) s = p @ trim_with sp (drop (leading_space sp s) s)"
      by blast
    then have "s = (take (leading_space sp s) s @ p) @ trim_with sp s"
      using False by (metis append_assoc append_take_drop_id trim_with.simps)
    then show ?thesis by blast
  qed
qed

lemma HasPrefix_take: "HasPrefix (take k s) w \<Longrightarrow> HasPrefix s w"
  by (metis HasPrefix_conv append_assoc append_take_drop_id)

lemma TrimSpace_prefix: "\<exists>k. TrimSpace s = take k (trim_with white_space s)"
proof -
  obtain p where "rev (trim_with white_space s) = p @ trim_with (map rev white_space) (rev (trim_with white_space s))"
    using trim_with_suffix by blast
  then have "trim_with white_space s = TrimSpace s @ rev p"
    unfolding TrimSpace_def by (metis rev_append rev_rev_ident)
  then show ?thesis by (metis append_eq_conv_conj)
qed

lemma leading_space_TrimSpace: "leading_space white_space (TrimSpace s) = 0"
proof -
  obtain k where k: "TrimSpace s = take k (trim_with white_space s)" using TrimSpace_prefix by blast
  have "leading_space white_space (trim_with white_space s) = 0" by (rule leading_space_trim_with)
  then show ?thesis unfolding k leading_space_0 by (blast dest: HasPrefix_take)
qed

lemma trailing_space_TrimSpace: "leading_space (map rev white_space) (rev (TrimSpace s)) = 0"
  by (simp add: TrimSpace_def leading_space_trim_with)

lemma TrimSpace_fixed:
  assumes "leading_space white_space s = 0" and "leading_space (map rev white_space) (rev s) = 0"
  shows "TrimSpace s = s"
  by (simp add: TrimSpace_def trim_with_fixed assms)

lemma TrimSpace_idem [simp]: "TrimSpace (TrimSpace s) = TrimSpace s"
  by (rule TrimSpace_fixed[OF leading_space_TrimSpace trailing_space_TrimSpace])

lemma white_space_ends: "w \<in> set white_space \<Longrightarrow> w \<noteq> [] \<and> hd w \<noteq> CHR ''{'' \<and> last w \<noteq> CHR ''}''"
proof -
  have "list_all (\<lambda>w. w \<noteq> [] \<and> hd w \<noteq> CHR ''{'' \<and> last w \<noteq> CHR ''}'') white_space" by code_simp
  then show "w \<in> set white_space \<Longrightarrow> w \<noteq> [] \<and> hd w \<noteq> CHR ''{'' \<and> last w \<noteq> CHR ''}''"
    by (simp add: list_all_iff)
qed

lemma TrimSpace_braces: "TrimSpace (CHR ''{'' # s @ ''}'') = CHR ''{'' # s @ ''}''"
proof (rule TrimSpace_fixed)
  show "leading_space white_space (CHR ''{'' # s @ ''}'') = 0"
    unfolding leading_space_0 HasPrefix_conv
    using white_space_ends by (metis Cons_eq_append_conv list.sel(1))
  have "\<not> HasPrefix (CHR ''}'' # t) (rev w)" if "w \<in> set white_space" for w t
  proof
    assume "HasPrefix (CHR ''}'' # t) (rev w)"
    then obtain r where r: "CHR ''}'' # t = rev w @ r" by (auto simp: HasPrefix_conv)
    then have "hd (rev w) = CHR ''}''" using white_space_ends[OF that] by (metis hd_append2 list.sel(1) rev_is_Nil_conv)
    then show False using white_space_ends[OF that] by (simp add: hd_rev)
  qed
  then show "leading_space (map rev white_space) (rev (CHR ''{'' # s @ ''}'')) = 0"
    unfolding leading_space_0 by auto
qed

section \<open>Strings without NUL bytes\<close>

definition nul_free :: "string \<Rightarrow> bool" where
  "nul_free s \<longleftrightarrow> CHR 0x00 \<notin> set s"

lemma nul_free_append [simp]: "nul_free (s @ t) \<longleftrightarrow> nul_free s \<and> nul_free t"
  by (simp add: nul_free_def)

lemma nul_free_Nil [simp]: "nul_free []"
  by (simp add: nul_free_def)

lemma nul_free_Cons: "nul_free (c # s) \<longleftrightarrow> c \<noteq> CHR 0x00 \<and> nul_free s"
  by (auto simp: nul_free_def)

text \<open>A string followed by a NUL can be split in one way only.\<close>

lemma nul_split:
  "nul_free a \<Longrightarrow> nul_free b \<Longrightarrow> a @ CHR 0x00 # s = b @ CHR 0x00 # t \<longleftrightarrow> a = b \<and> s = t"
proof (induction a arbitrary: b)
  case Nil
  then show ?case by (cases b) (auto simp: nul_free_Cons)
next
  case (Cons x a)
  then show ?case by (cases b) (auto simp: nul_free_Cons)
qed

lemma nul_free_itoa [simp]: "nul_free (itoa n)"
  using itoa_digits[of _ n] by (fastforce simp: nul_free_def is_digit_def of_char_of)

section \<open>Numeric conversions\<close>

text \<open>\<open>int32(n)\<close> keeps the low 32 bits; the value is read back as two's complement.\<close>

type_synonym int32 = "32 word"

definition int32_of_int :: "int \<Rightarrow> int32" where
  "int32_of_int n = word_of_int n"

lemma sint_int32: "sint (int32_of_int n) = (n + 2 ^ 31) mod 2 ^ 32 - 2 ^ 31"
  by (simp add: int32_of_int_def sint_sbintrunc' signed_take_bit_eq_take_bit_shift take_bit_eq_mod)

lemma sint_int32_of_int: "0 \<le> n \<Longrightarrow> n < 2 ^ 31 \<Longrightarrow> sint (int32_of_int n) = n"
  by (simp add: int32_of_int_def sint_sbintrunc' signed_take_bit_int_eq_self_iff)

text \<open>
  \<open>float64(n)\<close> of an integer: exact up to 53 significant bits, rounded to the nearest
  value with ties to even beyond. The gauges only ever hold integral values, so a
  \<open>float64\<close> is modelled by the integer it denotes.
\<close>

type_synonym float64 = int

definition round_even :: "int \<Rightarrow> int \<Rightarrow> int" where
  "round_even n unit =
     (let q = n div unit; r = n mod unit in
      if 2 * r < unit \<or> 2 * r = unit \<and> even q then q * unit else (q + 1) * unit)"

text \<open>The gap between neighbouring values at magnitude \<open>m\<close>: 1 below 2^53, doubling per bit.\<close>

fun float_unit :: "nat \<Rightarrow> nat" where
  "float_unit m = (if m < 2 ^ 53 then 1 else 2 * float_unit (m div 2))"

declare float_unit.simps [simp del]

definition float64_of_int :: "int \<Rightarrow> float64" where
  "float64_of_int n = sgn n * round_even \<bar>n\<bar> (int (float_unit (nat \<bar>n\<bar>)))"

lemma float64_exact: "\<bar>n\<bar> < 2 ^ 53 \<Longrightarrow> float64_of_int n = n"
proof -
  assume "\<bar>n\<bar> < 2 ^ 53"
  then have "float_unit (nat \<bar>n\<bar>) = 1" by (subst float_unit.simps) (simp add: nat_less_iff)
  then show ?thesis
    by (simp add: float64_of_int_def round_even_def sgn_mult_abs)
qed

text \<open>\<open>x++\<close> on a \<open>float64\<close> that holds an integer.\<close>

definition float64_inc :: "float64 \<Rightarrow> float64" where
  "float64_inc x = float64_of_int (x + 1)"

end
