(* ===== verification/KubeTypes.thy ===== *)
theory KubeTypes
  imports GoStd
begin

text \<open>
  The data the controller reads and the libraries it calls.

  \<^item> The Kubernetes API structs (\<open>k8s.io/api\<close>, \<open>k8s.io/apimachinery\<close>), restricted to the
    fields the program reads. A pointer field is an \<open>option\<close>, a list field that is only
    ranged over is a list.
  \<^item> \<open>clientObject\<close>: the dynamic types a \<open>client.Object\<close> can have in the program's type
    switches, and one constructor for every other type.
  \<^item> \<open>goError\<close>: errors, by where the program makes or wraps them.
  \<^item> \<open>lib\<close>: the third-party functions and constants the program calls. They are not part
    of the repository, so they are fields of a record that every definition using them
    takes as its argument; what a property needs to know of them is a named hypothesis.
\<close>

section \<open>Names of kinds\<close>

record groupVersion =
  gv_Group :: string
  gv_Version :: string

record groupVersionKind =
  gvk_Group :: string
  gvk_Version :: string
  Kind :: string

definition GroupVersion :: "groupVersionKind \<Rightarrow> groupVersion" where
  "GroupVersion g = \<lparr>gv_Group = gvk_Group g, gv_Version = gvk_Version g\<rparr>"

definition WithKind :: "groupVersion \<Rightarrow> string \<Rightarrow> groupVersionKind" where
  "WithKind gv k = \<lparr>gvk_Group = gv_Group gv, gvk_Version = gv_Version gv, Kind = k\<rparr>"

lemma WithKind_inject [simp]: "WithKind gv k = WithKind gv' k' \<longleftrightarrow> gv = gv' \<and> k = k'"
  by (cases gv; cases gv') (auto simp: WithKind_def)

lemma Kind_WithKind [simp]: "Kind (WithKind gv k) = k"
  by (simp add: WithKind_def)

lemma GroupVersion_WithKind [simp]: "GroupVersion (WithKind gv k) = gv"
  by (simp add: WithKind_def GroupVersion_def)

section \<open>Object metadata\<close>

record ownerReference =
  or_APIVersion :: string
  or_Kind :: string
  or_Controller :: "bool option"

record objectMeta =
  Namespace :: string
  Name :: string
  UID :: string
  ResourceVersion :: string
  Labels :: "(string, string) gomap"
  OwnerReferences :: "ownerReference list"

record namespacedName =
  nn_Namespace :: string
  nn_Name :: string

section \<open>Pod specs\<close>

record localObjectReference =
  lor_Name :: string

record secretVolumeSource =
  svs_SecretName :: string
  svs_Optional :: "bool option"

record secretProjection =
  sp_Name :: string
  sp_Optional :: "bool option"

record volumeProjection =
  vp_Secret :: "secretProjection option"

record projectedVolumeSource =
  Sources :: "volumeProjection list"

record csiVolumeSource =
  NodePublishSecretRef :: "localObjectReference option"

record azureFileVolumeSource =
  af_SecretName :: string

text \<open>
  The sources of CephFS, Cinder, FlexVolume, ISCSI, RBD, ScaleIO and StorageOS volumes all
  have a field \<open>SecretRef\<close>, the only one the program reads.
\<close>

record secretRefVolumeSource =
  SecretRef :: "localObjectReference option"

record volume =
  vol_Secret :: "secretVolumeSource option"
  vol_Projected :: "projectedVolumeSource option"
  vol_CSI :: "csiVolumeSource option"
  vol_AzureFile :: "azureFileVolumeSource option"
  vol_CephFS :: "secretRefVolumeSource option"
  vol_Cinder :: "secretRefVolumeSource option"
  vol_FlexVolume :: "secretRefVolumeSource option"
  vol_ISCSI :: "secretRefVolumeSource option"
  vol_RBD :: "secretRefVolumeSource option"
  vol_ScaleIO :: "secretRefVolumeSource option"
  vol_StorageOS :: "secretRefVolumeSource option"

record secretKeySelector =
  sks_Name :: string
  sks_Key :: string
  sks_Optional :: "bool option"

record envVarSource =
  SecretKeyRef :: "secretKeySelector option"

record envVar =
  ValueFrom :: "envVarSource option"

record secretEnvSource =
  ses_Name :: string
  ses_Optional :: "bool option"

record envFromSource =
  efs_SecretRef :: "secretEnvSource option"

record container =
  c_Name :: string
  Env :: "envVar list"
  EnvFrom :: "envFromSource list"

record podSpec =
  ImagePullSecrets :: "localObjectReference list"
  Volumes :: "volume list"
  InitContainers :: "container list"
  Containers :: "container list"
  EphemeralContainers :: "container list"

record podTemplateSpec =
  pts_Spec :: podSpec

record ingressTLS =
  tls_SecretName :: string

section \<open>Unstructured content\<close>

text \<open>
  The content of an unstructured object: JSON values. What the program asks of a value is
  whether it is a string.
\<close>

datatype json =
    JNull
  | JBool bool
  | JNum int
  | JStr string
  | JArr "json list"
  | JObj "(string \<times> json) list"

text \<open>
  An unstructured object by the answers of its accessors (\<open>GroupVersionKind()\<close>,
  \<open>GetNamespace()\<close>, \<open>GetName()\<close>, \<open>GetUID()\<close>) and its content \<open>Object\<close>.
\<close>

record unstructuredObj =
  un_GVK :: groupVersionKind
  un_Namespace :: string
  un_Name :: string
  un_UID :: string
  un_Object :: json

section \<open>client.Object\<close>

datatype clientObject =
    Pod objectMeta podSpec
  | Deployment objectMeta podTemplateSpec
  | StatefulSet objectMeta podTemplateSpec
  | DaemonSet objectMeta podTemplateSpec
  | ReplicaSet objectMeta podTemplateSpec
  | Job objectMeta podTemplateSpec
  | CronJob objectMeta podTemplateSpec
  | ReplicationController objectMeta "podTemplateSpec option"
  | ServiceAccount objectMeta "localObjectReference list" "localObjectReference list"
  | Ingress objectMeta "ingressTLS list"
  | Unstructured unstructuredObj
  | OtherObject groupVersionKind objectMeta

fun GetNamespace :: "clientObject \<Rightarrow> string" where
  "GetNamespace (Pod m _) = Namespace m"
| "GetNamespace (Deployment m _) = Namespace m"
| "GetNamespace (StatefulSet m _) = Namespace m"
| "GetNamespace (DaemonSet m _) = Namespace m"
| "GetNamespace (ReplicaSet m _) = Namespace m"
| "GetNamespace (Job m _) = Namespace m"
| "GetNamespace (CronJob m _) = Namespace m"
| "GetNamespace (ReplicationController m _) = Namespace m"
| "GetNamespace (ServiceAccount m _ _) = Namespace m"
| "GetNamespace (Ingress m _) = Namespace m"
| "GetNamespace (Unstructured u) = un_Namespace u"
| "GetNamespace (OtherObject _ m) = Namespace m"

fun GetName :: "clientObject \<Rightarrow> string" where
  "GetName (Pod m _) = Name m"
| "GetName (Deployment m _) = Name m"
| "GetName (StatefulSet m _) = Name m"
| "GetName (DaemonSet m _) = Name m"
| "GetName (ReplicaSet m _) = Name m"
| "GetName (Job m _) = Name m"
| "GetName (CronJob m _) = Name m"
| "GetName (ReplicationController m _) = Name m"
| "GetName (ServiceAccount m _ _) = Name m"
| "GetName (Ingress m _) = Name m"
| "GetName (Unstructured u) = un_Name u"
| "GetName (OtherObject _ m) = Name m"

fun GetUID :: "clientObject \<Rightarrow> string" where
  "GetUID (Pod m _) = UID m"
| "GetUID (Deployment m _) = UID m"
| "GetUID (StatefulSet m _) = UID m"
| "GetUID (DaemonSet m _) = UID m"
| "GetUID (ReplicaSet m _) = UID m"
| "GetUID (Job m _) = UID m"
| "GetUID (CronJob m _) = UID m"
| "GetUID (ReplicationController m _) = UID m"
| "GetUID (ServiceAccount m _ _) = UID m"
| "GetUID (Ingress m _) = UID m"
| "GetUID (Unstructured u) = un_UID u"
| "GetUID (OtherObject _ m) = UID m"

section \<open>Errors\<close>

text \<open>
  An error of the API machinery is represented by the answers of the predicates the
  program asks of it: \<open>apierrors.IsNotFound\<close> and \<open>meta.IsNoMatchError\<close>. The other
  constructors are the program's own \<open>fmt.Errorf\<close> calls, one per format string, with the
  values that are formatted in; those with \<open>%w\<close> hold the wrapped error.
\<close>

datatype apiReason = NotFound | NoMatch | OtherReason

datatype goError =
    APIError apiReason string
  | ErrList groupVersionKind goError
  | ErrBuildDiscovery goError
  | ErrCheck groupVersionKind goError
  | ErrIndex groupVersionKind goError
  | ErrReadRules string goError
  | ErrParseRules string goError
  | ErrRuleFields nat
  | ErrRuleNoPath nat string string
  | ErrRuleAPIVersion nat string goError
  | ErrRuleBuiltIn nat string string
  | ErrRuleDuplicate nat string string
  | ErrRulePath nat string string string goError

text \<open>Both predicates look through \<open>%w\<close> wrapping.\<close>

fun unwrap :: "goError \<Rightarrow> goError" where
  "unwrap (ErrList _ e) = unwrap e"
| "unwrap (ErrBuildDiscovery e) = unwrap e"
| "unwrap (ErrCheck _ e) = unwrap e"
| "unwrap (ErrIndex _ e) = unwrap e"
| "unwrap (ErrReadRules _ e) = unwrap e"
| "unwrap (ErrParseRules _ e) = unwrap e"
| "unwrap (ErrRuleAPIVersion _ _ e) = unwrap e"
| "unwrap (ErrRulePath _ _ _ _ e) = unwrap e"
| "unwrap e = e"

definition IsNotFound :: "goError \<Rightarrow> bool" where
  "IsNotFound e \<longleftrightarrow> (case unwrap e of APIError NotFound _ \<Rightarrow> True | _ \<Rightarrow> False)"

definition IsNoMatchError :: "goError \<Rightarrow> bool" where
  "IsNoMatchError e \<longleftrightarrow> (case unwrap e of APIError NoMatch _ \<Rightarrow> True | _ \<Rightarrow> False)"

text \<open>\<open>client.IgnoreNotFound\<close>: a nil error stays nil.\<close>

fun IgnoreNotFound :: "goError option \<Rightarrow> goError option" where
  "IgnoreNotFound None = None"
| "IgnoreNotFound (Some e) = (if IsNotFound e then None else Some e)"

section \<open>The libraries\<close>

text \<open>
  \<^item> the four \<open>SchemeGroupVersion\<close> variables of \<open>k8s.io/api\<close>, and \<open>GroupVersion.String()\<close>;
  \<^item> \<open>schema.ParseGroupVersion\<close>;
  \<^item> \<open>validation.IsValidLabelValue\<close>, which returns the list of problems it finds;
  \<^item> \<open>jsonpath.New(name)\<close>, \<open>AllowMissingKeys(b)\<close> and \<open>Parse(text)\<close> as one function of
    \<open>name\<close>, \<open>b\<close> and \<open>text\<close> to the compiled path (type \<open>'jp\<close>), and \<open>FindResults\<close>;
  \<^item> \<open>os.ReadFile\<close> and \<open>yaml.UnmarshalStrict\<close> are in the theory of the rules file.
\<close>

record 'jp lib =
  corev1_SchemeGroupVersion :: groupVersion
  appsv1_SchemeGroupVersion :: groupVersion
  batchv1_SchemeGroupVersion :: groupVersion
  networkingv1_SchemeGroupVersion :: groupVersion
  gvString :: "groupVersion \<Rightarrow> string"
  ParseGroupVersion :: "string \<Rightarrow> goError + groupVersion"
  IsValidLabelValue :: "string \<Rightarrow> string list"
  jsonpath_Parse :: "string \<Rightarrow> bool \<Rightarrow> string \<Rightarrow> goError + 'jp"
  FindResults :: "'jp \<Rightarrow> json \<Rightarrow> goError + json list list"

end
