(* ===== verification/UsageApi.thy ===== *)
theory UsageApi
  imports KubeTypes
begin

text \<open>
  The API types of \<open>api/v1alpha1\<close>: the \<open>SecretUsage\<close> object, its status and the references
  it lists, with the label keys. \<open>UsageCount\<close> is a Go \<open>int32\<close> and keeps its width.
  \<open>omitempty\<close> describes what comes back when an object is written to the API server and
  read again.
\<close>

section \<open>Label keys\<close>

definition SecretNameLabel :: string where
  "SecretNameLabel = ''usage.secretusage.io/secret-name''"

definition UnusedLabel :: string where
  "UnusedLabel = ''usage.secretusage.io/unused''"

definition MissingLabel :: string where
  "MissingLabel = ''usage.secretusage.io/missing''"

lemma labels_distinct [simp]:
  "SecretNameLabel \<noteq> UnusedLabel" "SecretNameLabel \<noteq> MissingLabel" "UnusedLabel \<noteq> MissingLabel"
  "UnusedLabel \<noteq> SecretNameLabel" "MissingLabel \<noteq> SecretNameLabel" "MissingLabel \<noteq> UnusedLabel"
  by (simp_all add: SecretNameLabel_def UnusedLabel_def MissingLabel_def)

section \<open>API group\<close>

definition usageGroupVersion :: groupVersion where
  "usageGroupVersion = \<lparr>gv_Group = ''usage.secretusage.io'', gv_Version = ''v1alpha1''\<rparr>"

section \<open>Types\<close>

record secretUsageReference =
  u_APIVersion :: string
  u_Kind :: string
  u_Namespace :: string
  u_Name :: string
  u_UID :: string
  u_FieldPath :: string
  u_Container :: string
  u_Key :: string
  u_Optional :: "bool option"

record secretUsageStatus =
  st_SecretName :: string
  Exists :: bool
  UsageCount :: int32
  Truncated :: bool
  Usages :: "secretUsageReference slice"

record secretUsage =
  ObjectMeta :: objectMeta
  Status :: secretUsageStatus

text \<open>The zero values of Go.\<close>

definition zero_status :: secretUsageStatus where
  "zero_status = \<lparr>st_SecretName = [], Exists = False, UsageCount = 0, Truncated = False, Usages = NilSlice\<rparr>"

definition zero_meta :: objectMeta where
  "zero_meta = \<lparr>Namespace = [], Name = [], UID = [], ResourceVersion = [], Labels = NilMap, OwnerReferences = []\<rparr>"

text \<open>
  Encoding to JSON and decoding again. \<open>usages\<close> and \<open>labels\<close> are \<open>omitempty\<close>: an empty
  list or map is left out, and the decoded field is nil. The other fields come back as
  they were.
\<close>

fun omitempty_slice :: "'a slice \<Rightarrow> 'a slice" where
  "omitempty_slice NilSlice = NilSlice"
| "omitempty_slice (Slice xs) = (if xs = [] then NilSlice else Slice xs)"

fun omitempty_map :: "('k, 'v) gomap \<Rightarrow> ('k, 'v) gomap" where
  "omitempty_map NilMap = NilMap"
| "omitempty_map (GoMap m) = (if m = Mapping.empty then NilMap else GoMap m)"

definition wire_status :: "secretUsageStatus \<Rightarrow> secretUsageStatus" where
  "wire_status st = st\<lparr>Usages := omitempty_slice (Usages st)\<rparr>"

lemma elems_omitempty [simp]: "elems (omitempty_slice s) = elems s"
  by (cases s) auto

lemma omitempty_slice_idem [simp]: "omitempty_slice (omitempty_slice s) = omitempty_slice s"
  by (cases s) auto

lemma omitempty_slice_fix: "omitempty_slice s = s \<longleftrightarrow> s \<noteq> Slice []"
  by (cases s) auto

lemma omitempty_map_idem [simp]: "omitempty_map (omitempty_map m) = omitempty_map m"
  by (cases m) auto

lemma omitempty_map_fix: "omitempty_map m = m \<longleftrightarrow> m \<noteq> empty_gomap"
  by (cases m) auto

lemma gomap_lookup_omitempty [simp]: "gomap_lookup (omitempty_map m) k = gomap_lookup m k"
  by (cases m) (auto simp: lookup_empty)

lemma wire_status_fix: "wire_status st = st \<longleftrightarrow> Usages st \<noteq> Slice []"
  by (cases st) (auto simp: wire_status_def omitempty_slice_fix)

lemma wire_status_idem [simp]: "wire_status (wire_status st) = wire_status st"
  by (simp add: wire_status_def)

end
