(* ===== verification/SecretRefs.thy ===== *)
theory SecretRefs
  imports UsageApi
begin

text \<open>
  \<open>internal/controller/secret_refs.go\<close>: which Secrets an object names, and through which
  field. The definitions follow the file's functions; loops over slices are folds over the
  enumerated list, and \<open>refs = append(refs, \<dots>)\<close> is a \<open>let\<close> that shadows \<open>refs\<close>. The lemmas
  of this theory read the extractors as concatenations; what they extract is specified and
  proved in \<open>RefSpec\<close>.
\<close>

definition SecretNameIndexField :: string where
  "SecretNameIndexField = ''.metadata.secretusage.secretNames''"

record objectSecretReference =
  SecretName :: string
  FieldPath :: string
  Container :: string
  Key :: string
  Optional :: "bool option"

section \<open>Owned Pods\<close>

definition podControllerKinds :: "string list" where
  "podControllerKinds =
     [''apps/v1|ReplicaSet'', ''apps/v1|StatefulSet'', ''apps/v1|DaemonSet'',
      ''batch/v1|Job'', ''v1|ReplicationController'']"

fun covered_by_owner :: "ownerReference list \<Rightarrow> bool" where
  "covered_by_owner [] = False"
| "covered_by_owner (owner # rest) =
     (if or_Controller owner = None \<or> or_Controller owner = Some False then covered_by_owner rest
      else if or_APIVersion owner @ ''|'' @ or_Kind owner \<in> set podControllerKinds then True
      else covered_by_owner rest)"

definition PodIsCoveredByController :: "objectMeta \<Rightarrow> bool" where
  "PodIsCoveredByController m = covered_by_owner (OwnerReferences m)"

section \<open>Collecting references\<close>

definition appendReference :: "objectSecretReference list \<Rightarrow> objectSecretReference \<Rightarrow> objectSecretReference list" where
  "appendReference refs ref = (if SecretName ref = [] then refs else refs @ [ref])"

fun copyBoolPtr :: "bool option \<Rightarrow> bool option" where
  "copyBoolPtr None = None"
| "copyBoolPtr (Some b) = (let copied = b in Some copied)"

fun boolPtrValue :: "bool option \<Rightarrow> string" where
  "boolPtrValue None = ''<nil>''"
| "boolPtrValue (Some True) = ''true''"
| "boolPtrValue (Some False) = ''false''"

text \<open>
  \<open>"%s\x00%s\x00%s\x00%s\x00%v"\<close>.
\<close>

definition NUL :: char where
  "NUL = CHR 0x00"

definition dedupe_key_of :: "objectSecretReference \<Rightarrow> string" where
  "dedupe_key_of ref =
     SecretName ref @ [NUL] @ FieldPath ref @ [NUL] @ Container ref @ [NUL] @ Key ref @ [NUL] @
     boolPtrValue (Optional ref)"

definition dedupeReferences :: "objectSecretReference list \<Rightarrow> objectSecretReference list" where
  "dedupeReferences refs = (if length refs < 2 then refs else dedup_loop dedupe_key_of [] refs)"

text \<open>Container-level references. \<open>env\<close> and \<open>envFrom\<close> are the container's two lists.\<close>

definition referencesForContainer ::
    "string \<Rightarrow> envVar list \<Rightarrow> envFromSource list \<Rightarrow> string \<Rightarrow> objectSecretReference list" where
  "referencesForContainer containerName envVars envFromSources prefix =
     (let refs = [];
          refs = fold (\<lambda>(i, env) refs.
              case ValueFrom env of
                None \<Rightarrow> refs
              | Some src \<Rightarrow>
                  (case SecretKeyRef src of
                     None \<Rightarrow> refs
                   | Some sel \<Rightarrow> appendReference refs
                       \<lparr>SecretName = sks_Name sel,
                        FieldPath = prefix @ ''.env['' @ itoa i @ ''].valueFrom.secretKeyRef.name'',
                        Container = containerName, Key = sks_Key sel,
                        Optional = copyBoolPtr (sks_Optional sel)\<rparr>))
            (enumerate 0 envVars) refs;
          refs = fold (\<lambda>(i, envFrom) refs.
              case efs_SecretRef envFrom of
                None \<Rightarrow> refs
              | Some src \<Rightarrow> appendReference refs
                  \<lparr>SecretName = ses_Name src,
                   FieldPath = prefix @ ''.envFrom['' @ itoa i @ ''].secretRef.name'',
                   Container = containerName, Key = [],
                   Optional = copyBoolPtr (ses_Optional src)\<rparr>)
            (enumerate 0 envFromSources) refs
      in refs)"

text \<open>The shape shared by the volume drivers: \<open>if volume.X != nil && volume.X.SecretRef != nil\<close>.\<close>

definition append_secretRef ::
    "objectSecretReference list \<Rightarrow> localObjectReference option \<Rightarrow> string \<Rightarrow> objectSecretReference list" where
  "append_secretRef refs ref path =
     (case ref of
        None \<Rightarrow> refs
      | Some r \<Rightarrow> appendReference refs
          \<lparr>SecretName = lor_Name r, FieldPath = path, Container = [], Key = [], Optional = None\<rparr>)"

definition referencesForVolume :: "volume \<Rightarrow> string \<Rightarrow> objectSecretReference list" where
  "referencesForVolume volume volumePath =
     (let refs = [];
          refs = (case vol_Secret volume of
              None \<Rightarrow> refs
            | Some s \<Rightarrow> appendReference refs
                \<lparr>SecretName = svs_SecretName s, FieldPath = volumePath @ ''.secret.secretName'',
                 Container = [], Key = [], Optional = copyBoolPtr (svs_Optional s)\<rparr>);
          refs = (case vol_Projected volume of
              None \<Rightarrow> refs
            | Some p \<Rightarrow> fold (\<lambda>(j, source) refs.
                  case vp_Secret source of
                    None \<Rightarrow> refs
                  | Some s \<Rightarrow> appendReference refs
                      \<lparr>SecretName = sp_Name s,
                       FieldPath = volumePath @ ''.projected.sources['' @ itoa j @ ''].secret.name'',
                       Container = [], Key = [], Optional = copyBoolPtr (sp_Optional s)\<rparr>)
                (enumerate 0 (Sources p)) refs);
          refs = append_secretRef refs (Option.bind (vol_CSI volume) NodePublishSecretRef)
                   (volumePath @ ''.csi.nodePublishSecretRef.name'');
          refs = (case vol_AzureFile volume of
              None \<Rightarrow> refs
            | Some a \<Rightarrow> appendReference refs
                \<lparr>SecretName = af_SecretName a, FieldPath = volumePath @ ''.azureFile.secretName'',
                 Container = [], Key = [], Optional = None\<rparr>);
          refs = append_secretRef refs (Option.bind (vol_CephFS volume) SecretRef)
                   (volumePath @ ''.cephfs.secretRef.name'');
          refs = append_secretRef refs (Option.bind (vol_Cinder volume) SecretRef)
                   (volumePath @ ''.cinder.secretRef.name'');
          refs = append_secretRef refs (Option.bind (vol_FlexVolume volume) SecretRef)
                   (volumePath @ ''.flexVolume.secretRef.name'');
          refs = append_secretRef refs (Option.bind (vol_ISCSI volume) SecretRef)
                   (volumePath @ ''.iscsi.secretRef.name'');
          refs = append_secretRef refs (Option.bind (vol_RBD volume) SecretRef)
                   (volumePath @ ''.rbd.secretRef.name'');
          refs = append_secretRef refs (Option.bind (vol_ScaleIO volume) SecretRef)
                   (volumePath @ ''.scaleIO.secretRef.name'');
          refs = append_secretRef refs (Option.bind (vol_StorageOS volume) SecretRef)
                   (volumePath @ ''.storageos.secretRef.name'')
      in refs)"

definition referencesForPodSpec :: "podSpec \<Rightarrow> string \<Rightarrow> objectSecretReference list" where
  "referencesForPodSpec spec prefix =
     (let refs = [];
          refs = fold (\<lambda>(i, pullSecret) refs. appendReference refs
              \<lparr>SecretName = lor_Name pullSecret,
               FieldPath = prefix @ ''.imagePullSecrets['' @ itoa i @ ''].name'',
               Container = [], Key = [], Optional = None\<rparr>)
            (enumerate 0 (ImagePullSecrets spec)) refs;
          refs = fold (\<lambda>(i, v) refs. refs @ referencesForVolume v (prefix @ ''.volumes['' @ itoa i @ '']''))
            (enumerate 0 (Volumes spec)) refs;
          refs = fold (\<lambda>(i, c) refs. refs @ referencesForContainer (c_Name c) (Env c) (EnvFrom c)
                (prefix @ ''.initContainers['' @ itoa i @ '']''))
            (enumerate 0 (InitContainers spec)) refs;
          refs = fold (\<lambda>(i, c) refs. refs @ referencesForContainer (c_Name c) (Env c) (EnvFrom c)
                (prefix @ ''.containers['' @ itoa i @ '']''))
            (enumerate 0 (Containers spec)) refs;
          refs = fold (\<lambda>(i, c) refs. refs @ referencesForContainer (c_Name c) (Env c) (EnvFrom c)
                (prefix @ ''.ephemeralContainers['' @ itoa i @ '']''))
            (enumerate 0 (EphemeralContainers spec)) refs
      in dedupeReferences refs)"

definition referencesForServiceAccount ::
    "localObjectReference list \<Rightarrow> localObjectReference list \<Rightarrow> objectSecretReference list" where
  "referencesForServiceAccount secrets imagePullSecrets =
     (let refs = [];
          refs = fold (\<lambda>(i, secret) refs. appendReference refs
              \<lparr>SecretName = lor_Name secret, FieldPath = ''.secrets['' @ itoa i @ ''].name'',
               Container = [], Key = [], Optional = None\<rparr>)
            (enumerate 0 secrets) refs;
          refs = fold (\<lambda>(i, secret) refs. appendReference refs
              \<lparr>SecretName = lor_Name secret, FieldPath = ''.imagePullSecrets['' @ itoa i @ ''].name'',
               Container = [], Key = [], Optional = None\<rparr>)
            (enumerate 0 imagePullSecrets) refs
      in dedupeReferences refs)"

definition referencesForIngress :: "ingressTLS list \<Rightarrow> objectSecretReference list" where
  "referencesForIngress tls =
     (let refs = [];
          refs = fold (\<lambda>(i, t) refs. appendReference refs
              \<lparr>SecretName = tls_SecretName t, FieldPath = ''.spec.tls['' @ itoa i @ ''].secretName'',
               Container = [], Key = [], Optional = None\<rparr>)
            (enumerate 0 tls) refs
      in dedupeReferences refs)"

fun referencesForObject :: "clientObject \<Rightarrow> objectSecretReference list" where
  "referencesForObject (Pod _ spec) = referencesForPodSpec spec ''.spec''"
| "referencesForObject (Deployment _ t) = referencesForPodSpec (pts_Spec t) ''.spec.template.spec''"
| "referencesForObject (StatefulSet _ t) = referencesForPodSpec (pts_Spec t) ''.spec.template.spec''"
| "referencesForObject (DaemonSet _ t) = referencesForPodSpec (pts_Spec t) ''.spec.template.spec''"
| "referencesForObject (ReplicaSet _ t) = referencesForPodSpec (pts_Spec t) ''.spec.template.spec''"
| "referencesForObject (Job _ t) = referencesForPodSpec (pts_Spec t) ''.spec.template.spec''"
| "referencesForObject (CronJob _ t) = referencesForPodSpec (pts_Spec t) ''.spec.jobTemplate.spec.template.spec''"
| "referencesForObject (ReplicationController _ None) = []"
| "referencesForObject (ReplicationController _ (Some t)) = referencesForPodSpec (pts_Spec t) ''.spec.template.spec''"
| "referencesForObject (ServiceAccount _ secrets ips) = referencesForServiceAccount secrets ips"
| "referencesForObject (Ingress _ tls) = referencesForIngress tls"
| "referencesForObject (Unstructured _) = []"
| "referencesForObject (OtherObject _ _) = []"

section \<open>The index and the usages\<close>

text \<open>
  \<open>uniqueSortedSecretNames\<close>: the loop skips empty names and names seen before, then
  \<open>sort.Strings\<close>. Its nil result for no references and its empty one are only ranged over.
\<close>

definition uniqueSortedSecretNames :: "objectSecretReference list \<Rightarrow> string list" where
  "uniqueSortedSecretNames refs =
     (if refs = [] then []
      else sort_Slice (<) (dedup_loop (\<lambda>n. n) [] (filter (\<lambda>n. n \<noteq> []) (map SecretName refs))))"

definition SecretNamesForObject :: "clientObject \<Rightarrow> string list" where
  "SecretNamesForObject obj = uniqueSortedSecretNames (referencesForObject obj)"

fun apiVersionKindForObject :: "'jp lib \<Rightarrow> clientObject \<Rightarrow> string \<times> string" where
  "apiVersionKindForObject L (Pod _ _) = (gvString L (corev1_SchemeGroupVersion L), ''Pod'')"
| "apiVersionKindForObject L (ReplicationController _ _) =
     (gvString L (corev1_SchemeGroupVersion L), ''ReplicationController'')"
| "apiVersionKindForObject L (ServiceAccount _ _ _) =
     (gvString L (corev1_SchemeGroupVersion L), ''ServiceAccount'')"
| "apiVersionKindForObject L (Deployment _ _) = (gvString L (appsv1_SchemeGroupVersion L), ''Deployment'')"
| "apiVersionKindForObject L (StatefulSet _ _) = (gvString L (appsv1_SchemeGroupVersion L), ''StatefulSet'')"
| "apiVersionKindForObject L (DaemonSet _ _) = (gvString L (appsv1_SchemeGroupVersion L), ''DaemonSet'')"
| "apiVersionKindForObject L (ReplicaSet _ _) = (gvString L (appsv1_SchemeGroupVersion L), ''ReplicaSet'')"
| "apiVersionKindForObject L (Job _ _) = (gvString L (batchv1_SchemeGroupVersion L), ''Job'')"
| "apiVersionKindForObject L (CronJob _ _) = (gvString L (batchv1_SchemeGroupVersion L), ''CronJob'')"
| "apiVersionKindForObject L (Ingress _ _) = (gvString L (networkingv1_SchemeGroupVersion L), ''Ingress'')"
| "apiVersionKindForObject L (Unstructured u) = (gvString L (GroupVersion (un_GVK u)), Kind (un_GVK u))"
| "apiVersionKindForObject L (OtherObject gvk _) = (gvString L (GroupVersion gvk), Kind gvk)"

definition usage_entry :: "string \<Rightarrow> string \<Rightarrow> clientObject \<Rightarrow> objectSecretReference \<Rightarrow> secretUsageReference" where
  "usage_entry apiVersion kind obj ref =
     \<lparr>u_APIVersion = apiVersion, u_Kind = kind, u_Namespace = GetNamespace obj,
      u_Name = GetName obj, u_UID = GetUID obj, u_FieldPath = FieldPath ref,
      u_Container = Container ref, u_Key = Key ref, u_Optional = Optional ref\<rparr>"

definition usageReferencesForObject :: "'jp lib \<Rightarrow> clientObject \<Rightarrow> string \<Rightarrow> secretUsageReference list" where
  "usageReferencesForObject L obj secretName =
     (let refs = referencesForObject obj in
      if refs = [] then []
      else
        (let (apiVersion, kind) = apiVersionKindForObject L obj in
         fold (\<lambda>ref usages.
             if SecretName ref \<noteq> secretName then usages
             else usages @ [usage_entry apiVersion kind obj ref])
           refs []))"

section \<open>The duplicate key\<close>

text \<open>
  The key joins five strings with NUL bytes, so it tells references apart whose strings
  hold no NUL byte themselves; names, keys and container names of objects the API server
  accepts never do.
\<close>

definition valid_reference :: "objectSecretReference \<Rightarrow> bool" where
  "valid_reference ref \<longleftrightarrow>
     nul_free (SecretName ref) \<and> nul_free (FieldPath ref) \<and> nul_free (Container ref) \<and> nul_free (Key ref)"

lemma boolPtrValue_inject [simp]: "boolPtrValue a = boolPtrValue b \<longleftrightarrow> a = b"
  by (cases a rule: boolPtrValue.cases; cases b rule: boolPtrValue.cases) simp_all

interpretation ref_key: dedup_key dedupe_key_of valid_reference
  by unfold_locales (auto simp: dedupe_key_of_def valid_reference_def NUL_def nul_split
      intro: objectSecretReference.equality)

lemma dedupeReferences_loop: "dedupeReferences refs = dedup_loop dedupe_key_of [] refs"
proof (cases refs)
  case (Cons r rs)
  then show ?thesis by (cases rs) (simp_all add: dedupeReferences_def)
qed (simp add: dedupeReferences_def)

lemma dedupe_Nil [simp]: "dedupeReferences [] = []"
  by (simp add: dedupeReferences_def)

lemma set_dedupe_subset: "set (dedupeReferences refs) \<subseteq> set refs"
  by (simp add: dedupeReferences_loop set_dedup_loop_subset)

lemma distinct_dedupe: "distinct (dedupeReferences refs)"
  using distinct_key_dedup_loop[of dedupe_key_of "[]" refs]
  by (simp add: dedupeReferences_loop distinct_map)

section \<open>The index names exactly the Secrets an object references\<close>

lemma SecretName_dedupe: "SecretName ` set (dedupeReferences refs) \<subseteq> SecretName ` set refs"
  by (rule image_mono[OF set_dedupe_subset])

lemma set_uniqueSortedSecretNames:
  "set (uniqueSortedSecretNames refs) = SecretName ` set refs - {[]}"
proof -
  have "set (dedup_loop (\<lambda>n. n) [] xs) = set xs" for xs :: "string list"
    by (rule id_key.dedup_loop_set) simp
  then show ?thesis by (auto simp: uniqueSortedSecretNames_def)
qed

lemma sorted_uniqueSortedSecretNames: "sorted_wrt (<) (uniqueSortedSecretNames refs)"
proof -
  have "distinct (dedup_loop (\<lambda>n. n) [] xs)" for xs :: "string list"
    using distinct_key_dedup_loop[of "\<lambda>n. n" "[]" xs] by simp
  then show ?thesis
    unfolding uniqueSortedSecretNames_def
    by (auto intro!: linorder_less.strict_if_distinct linorder_less.sorted_sort_Slice)
qed

lemma usageReferencesForObject_conv:
  "usageReferencesForObject L obj n =
     map (case apiVersionKindForObject L obj of (apiVersion, kind) \<Rightarrow> usage_entry apiVersion kind obj)
       (filter (\<lambda>ref. SecretName ref = n) (referencesForObject obj))"
proof -
  have loop: "fold (\<lambda>ref usages. if SecretName ref \<noteq> n then usages else usages @ [f ref]) refs acc =
      acc @ map f (filter (\<lambda>ref. SecretName ref = n) refs)" for f :: "_ \<Rightarrow> secretUsageReference" and refs acc
    by (induction refs arbitrary: acc) auto
  show ?thesis
    unfolding usageReferencesForObject_def Let_def
    by (cases "apiVersionKindForObject L obj") (simp only: prod.case loop append_Nil, auto)
qed

section \<open>The contract between the field index and the collectors\<close>

text \<open>
  A collector asks the cache for the objects whose index entries contain a Secret name, and
  only then looks for the references to it. What it relies on is that the names an indexer
  returns for an object are exactly those the object has usages of. The built-in extractor
  and the rules for custom resources both provide this interface.
\<close>

locale secret_index =
  fixes refs :: "'o \<Rightarrow> objectSecretReference list"
    and names :: "'o \<Rightarrow> string list"
    and usages :: "'o \<Rightarrow> string \<Rightarrow> secretUsageReference list"
  assumes names_refs: "names obj = uniqueSortedSecretNames (refs obj)"
    and refs_named: "ref \<in> set (refs obj) \<Longrightarrow> SecretName ref \<noteq> []"
    and usages_length: "length (usages obj n) = length (filter (\<lambda>ref. SecretName ref = n) (refs obj))"
begin

lemma set_names: "set (names obj) = SecretName ` set (refs obj)"
  using refs_named by (auto simp: names_refs set_uniqueSortedSecretNames)

lemma usages_empty_iff: "usages obj n = [] \<longleftrightarrow> n \<notin> set (names obj)"
proof -
  have "usages obj n = [] \<longleftrightarrow> filter (\<lambda>ref. SecretName ref = n) (refs obj) = []"
    using usages_length[of obj n] by (metis length_0_conv)
  then show ?thesis by (auto simp: set_names filter_empty_conv)
qed

lemma names_iff_usages: "n \<in> set (names obj) \<longleftrightarrow> usages obj n \<noteq> []"
  by (simp add: usages_empty_iff)

lemma names_strictly_sorted: "sorted_wrt (<) (names obj)"
  by (simp add: names_refs sorted_uniqueSortedSecretNames)

lemma names_not_empty: "[] \<notin> set (names obj)"
  by (auto simp: names_refs set_uniqueSortedSecretNames)

text \<open>Looking through the objects the index returns loses nothing.\<close>

lemma indexed_usages:
  "concat (map (\<lambda>obj. usages obj n) (filter (\<lambda>obj. n \<in> set (names obj)) objs)) =
     concat (map (\<lambda>obj. usages obj n) objs)"
  by (induction objs) (auto simp: usages_empty_iff[symmetric])

end

end
