(* ===== verification/FieldPaths.thy ===== *)
theory FieldPaths
  imports KubeTypes
begin

text \<open>
  The field paths of status entries, as a specification: a path is a list of steps, a field
  name or an index, with its textual form \<open>.spec.containers[0].env[2]\<close>. \<open>parse_path\<close> reads
  the text back, so a recorded path names exactly one place of an object, and \<open>json_get\<close>
  looks that place up in the object's JSON form. Nothing here is code of the program; the
  extractors are related to it in \<open>RefSpec\<close>.
\<close>

datatype pathStep = Fld string | Idx nat

type_synonym path = "pathStep list"

fun render_step :: "pathStep \<Rightarrow> string" where
  "render_step (Fld f) = ''.'' @ f"
| "render_step (Idx i) = ''['' @ itoa i @ '']''"

definition render_path :: "path \<Rightarrow> string" where
  "render_path p = concat (map render_step p)"

lemma render_path_Nil [simp]: "render_path [] = []"
  by (simp add: render_path_def)

lemma render_path_Cons [simp]: "render_path (s # p) = render_step s @ render_path p"
  by (simp add: render_path_def)

lemma render_path_append [simp]: "render_path (p @ q) = render_path p @ render_path q"
  by (simp add: render_path_def)

section \<open>Reading a path back\<close>

definition ident_char :: "char \<Rightarrow> bool" where
  "ident_char c \<longleftrightarrow> c \<noteq> CHR ''.'' \<and> c \<noteq> CHR ''['' \<and> c \<noteq> CHR '']''"

fun wf_step :: "pathStep \<Rightarrow> bool" where
  "wf_step (Fld f) = (f \<noteq> [] \<and> list_all ident_char f)"
| "wf_step (Idx i) = True"

function parse_path :: "string \<Rightarrow> path option" where
  "parse_path [] = Some []"
| "parse_path (c # s) =
     (if c = CHR ''.'' then
        (let f = takeWhile ident_char s; rest = dropWhile ident_char s in
         if f = [] then None else map_option ((#) (Fld f)) (parse_path rest))
      else if c = CHR ''['' then
        (let d = takeWhile is_digit s; rest = dropWhile is_digit s in
         case rest of
           [] \<Rightarrow> None
         | b # rest' \<Rightarrow> if d \<noteq> [] \<and> b = CHR '']'' then map_option ((#) (Idx (decimal d))) (parse_path rest')
                       else None)
      else None)"
  by pat_completeness auto
termination
proof (relation "measure length")
  fix c :: char and s f rest
  assume "rest = dropWhile ident_char s"
  then show "(rest, c # s) \<in> measure length"
    using length_dropWhile_le[of ident_char s] by simp
next
  fix c :: char and s d rest b rest'
  assume "rest = dropWhile is_digit s" and "rest = b # rest'"
  then show "(rest', c # s) \<in> measure length"
    using length_dropWhile_le[of is_digit s] by (cases "dropWhile is_digit s") auto
qed simp

lemma takeWhile_until: "list_all P xs \<Longrightarrow> ys = [] \<or> \<not> P (hd ys) \<Longrightarrow> takeWhile P (xs @ ys) = xs"
  by (induction xs) (auto intro: takeWhile_eq_Nil_iff[THEN iffD2])

lemma dropWhile_until: "list_all P xs \<Longrightarrow> ys = [] \<or> \<not> P (hd ys) \<Longrightarrow> dropWhile P (xs @ ys) = ys"
  by (induction xs) (cases ys; auto)+

lemma render_path_start:
  "render_path p = [] \<or> \<not> ident_char (hd (render_path p))"
  by (cases p; simp; cases "hd p") (auto simp: ident_char_def)

lemma itoa_list_all: "list_all is_digit (itoa n)"
  by (simp add: list_all_iff itoa_digits)

lemma not_digit_bracket: "\<not> is_digit CHR '']''"
  by (simp add: is_digit_def)

lemma parse_render: "list_all wf_step p \<Longrightarrow> parse_path (render_path p) = Some p"
proof (induction p)
  case Nil
  then show ?case by simp
next
  case (Cons s p)
  show ?case
  proof (cases s)
    case (Fld f)
    with Cons.prems have f: "f \<noteq> []" "list_all ident_char f" by auto
    then show ?thesis
      using Fld Cons takeWhile_until[OF f(2) render_path_start] dropWhile_until[OF f(2) render_path_start]
      by simp
  next
    case (Idx i)
    have "takeWhile is_digit (itoa i @ CHR '']'' # render_path p) = itoa i"
      and "dropWhile is_digit (itoa i @ CHR '']'' # render_path p) = CHR '']'' # render_path p"
      by (rule takeWhile_until dropWhile_until; simp add: itoa_list_all not_digit_bracket)+
    with Idx Cons show ?thesis by (simp add: decimal_itoa)
  qed
qed

lemma render_path_inject:
  "list_all wf_step p \<Longrightarrow> list_all wf_step q \<Longrightarrow> render_path p = render_path q \<longleftrightarrow> p = q"
  by (metis option.inject parse_render)

section \<open>Looking a path up\<close>

fun json_get :: "json \<Rightarrow> path \<Rightarrow> json option" where
  "json_get j [] = Some j"
| "json_get (JObj kvs) (Fld f # p) = (case map_of kvs f of None \<Rightarrow> None | Some j \<Rightarrow> json_get j p)"
| "json_get (JArr xs) (Idx i # p) = (if i < length xs then json_get (xs ! i) p else None)"
| "json_get _ _ = None"

lemma json_get_append:
  "json_get j (p @ q) = (case json_get j p of None \<Rightarrow> None | Some j' \<Rightarrow> json_get j' q)"
  by (induction j p rule: json_get.induct) (auto split: option.splits)

definition str_at :: "json \<Rightarrow> path \<Rightarrow> string" where
  "str_at j p = (case json_get j p of Some (JStr s) \<Rightarrow> s | _ \<Rightarrow> [])"

definition bool_at :: "json \<Rightarrow> path \<Rightarrow> bool option" where
  "bool_at j p = (case json_get j p of Some (JBool b) \<Rightarrow> Some b | _ \<Rightarrow> None)"

lemma str_at_append: "json_get j q = Some j' \<Longrightarrow> str_at j (q @ p) = str_at j' p"
  by (simp add: str_at_def json_get_append)

lemma bool_at_append: "json_get j q = Some j' \<Longrightarrow> bool_at j (q @ p) = bool_at j' p"
  by (simp add: bool_at_def json_get_append)

text \<open>The field beside the one a path ends in.\<close>

definition sibling :: "path \<Rightarrow> string \<Rightarrow> path" where
  "sibling p f = butlast p @ [Fld f]"

lemma sibling_append: "p \<noteq> [] \<Longrightarrow> sibling (q @ p) f = q @ sibling p f"
  by (simp add: sibling_def butlast_append)

section \<open>Objects whose strings hold no NUL byte\<close>

fun json_nul_free :: "json \<Rightarrow> bool" where
  "json_nul_free (JStr s) = nul_free s"
| "json_nul_free (JArr xs) = list_all json_nul_free xs"
| "json_nul_free (JObj kvs) = list_all (\<lambda>(k, j). json_nul_free j) kvs"
| "json_nul_free _ = True"

lemma json_nul_free_get: "json_nul_free j \<Longrightarrow> json_get j p = Some j' \<Longrightarrow> json_nul_free j'"
  by (induction j p rule: json_get.induct)
    (auto simp: list_all_iff split: option.splits if_splits dest!: map_of_SomeD)

lemma nul_free_str_at: "json_nul_free j \<Longrightarrow> nul_free (str_at j p)"
  by (auto simp: str_at_def split: option.splits json.splits dest: json_nul_free_get)

fun nul_free_step :: "pathStep \<Rightarrow> bool" where
  "nul_free_step (Fld f) = nul_free f"
| "nul_free_step (Idx i) = True"

lemma nul_free_render: "list_all nul_free_step p \<Longrightarrow> nul_free (render_path p)"
proof (induction p)
  case (Cons s p)
  then show ?case by (cases s) (auto simp: nul_free_Cons)
qed simp

end
