(* ===== verification/RefSpec.thy ===== *)
theory RefSpec
  imports SecretRefs FieldPaths
begin

text \<open>
  What the extractors of \<open>SecretRefs\<close> are meant to find, and that they find exactly that.

  The specification has two parts: the JSON form of an object, restricted to the fields
  that matter (\<open>json_of_object\<close>, with the field names of the Kubernetes API), and the table
  of fields that name a Secret (\<open>secretField\<close>, the table of the README), as path patterns.
  A reference is expected for every path of the table at which the object holds a string
  that is not empty, with the container, key and optional flag found beside it.

  The extractors are related to it in two steps: they list \<open>slots\<close> (relative path, name,
  container, key, optional) in the order of the code, and the slots of every struct are
  the ones of the specification.
\<close>

section \<open>JSON form of the structs\<close>

definition opt_field :: "string \<Rightarrow> ('a \<Rightarrow> json) \<Rightarrow> 'a option \<Rightarrow> (string \<times> json) list" where
  "opt_field k f x = (case x of None \<Rightarrow> [] | Some y \<Rightarrow> [(k, f y)])"

lemma map_of_opt_field [simp]:
  "map_of (opt_field k f x @ kvs) k' =
     (if k' = k \<and> x \<noteq> None then Some (f (the x)) else map_of kvs k')"
  "map_of (opt_field k f x) k' = (if k' = k \<and> x \<noteq> None then Some (f (the x)) else None)"
  by (cases x; simp add: opt_field_def)+

definition json_localRef :: "localObjectReference \<Rightarrow> json" where
  "json_localRef r = JObj [(''name'', JStr (lor_Name r))]"

definition json_secretVolume :: "secretVolumeSource \<Rightarrow> json" where
  "json_secretVolume s =
     JObj ((''secretName'', JStr (svs_SecretName s)) # opt_field ''optional'' JBool (svs_Optional s))"

definition json_secretProjection :: "secretProjection \<Rightarrow> json" where
  "json_secretProjection s =
     JObj ((''name'', JStr (sp_Name s)) # opt_field ''optional'' JBool (sp_Optional s))"

definition json_projected :: "projectedVolumeSource \<Rightarrow> json" where
  "json_projected p = JObj [(''sources'',
     JArr (map (\<lambda>s. JObj (opt_field ''secret'' json_secretProjection (vp_Secret s))) (Sources p)))]"

definition json_csi :: "csiVolumeSource \<Rightarrow> json" where
  "json_csi c = JObj (opt_field ''nodePublishSecretRef'' json_localRef (NodePublishSecretRef c))"

definition json_azureFile :: "azureFileVolumeSource \<Rightarrow> json" where
  "json_azureFile a = JObj [(''secretName'', JStr (af_SecretName a))]"

definition json_driver :: "secretRefVolumeSource \<Rightarrow> json" where
  "json_driver d = JObj (opt_field ''secretRef'' json_localRef (SecretRef d))"

definition json_volume :: "volume \<Rightarrow> json" where
  "json_volume v = JObj
     (opt_field ''secret'' json_secretVolume (vol_Secret v) @
      opt_field ''projected'' json_projected (vol_Projected v) @
      opt_field ''csi'' json_csi (vol_CSI v) @
      opt_field ''azureFile'' json_azureFile (vol_AzureFile v) @
      opt_field ''cephfs'' json_driver (vol_CephFS v) @
      opt_field ''cinder'' json_driver (vol_Cinder v) @
      opt_field ''flexVolume'' json_driver (vol_FlexVolume v) @
      opt_field ''iscsi'' json_driver (vol_ISCSI v) @
      opt_field ''rbd'' json_driver (vol_RBD v) @
      opt_field ''scaleIO'' json_driver (vol_ScaleIO v) @
      opt_field ''storageos'' json_driver (vol_StorageOS v))"

definition json_keySelector :: "secretKeySelector \<Rightarrow> json" where
  "json_keySelector s = JObj ((''name'', JStr (sks_Name s)) # (''key'', JStr (sks_Key s)) #
     opt_field ''optional'' JBool (sks_Optional s))"

definition json_env :: "envVar \<Rightarrow> json" where
  "json_env e = JObj (opt_field ''valueFrom''
     (\<lambda>src. JObj (opt_field ''secretKeyRef'' json_keySelector (SecretKeyRef src))) (ValueFrom e))"

definition json_secretEnv :: "secretEnvSource \<Rightarrow> json" where
  "json_secretEnv s =
     JObj ((''name'', JStr (ses_Name s)) # opt_field ''optional'' JBool (ses_Optional s))"

definition json_envFrom :: "envFromSource \<Rightarrow> json" where
  "json_envFrom e = JObj (opt_field ''secretRef'' json_secretEnv (efs_SecretRef e))"

definition json_container :: "container \<Rightarrow> json" where
  "json_container c = JObj [(''name'', JStr (c_Name c)), (''env'', JArr (map json_env (Env c))),
     (''envFrom'', JArr (map json_envFrom (EnvFrom c)))]"

definition json_podSpec :: "podSpec \<Rightarrow> json" where
  "json_podSpec s = JObj
     [(''imagePullSecrets'', JArr (map json_localRef (ImagePullSecrets s))),
      (''volumes'', JArr (map json_volume (Volumes s))),
      (''initContainers'', JArr (map json_container (InitContainers s))),
      (''containers'', JArr (map json_container (Containers s))),
      (''ephemeralContainers'', JArr (map json_container (EphemeralContainers s)))]"

text \<open>A nest of single-field objects.\<close>

fun json_nest :: "string list \<Rightarrow> json \<Rightarrow> json" where
  "json_nest [] j = j"
| "json_nest (f # fs) j = JObj [(f, json_nest fs j)]"

lemma json_get_nest [simp]: "json_get (json_nest fs j) (map Fld fs @ p) = json_get j p"
  by (induction fs) auto

section \<open>The fields that name a Secret\<close>

text \<open>
  Paths relative to the struct. The second component of \<open>podSecretField\<close> is the path of the
  container a reference belongs to, for the references a container makes.
\<close>

inductive volumeSecretField :: "path \<Rightarrow> bool" where
  "volumeSecretField [Fld ''secret'', Fld ''secretName'']"
| "volumeSecretField [Fld ''projected'', Fld ''sources'', Idx j, Fld ''secret'', Fld ''name'']"
| "volumeSecretField [Fld ''csi'', Fld ''nodePublishSecretRef'', Fld ''name'']"
| "volumeSecretField [Fld ''azureFile'', Fld ''secretName'']"
| "driver \<in> set [''cephfs'', ''cinder'', ''flexVolume'', ''iscsi'', ''rbd'', ''scaleIO'', ''storageos''] \<Longrightarrow>
     volumeSecretField [Fld driver, Fld ''secretRef'', Fld ''name'']"

inductive containerSecretField :: "path \<Rightarrow> bool" where
  "containerSecretField [Fld ''env'', Idx i, Fld ''valueFrom'', Fld ''secretKeyRef'', Fld ''name'']"
| "containerSecretField [Fld ''envFrom'', Idx i, Fld ''secretRef'', Fld ''name'']"

inductive podSecretField :: "path \<Rightarrow> path option \<Rightarrow> bool" where
  "podSecretField [Fld ''imagePullSecrets'', Idx i, Fld ''name''] None"
| "volumeSecretField p \<Longrightarrow> podSecretField (Fld ''volumes'' # Idx i # p) None"
| "containerSecretField p \<Longrightarrow> grp \<in> set [''initContainers'', ''containers'', ''ephemeralContainers''] \<Longrightarrow>
     podSecretField (Fld grp # Idx i # p) (Some [Fld grp, Idx i])"

inductive_cases volumeFieldE: "volumeSecretField p"
inductive_cases containerFieldE: "containerSecretField p"
inductive_cases podFieldE: "podSecretField p c"

text \<open>Where each kind keeps its pod spec, from the object's root.\<close>

fun podSpec_at :: "clientObject \<Rightarrow> (string list \<times> podSpec) option" where
  "podSpec_at (Pod _ s) = Some ([''spec''], s)"
| "podSpec_at (Deployment _ t) = Some ([''spec'', ''template'', ''spec''], pts_Spec t)"
| "podSpec_at (StatefulSet _ t) = Some ([''spec'', ''template'', ''spec''], pts_Spec t)"
| "podSpec_at (DaemonSet _ t) = Some ([''spec'', ''template'', ''spec''], pts_Spec t)"
| "podSpec_at (ReplicaSet _ t) = Some ([''spec'', ''template'', ''spec''], pts_Spec t)"
| "podSpec_at (Job _ t) = Some ([''spec'', ''template'', ''spec''], pts_Spec t)"
| "podSpec_at (CronJob _ t) =
     Some ([''spec'', ''jobTemplate'', ''spec'', ''template'', ''spec''], pts_Spec t)"
| "podSpec_at (ReplicationController _ (Some t)) = Some ([''spec'', ''template'', ''spec''], pts_Spec t)"
| "podSpec_at _ = None"

fun json_of_object :: "clientObject \<Rightarrow> json" where
  "json_of_object (ServiceAccount _ secrets ips) =
     JObj [(''secrets'', JArr (map json_localRef secrets)),
           (''imagePullSecrets'', JArr (map json_localRef ips))]"
| "json_of_object (Ingress _ tls) = json_nest [''spec'']
     (JObj [(''tls'', JArr (map (\<lambda>t. JObj [(''secretName'', JStr (tls_SecretName t))]) tls))])"
| "json_of_object (Unstructured u) = un_Object u"
| "json_of_object obj =
     (case podSpec_at obj of None \<Rightarrow> JObj [] | Some (fs, s) \<Rightarrow> json_nest fs (json_podSpec s))"

inductive secretField :: "clientObject \<Rightarrow> path \<Rightarrow> path option \<Rightarrow> bool" where
  pod_spec: "podSpec_at obj = Some (fs, s) \<Longrightarrow> podSecretField p c \<Longrightarrow>
     secretField obj (map Fld fs @ p) (map_option ((@) (map Fld fs)) c)"
| account: "f \<in> set [''secrets'', ''imagePullSecrets''] \<Longrightarrow>
     secretField (ServiceAccount m secrets ips) [Fld f, Idx i, Fld ''name''] None"
| ingress: "secretField (Ingress m tls) [Fld ''spec'', Fld ''tls'', Idx i, Fld ''secretName''] None"

inductive_cases secretFieldE: "secretField obj p c"

text \<open>The reference a field stands for, read off the object's JSON form.\<close>

definition field_reference :: "json \<Rightarrow> path \<Rightarrow> path option \<Rightarrow> string \<Rightarrow> objectSecretReference" where
  "field_reference j p c n =
     \<lparr>SecretName = n, FieldPath = render_path p,
      Container = (case c of None \<Rightarrow> [] | Some q \<Rightarrow> str_at j (q @ [Fld ''name''])),
      Key = str_at j (sibling p ''key''), Optional = bool_at j (sibling p ''optional'')\<rparr>"

definition expected_references :: "clientObject \<Rightarrow> objectSecretReference set" where
  "expected_references obj =
     {field_reference (json_of_object obj) p c n | p c n.
        secretField obj p c \<and> json_get (json_of_object obj) p = Some (JStr n) \<and> n \<noteq> []}"

section \<open>Slots: the extractors as lists\<close>

text \<open>A slot: relative path, name found there, container, key, optional.\<close>

type_synonym slot = "path \<times> string \<times> string \<times> string \<times> bool option"

fun slot_reference :: "slot \<Rightarrow> objectSecretReference" where
  "slot_reference (p, n, c, k, ob) =
     \<lparr>SecretName = n, FieldPath = render_path p, Container = c, Key = k, Optional = ob\<rparr>"

definition under :: "path \<Rightarrow> slot \<Rightarrow> slot" where
  "under q s = (q @ fst s, snd s)"

definition at_index :: "string \<Rightarrow> nat \<Rightarrow> slot \<Rightarrow> slot" where
  "at_index f i = under [Fld f, Idx i]"

definition each :: "string \<Rightarrow> ('a \<Rightarrow> slot list) \<Rightarrow> 'a list \<Rightarrow> slot list" where
  "each f slots xs = concat (map (\<lambda>(i, x). map (at_index f i) (slots x)) (enumerate 0 xs))"

definition present :: "slot list \<Rightarrow> objectSecretReference list" where
  "present ss = map slot_reference (filter (\<lambda>s. fst (snd s) \<noteq> []) ss)"

lemma present_append: "present (xs @ ys) = present xs @ present ys"
  by (simp add: present_def)

lemma present_Nil: "present [] = []"
  by (simp add: present_def)

lemma under_under: "under p (under q s) = under (p @ q) s"
  by (simp add: under_def)

definition localRef_slots :: "localObjectReference \<Rightarrow> slot list" where
  "localRef_slots r = [([Fld ''name''], lor_Name r, [], [], None)]"

definition driver_slots :: "string \<Rightarrow> string \<Rightarrow> localObjectReference option \<Rightarrow> slot list" where
  "driver_slots d f r =
     (case r of None \<Rightarrow> [] | Some r' \<Rightarrow> [([Fld d, Fld f, Fld ''name''], lor_Name r', [], [], None)])"

definition secretVolume_slots :: "secretVolumeSource option \<Rightarrow> slot list" where
  "secretVolume_slots v = (case v of None \<Rightarrow> [] | Some s \<Rightarrow>
     [([Fld ''secret'', Fld ''secretName''], svs_SecretName s, [], [], svs_Optional s)])"

definition projection_slots :: "volumeProjection \<Rightarrow> slot list" where
  "projection_slots p = (case vp_Secret p of None \<Rightarrow> [] | Some s \<Rightarrow>
     [([Fld ''secret'', Fld ''name''], sp_Name s, [], [], sp_Optional s)])"

definition projected_slots :: "projectedVolumeSource option \<Rightarrow> slot list" where
  "projected_slots v = (case v of None \<Rightarrow> [] | Some p \<Rightarrow>
     map (under [Fld ''projected'']) (each ''sources'' projection_slots (Sources p)))"

definition azureFile_slots :: "azureFileVolumeSource option \<Rightarrow> slot list" where
  "azureFile_slots v = (case v of None \<Rightarrow> [] | Some a \<Rightarrow>
     [([Fld ''azureFile'', Fld ''secretName''], af_SecretName a, [], [], None)])"

definition volume_slots :: "volume \<Rightarrow> slot list" where
  "volume_slots v =
     secretVolume_slots (vol_Secret v) @ projected_slots (vol_Projected v) @
     driver_slots ''csi'' ''nodePublishSecretRef'' (Option.bind (vol_CSI v) NodePublishSecretRef) @
     azureFile_slots (vol_AzureFile v) @
     driver_slots ''cephfs'' ''secretRef'' (Option.bind (vol_CephFS v) SecretRef) @
     driver_slots ''cinder'' ''secretRef'' (Option.bind (vol_Cinder v) SecretRef) @
     driver_slots ''flexVolume'' ''secretRef'' (Option.bind (vol_FlexVolume v) SecretRef) @
     driver_slots ''iscsi'' ''secretRef'' (Option.bind (vol_ISCSI v) SecretRef) @
     driver_slots ''rbd'' ''secretRef'' (Option.bind (vol_RBD v) SecretRef) @
     driver_slots ''scaleIO'' ''secretRef'' (Option.bind (vol_ScaleIO v) SecretRef) @
     driver_slots ''storageos'' ''secretRef'' (Option.bind (vol_StorageOS v) SecretRef)"

definition env_slots :: "string \<Rightarrow> envVar \<Rightarrow> slot list" where
  "env_slots c e = (case Option.bind (ValueFrom e) SecretKeyRef of None \<Rightarrow> [] | Some s \<Rightarrow>
     [([Fld ''valueFrom'', Fld ''secretKeyRef'', Fld ''name''], sks_Name s, c, sks_Key s, sks_Optional s)])"

definition envFrom_slots :: "string \<Rightarrow> envFromSource \<Rightarrow> slot list" where
  "envFrom_slots c e = (case efs_SecretRef e of None \<Rightarrow> [] | Some s \<Rightarrow>
     [([Fld ''secretRef'', Fld ''name''], ses_Name s, c, [], ses_Optional s)])"

definition container_slots :: "container \<Rightarrow> slot list" where
  "container_slots c =
     each ''env'' (env_slots (c_Name c)) (Env c) @ each ''envFrom'' (envFrom_slots (c_Name c)) (EnvFrom c)"

definition podSpec_slots :: "podSpec \<Rightarrow> slot list" where
  "podSpec_slots s =
     each ''imagePullSecrets'' localRef_slots (ImagePullSecrets s) @
     each ''volumes'' volume_slots (Volumes s) @
     each ''initContainers'' container_slots (InitContainers s) @
     each ''containers'' container_slots (Containers s) @
     each ''ephemeralContainers'' container_slots (EphemeralContainers s)"

fun object_slots :: "clientObject \<Rightarrow> slot list" where
  "object_slots (ServiceAccount _ secrets ips) =
     each ''secrets'' localRef_slots secrets @ each ''imagePullSecrets'' localRef_slots ips"
| "object_slots (Ingress _ tls) =
     map (under [Fld ''spec'']) (each ''tls'' (\<lambda>t. [([Fld ''secretName''], tls_SecretName t, [], [], None)]) tls)"
| "object_slots obj =
     (case podSpec_at obj of None \<Rightarrow> [] | Some (fs, s) \<Rightarrow> map (under (map Fld fs)) (podSpec_slots s))"

section \<open>The code lists the slots\<close>

lemma fold_append_fun:
  assumes "\<And>i x r. F i x r = r @ G i x"
  shows "fold (\<lambda>(i, x). F i x) xs acc = acc @ concat (map (\<lambda>(i, x). G i x) xs)"
proof (induction xs arbitrary: acc)
  case (Cons y ys)
  then show ?case by (cases y) (simp add: assms)
qed simp

lemma appendReference_conv [ref_simps]:
  "appendReference refs r = refs @ (if SecretName r = [] then [] else [r])"
  by (simp add: appendReference_def)

lemma copyBoolPtr_id [simp]: "copyBoolPtr b = b"
  by (cases b) auto

lemma append_secretRef_conv:
  "append_secretRef refs r (render_path q @ ''.'' @ d @ ''.'' @ f @ ''.name'') =
     refs @ present (map (under q) (driver_slots d f r))"
  by (cases r) (simp_all add: append_secretRef_def ref_simps driver_slots_def present_def under_def)

lemma present_each:
  "present (map (under q) (each f slots xs)) =
     concat (map (\<lambda>(i, x). present (map (under (q @ [Fld f, Idx i])) (slots x))) (enumerate 0 xs))"
  unfolding each_def
  by (induction xs arbitrary: q rule: rev_induct)
    (simp_all add: present_Nil present_append enumerate_append_eq at_index_def under_under comp_def)

lemma referencesForContainer_slots:
  "referencesForContainer (c_Name c) (Env c) (EnvFrom c) (render_path q) =
     present (map (under q) (container_slots c))"
proof -
  have e: "(case ValueFrom env of None \<Rightarrow> refs | Some src \<Rightarrow>
        (case SecretKeyRef src of None \<Rightarrow> refs | Some sel \<Rightarrow> appendReference refs
           \<lparr>SecretName = sks_Name sel,
            FieldPath = render_path q @ ''.env['' @ itoa i @ ''].valueFrom.secretKeyRef.name'',
            Container = c_Name c, Key = sks_Key sel, Optional = copyBoolPtr (sks_Optional sel)\<rparr>)) =
      refs @ present (map (under (q @ [Fld ''env'', Idx i])) (env_slots (c_Name c) env))" for env refs i
    by (simp add: env_slots_def ref_simps present_def under_def split: option.split)
  have f: "(case efs_SecretRef ef of None \<Rightarrow> refs | Some src \<Rightarrow> appendReference refs
           \<lparr>SecretName = ses_Name src,
            FieldPath = render_path q @ ''.envFrom['' @ itoa i @ ''].secretRef.name'',
            Container = c_Name c, Key = [], Optional = copyBoolPtr (ses_Optional src)\<rparr>) =
      refs @ present (map (under (q @ [Fld ''envFrom'', Idx i])) (envFrom_slots (c_Name c) ef))" for ef refs i
    by (simp add: envFrom_slots_def ref_simps present_def under_def split: option.split)
  show ?thesis
    unfolding referencesForContainer_def Let_def container_slots_def map_append present_append present_each
    by (simp only: e f fold_append_concat_pair append_Nil)
qed

lemma referencesForVolume_slots:
  "referencesForVolume v (render_path q) = present (map (under q) (volume_slots v))"
proof -
  have secret: "(case vol_Secret v of None \<Rightarrow> [] | Some s \<Rightarrow> appendReference []
        \<lparr>SecretName = svs_SecretName s, FieldPath = render_path q @ ''.secret.secretName'',
         Container = [], Key = [], Optional = copyBoolPtr (svs_Optional s)\<rparr>) =
      present (map (under q) (secretVolume_slots (vol_Secret v)))"
    by (simp add: secretVolume_slots_def ref_simps present_def under_def split: option.split)
  have source: "(case vp_Secret source of None \<Rightarrow> refs | Some s \<Rightarrow> appendReference refs
        \<lparr>SecretName = sp_Name s,
         FieldPath = render_path q @ ''.projected.sources['' @ itoa j @ ''].secret.name'',
         Container = [], Key = [], Optional = copyBoolPtr (sp_Optional s)\<rparr>) =
      refs @ present (map (under ((q @ [Fld ''projected'']) @ [Fld ''sources'', Idx j])) (projection_slots source))"
    for source refs j
    by (simp add: projection_slots_def ref_simps present_def under_def split: option.split)
  have projected: "(case vol_Projected v of None \<Rightarrow> refs | Some p \<Rightarrow> fold (\<lambda>(j, source) refs.
        case vp_Secret source of None \<Rightarrow> refs | Some s \<Rightarrow> appendReference refs
          \<lparr>SecretName = sp_Name s,
           FieldPath = render_path q @ ''.projected.sources['' @ itoa j @ ''].secret.name'',
           Container = [], Key = [], Optional = copyBoolPtr (sp_Optional s)\<rparr>)
        (enumerate 0 (Sources p)) refs) =
      refs @ present (map (under q) (projected_slots (vol_Projected v)))" for refs
    by (cases "vol_Projected v")
      (simp_all only: source fold_append_concat_pair projected_slots_def option.case present_Nil
         list.map append_Nil2 map_map comp_def under_under present_each)
  have azure: "(case vol_AzureFile v of None \<Rightarrow> refs | Some a \<Rightarrow> appendReference refs
        \<lparr>SecretName = af_SecretName a, FieldPath = render_path q @ ''.azureFile.secretName'',
         Container = [], Key = [], Optional = None\<rparr>) =
      refs @ present (map (under q) (azureFile_slots (vol_AzureFile v)))" for refs
    by (simp add: azureFile_slots_def ref_simps present_def under_def split: option.split)
  note drivers = append_secretRef_conv[of _ _ _ "''csi''" "''nodePublishSecretRef''", simplified]
    append_secretRef_conv[of _ _ _ "''cephfs''" "''secretRef''", simplified]
    append_secretRef_conv[of _ _ _ "''cinder''" "''secretRef''", simplified]
    append_secretRef_conv[of _ _ _ "''flexVolume''" "''secretRef''", simplified]
    append_secretRef_conv[of _ _ _ "''iscsi''" "''secretRef''", simplified]
    append_secretRef_conv[of _ _ _ "''rbd''" "''secretRef''", simplified]
    append_secretRef_conv[of _ _ _ "''scaleIO''" "''secretRef''", simplified]
    append_secretRef_conv[of _ _ _ "''storageos''" "''secretRef''", simplified]
  show ?thesis
    unfolding referencesForVolume_def Let_def volume_slots_def map_append present_append
    by (simp only: secret projected azure drivers append_assoc)
qed

lemma referencesForPodSpec_slots:
  "referencesForPodSpec s (render_path q) = dedupeReferences (present (map (under q) (podSpec_slots s)))"
proof -
  have pull: "appendReference refs \<lparr>SecretName = lor_Name r,
       FieldPath = render_path q @ ''.imagePullSecrets['' @ itoa i @ ''].name'',
       Container = [], Key = [], Optional = None\<rparr> =
     refs @ present (map (under (q @ [Fld ''imagePullSecrets'', Idx i])) (localRef_slots r))" for refs r i
    by (simp add: localRef_slots_def ref_simps present_def under_def)
  have vols: "render_path q @ ''.volumes['' @ itoa i @ '']'' = render_path (q @ [Fld ''volumes'', Idx i])"
    and inits: "render_path q @ ''.initContainers['' @ itoa i @ '']'' = render_path (q @ [Fld ''initContainers'', Idx i])"
    and ctrs: "render_path q @ ''.containers['' @ itoa i @ '']'' = render_path (q @ [Fld ''containers'', Idx i])"
    and ephs: "render_path q @ ''.ephemeralContainers['' @ itoa i @ '']'' =
      render_path (q @ [Fld ''ephemeralContainers'', Idx i])" for i
    by simp_all
  show ?thesis
    unfolding referencesForPodSpec_def Let_def podSpec_slots_def map_append present_append present_each
    by (simp only: pull vols inits ctrs ephs referencesForContainer_slots referencesForVolume_slots
          fold_append_concat_pair append_Nil append_assoc)
qed

lemma referencesForServiceAccount_slots:
  "referencesForServiceAccount secrets ips =
     dedupeReferences (present (each ''secrets'' localRef_slots secrets @ each ''imagePullSecrets'' localRef_slots ips))"
proof -
  have secret: "appendReference refs \<lparr>SecretName = lor_Name r,
       FieldPath = ''.secrets['' @ itoa i @ ''].name'', Container = [], Key = [], Optional = None\<rparr> =
     refs @ present (map (under ([] @ [Fld ''secrets'', Idx i])) (localRef_slots r))"
    and pull: "appendReference refs \<lparr>SecretName = lor_Name r,
       FieldPath = ''.imagePullSecrets['' @ itoa i @ ''].name'', Container = [], Key = [], Optional = None\<rparr> =
     refs @ present (map (under ([] @ [Fld ''imagePullSecrets'', Idx i])) (localRef_slots r))" for refs r i
    by (simp_all add: localRef_slots_def ref_simps present_def under_def)
  have id: "map (under []) ss = ss" for ss by (induction ss) (auto simp: under_def)
  show ?thesis
    unfolding referencesForServiceAccount_def Let_def present_append
    by (simp only: secret pull fold_append_concat_pair append_Nil
          present_each[of "[]", unfolded id append_Nil])
qed

lemma referencesForIngress_slots:
  "referencesForIngress tls = dedupeReferences (present (object_slots (Ingress m tls)))"
proof -
  have t: "appendReference refs \<lparr>SecretName = tls_SecretName t,
       FieldPath = ''.spec.tls['' @ itoa i @ ''].secretName'', Container = [], Key = [], Optional = None\<rparr> =
     refs @ present (map (under ([Fld ''spec''] @ [Fld ''tls'', Idx i]))
       [([Fld ''secretName''], tls_SecretName t, [], [], None)])" for refs t i
    by (simp add: ref_simps present_def under_def)
  show ?thesis
    unfolding referencesForIngress_def Let_def object_slots.simps present_each
    by (simp only: t fold_append_concat_pair append_Nil)
qed

lemma referencesForObject_slots: "referencesForObject obj = dedupeReferences (present (object_slots obj))"
proof -
  have spec: "referencesForPodSpec s ''.spec'' =
      dedupeReferences (present (map (under (map Fld [''spec''])) (podSpec_slots s)))" for s
    using referencesForPodSpec_slots[of s "map Fld [''spec'']"] by simp
  have template: "referencesForPodSpec s ''.spec.template.spec'' =
      dedupeReferences (present (map (under (map Fld [''spec'', ''template'', ''spec''])) (podSpec_slots s)))" for s
    using referencesForPodSpec_slots[of s "map Fld [''spec'', ''template'', ''spec'']"] by simp
  have jobTemplate: "referencesForPodSpec s ''.spec.jobTemplate.spec.template.spec'' =
      dedupeReferences (present (map (under (map Fld [''spec'', ''jobTemplate'', ''spec'', ''template'', ''spec'']))
        (podSpec_slots s)))" for s
    using referencesForPodSpec_slots[of s "map Fld [''spec'', ''jobTemplate'', ''spec'', ''template'', ''spec'']"]
    by simp
  note cases = spec template jobTemplate referencesForServiceAccount_slots
    referencesForIngress_slots[unfolded object_slots.simps]
  show ?thesis
  proof (cases obj)
    case (ReplicationController m t)
    then show ?thesis
      by (cases t) (simp_all only: referencesForObject.simps object_slots.simps podSpec_at.simps cases
            option.case prod.case present_Nil dedupe_Nil)
  qed (simp_all only: referencesForObject.simps object_slots.simps podSpec_at.simps cases
         option.case prod.case present_Nil dedupe_Nil)
qed

section \<open>Every slot has its own path\<close>

lemma fst_under [simp]: "fst (under q s) = q @ fst s" "snd (under q s) = snd s"
  by (simp_all add: under_def)

lemma distinct_under: "distinct (map fst ss) \<Longrightarrow> distinct (map fst (map (under q) ss))"
  by (induction ss) (auto simp: image_iff)

lemma distinct_each:
  assumes "\<And>x. distinct (map fst (slots x))"
  shows "distinct (map fst (each f slots xs))"
proof -
  have "map fst (each f slots xs) =
      concat (map (\<lambda>(i, x). map ((@) [Fld f, Idx i]) (map fst (slots x))) (enumerate 0 xs))"
    by (induction xs rule: rev_induct)
      (simp_all add: each_def at_index_def enumerate_append_eq comp_def)
  then show ?thesis
    using assms distinct_concat_enumerate[of xs "\<lambda>x. map fst (slots x)" "\<lambda>i. (@) [Fld f, Idx i]"] by simp
qed

lemma each_path: "s \<in> set (each f slots xs) \<Longrightarrow> \<exists>r. fst s = Fld f # r"
  by (auto simp: each_def at_index_def)

text \<open>Lists of slots whose paths start with different fields.\<close>

definition starts :: "string \<Rightarrow> slot list \<Rightarrow> bool" where
  "starts f ss \<longleftrightarrow> (\<forall>s \<in> set ss. \<exists>r. fst s = Fld f # r)"

lemma starts_each [simp]: "starts f (each f slots xs)"
  by (simp add: starts_def each_path)

lemma starts_disjoint: "starts f ss \<Longrightarrow> starts g ts \<Longrightarrow> f \<noteq> g \<Longrightarrow> set (map fst ss) \<inter> set (map fst ts) = {}"
  by (fastforce simp: starts_def)

lemma starts_under [simp]: "starts f (map (under [Fld f]) ss)"
  by (auto simp: starts_def)

fun blocks :: "(string \<times> slot list) list \<Rightarrow> slot list" where
  "blocks [] = []"
| "blocks ((f, ss) # bs) = ss @ blocks bs"

lemma blocks_start: "\<forall>(f, ss) \<in> set bs. starts f ss \<Longrightarrow> s \<in> set (blocks bs) \<Longrightarrow>
    \<exists>f r. f \<in> fst ` set bs \<and> fst s = Fld f # r"
proof (induction bs)
  case (Cons b bs)
  obtain f ss where b: "b = (f, ss)" by (cases b)
  show ?case
  proof (cases "s \<in> set ss")
    case True
    with Cons.prems b show ?thesis by (auto simp: starts_def)
  next
    case False
    with Cons b show ?thesis by auto
  qed
qed simp

lemma distinct_blocks:
  "distinct (map fst bs) \<Longrightarrow> \<forall>(f, ss) \<in> set bs. starts f ss \<and> distinct (map fst ss) \<Longrightarrow>
     distinct (map fst (blocks bs))"
proof (induction bs)
  case (Cons b bs)
  obtain f ss where b: "b = (f, ss)" by (cases b)
  have st: "\<forall>(f, ss) \<in> set bs. starts f ss" using Cons.prems by auto
  have "fst s \<noteq> fst t" if "s \<in> set ss" "t \<in> set (blocks bs)" for s t
  proof -
    from that(1) Cons.prems(2) b obtain r where s: "fst s = Fld f # r" by (auto simp: starts_def)
    from blocks_start[OF st that(2)] obtain g r' where "g \<in> fst ` set bs" "fst t = Fld g # r'" by blast
    with s Cons.prems(1) b show ?thesis by auto
  qed
  then have "set (map fst ss) \<inter> set (map fst (blocks bs)) = {}" by fastforce
  with Cons b show ?case by auto
qed simp

lemma distinct_volume_slots: "distinct (map fst (volume_slots v))"
proof -
  have dr: "starts d (driver_slots d f r)" "distinct (map fst (driver_slots d f r))" for d f r
    by (auto simp: driver_slots_def starts_def split: option.splits)
  have se: "starts ''secret'' (secretVolume_slots s)" "distinct (map fst (secretVolume_slots s))" for s
    by (auto simp: secretVolume_slots_def starts_def split: option.splits)
  have az: "starts ''azureFile'' (azureFile_slots s)" "distinct (map fst (azureFile_slots s))" for s
    by (auto simp: azureFile_slots_def starts_def split: option.splits)
  have src: "distinct (map fst (projection_slots p))" for p
    by (simp add: projection_slots_def split: option.split)
  have pr: "starts ''projected'' (projected_slots p)" "distinct (map fst (projected_slots p))" for p
    by (cases p; simp add: projected_slots_def starts_def distinct_under distinct_each src del: map_map)+
  define bs where "bs =
    [(''secret'', secretVolume_slots (vol_Secret v)), (''projected'', projected_slots (vol_Projected v)),
     (''csi'', driver_slots ''csi'' ''nodePublishSecretRef'' (Option.bind (vol_CSI v) NodePublishSecretRef)),
     (''azureFile'', azureFile_slots (vol_AzureFile v)),
     (''cephfs'', driver_slots ''cephfs'' ''secretRef'' (Option.bind (vol_CephFS v) SecretRef)),
     (''cinder'', driver_slots ''cinder'' ''secretRef'' (Option.bind (vol_Cinder v) SecretRef)),
     (''flexVolume'', driver_slots ''flexVolume'' ''secretRef'' (Option.bind (vol_FlexVolume v) SecretRef)),
     (''iscsi'', driver_slots ''iscsi'' ''secretRef'' (Option.bind (vol_ISCSI v) SecretRef)),
     (''rbd'', driver_slots ''rbd'' ''secretRef'' (Option.bind (vol_RBD v) SecretRef)),
     (''scaleIO'', driver_slots ''scaleIO'' ''secretRef'' (Option.bind (vol_ScaleIO v) SecretRef)),
     (''storageos'', driver_slots ''storageos'' ''secretRef'' (Option.bind (vol_StorageOS v) SecretRef))]"
  have "distinct (map fst (blocks bs))"
    by (rule distinct_blocks) (simp_all add: bs_def dr se az pr)
  then show ?thesis by (simp add: bs_def volume_slots_def)
qed

lemma distinct_container_slots: "distinct (map fst (container_slots c))"
proof -
  have "distinct (map fst (env_slots n e))" "distinct (map fst (envFrom_slots n ef))" for n e ef
    by (simp_all add: env_slots_def envFrom_slots_def split: option.split)
  then have "distinct (map fst (blocks [(''env'', each ''env'' (env_slots (c_Name c)) (Env c)),
      (''envFrom'', each ''envFrom'' (envFrom_slots (c_Name c)) (EnvFrom c))]))"
    by (intro distinct_blocks) (simp_all add: distinct_each)
  then show ?thesis by (simp add: container_slots_def)
qed

lemma distinct_localRef_slots: "distinct (map fst (localRef_slots r))"
  by (simp add: localRef_slots_def)

lemma distinct_podSpec_slots: "distinct (map fst (podSpec_slots s))"
proof -
  have "distinct (map fst (blocks
      [(''imagePullSecrets'', each ''imagePullSecrets'' localRef_slots (ImagePullSecrets s)),
       (''volumes'', each ''volumes'' volume_slots (Volumes s)),
       (''initContainers'', each ''initContainers'' container_slots (InitContainers s)),
       (''containers'', each ''containers'' container_slots (Containers s)),
       (''ephemeralContainers'', each ''ephemeralContainers'' container_slots (EphemeralContainers s))]))"
    by (intro distinct_blocks)
      (simp_all add: distinct_each distinct_volume_slots distinct_container_slots distinct_localRef_slots)
  then show ?thesis by (simp add: podSpec_slots_def)
qed

lemma distinct_object_slots: "distinct (map fst (object_slots obj))"
proof -
  have pod: "distinct (map fst (case podSpec_at obj of None \<Rightarrow> [] | Some (fs, s) \<Rightarrow>
      map (under (map Fld fs)) (podSpec_slots s)))"
    by (auto split: option.split intro!: distinct_under distinct_podSpec_slots simp del: map_map)
  have sa: "distinct (map fst (blocks [(''secrets'', each ''secrets'' localRef_slots xs),
      (''imagePullSecrets'', each ''imagePullSecrets'' localRef_slots ys)]))" for xs ys
    by (intro distinct_blocks) (simp_all add: distinct_each distinct_localRef_slots)
  show ?thesis
    using pod sa
    by (cases obj) (auto intro!: distinct_under distinct_each simp del: map_map)
qed

section \<open>The slots are the fields of the table\<close>


lemmas json_defs = json_localRef_def json_secretVolume_def json_secretProjection_def json_projected_def
  json_csi_def json_azureFile_def json_driver_def json_volume_def json_keySelector_def json_env_def
  json_secretEnv_def json_envFrom_def json_container_def json_podSpec_def

definition container_at :: "json \<Rightarrow> path option \<Rightarrow> string" where
  "container_at j c = (case c of None \<Rightarrow> [] | Some q \<Rightarrow> str_at j (q @ [Fld ''name'']))"

definition spec_slots :: "json \<Rightarrow> (path \<Rightarrow> path option \<Rightarrow> bool) \<Rightarrow> slot set" where
  "spec_slots j S = {(p, n, container_at j c, str_at j (sibling p ''key''), bool_at j (sibling p ''optional'')) |
     p c n. S p c \<and> json_get j p = Some (JStr n)}"

text \<open>Schemas: one field, a schema below a path, one below every element of a list.\<close>

definition leaf :: "path \<Rightarrow> path \<Rightarrow> path option \<Rightarrow> bool" where
  "leaf q p c \<longleftrightarrow> p = q \<and> c = None"

definition below :: "path \<Rightarrow> (path \<Rightarrow> path option \<Rightarrow> bool) \<Rightarrow> path \<Rightarrow> path option \<Rightarrow> bool" where
  "below q S p c \<longleftrightarrow> (\<exists>p' c'. S p' c' \<and> p' \<noteq> [] \<and> p = q @ p' \<and> c = map_option ((@) q) c')"

definition every :: "string \<Rightarrow> (path \<Rightarrow> path option \<Rightarrow> bool) \<Rightarrow> path \<Rightarrow> path option \<Rightarrow> bool" where
  "every f S p c \<longleftrightarrow> (\<exists>i. below [Fld f, Idx i] S p c)"

lemma spec_or: "spec_slots j (\<lambda>p c. S p c \<or> T p c) = spec_slots j S \<union> spec_slots j T"
  by (auto simp: spec_slots_def)

lemma spec_leaf: "spec_slots j (leaf q) = (case json_get j q of Some (JStr n) \<Rightarrow>
    {(q, n, [], str_at j (sibling q ''key''), bool_at j (sibling q ''optional''))} | _ \<Rightarrow> {})"
  by (auto simp: spec_slots_def leaf_def container_at_def split: option.splits json.splits)

lemma spec_below:
  assumes "json_get j q = Some j'" and "\<And>p c. S p c \<Longrightarrow> p \<noteq> []"
  shows "spec_slots j (below q S) = under q ` spec_slots j' S"
proof -
  have c: "container_at j (map_option ((@) q) c) = container_at j' c" for c
    using assms(1) by (cases c) (simp_all add: container_at_def str_at_append)
  have get: "json_get j (q @ p) = json_get j' p" for p
    using assms(1) by (simp add: json_get_append)
  have sib: "str_at j (sibling (q @ p) f) = str_at j' (sibling p f)"
    "bool_at j (sibling (q @ p) f) = bool_at j' (sibling p f)" if "p \<noteq> []" for p f
    using assms(1) that by (simp_all add: sibling_append str_at_append bool_at_append)
  show ?thesis
  proof (intro equalityI subsetI)
    fix s
    assume "s \<in> spec_slots j (below q S)"
    then obtain p n c where "S p c" "p \<noteq> []" "json_get j' p = Some (JStr n)"
      and s: "s = (q @ p, n, container_at j' c, str_at j' (sibling p ''key''), bool_at j' (sibling p ''optional''))"
      by (auto simp: spec_slots_def below_def c get sib)
    then have "(p, n, container_at j' c, str_at j' (sibling p ''key''), bool_at j' (sibling p ''optional''))
        \<in> spec_slots j' S"
      by (auto simp: spec_slots_def)
    then have "under q (p, n, container_at j' c, str_at j' (sibling p ''key''), bool_at j' (sibling p ''optional''))
        \<in> under q ` spec_slots j' S"
      by (rule imageI)
    then show "s \<in> under q ` spec_slots j' S" by (simp add: s under_def)
  next
    fix s
    assume "s \<in> under q ` spec_slots j' S"
    then obtain p n c where S: "S p c" and n: "json_get j' p = Some (JStr n)"
      and s: "s = (q @ p, n, container_at j' c, str_at j' (sibling p ''key''), bool_at j' (sibling p ''optional''))"
      by (auto simp: spec_slots_def under_def)
    have "p \<noteq> []" using S by (rule assms(2))
    then have "below q S (q @ p) (map_option ((@) q) c)" using S by (auto simp: below_def)
    moreover have "s = (q @ p, n, container_at j (map_option ((@) q) c),
        str_at j (sibling (q @ p) ''key''), bool_at j (sibling (q @ p) ''optional''))"
      using \<open>p \<noteq> []\<close> by (simp add: s c sib)
    ultimately show "s \<in> spec_slots j (below q S)" using n unfolding spec_slots_def get[symmetric] by blast
  qed
qed

lemma spec_below_None:
  "json_get j q = None \<Longrightarrow> spec_slots j (below q S) = {}"
  by (auto simp: spec_slots_def below_def json_get_append)

lemma set_enumerate_image: "set (enumerate 0 xs) = (\<lambda>i. (i, xs ! i)) ` {..<length xs}"
  by (auto simp: set_enumerate_conv image_iff)

lemma set_each:
  "set (each f slots xs) = (\<Union>i<length xs. under [Fld f, Idx i] ` set (slots (xs ! i)))"
  by (simp add: each_def set_enumerate_image at_index_def[abs_def])

lemma spec_every:
  assumes arr: "json_get j [Fld f] = Some (JArr (map g xs))"
    and elem: "\<And>x. spec_slots (g x) S = set (slots x)" and ne: "\<And>p c. S p c \<Longrightarrow> p \<noteq> []"
  shows "spec_slots j (every f S) = set (each f slots xs)"
proof -
  have get: "json_get j [Fld f, Idx i] = (if i < length xs then Some (g (xs ! i)) else None)" for i
    using json_get_append[of j "[Fld f]" "[Idx i]"] arr by simp
  have "spec_slots j (every f S) = (\<Union>i. spec_slots j (below [Fld f, Idx i] S))"
    by (auto simp: spec_slots_def every_def)
  also have "\<dots> = (\<Union>i. if i < length xs then under [Fld f, Idx i] ` set (slots (xs ! i)) else {})"
    by (rule arg_cong[where f = Union], rule image_cong[OF refl])
      (simp add: get spec_below[OF _ ne] spec_below_None elem)
  also have "\<dots> = set (each f slots xs)" by (auto simp: set_each split: if_splits)
  finally show ?thesis .
qed

lemma below_leaf: "r \<noteq> [] \<Longrightarrow> below q (leaf r) = leaf (q @ r)"
  by (auto simp: below_def leaf_def fun_eq_iff)

lemma volume_schema:
  "(\<lambda>p c. volumeSecretField p \<and> c = None) = (\<lambda>p c.
     leaf [Fld ''secret'', Fld ''secretName''] p c \<or>
     below [Fld ''projected''] (every ''sources'' (leaf [Fld ''secret'', Fld ''name''])) p c \<or>
     leaf [Fld ''csi'', Fld ''nodePublishSecretRef'', Fld ''name''] p c \<or>
     leaf [Fld ''azureFile'', Fld ''secretName''] p c \<or>
     leaf [Fld ''cephfs'', Fld ''secretRef'', Fld ''name''] p c \<or>
     leaf [Fld ''cinder'', Fld ''secretRef'', Fld ''name''] p c \<or>
     leaf [Fld ''flexVolume'', Fld ''secretRef'', Fld ''name''] p c \<or>
     leaf [Fld ''iscsi'', Fld ''secretRef'', Fld ''name''] p c \<or>
     leaf [Fld ''rbd'', Fld ''secretRef'', Fld ''name''] p c \<or>
     leaf [Fld ''scaleIO'', Fld ''secretRef'', Fld ''name''] p c \<or>
     leaf [Fld ''storageos'', Fld ''secretRef'', Fld ''name''] p c)"
proof -
  have every: "below [Fld ''projected''] (every ''sources'' (leaf [Fld ''secret'', Fld ''name''])) p c \<longleftrightarrow>
      (\<exists>j. p = [Fld ''projected'', Fld ''sources'', Idx j, Fld ''secret'', Fld ''name'']) \<and> c = None" for p c
    by (auto simp: below_def every_def leaf_def)
  show ?thesis
  proof (intro ext iffI)
    fix p :: path and c :: "path option"
    assume *: "volumeSecretField p \<and> c = None"
    then have c: "c = None" and "volumeSecretField p" by blast+
    from this(2) show "leaf [Fld ''secret'', Fld ''secretName''] p c \<or>
     below [Fld ''projected''] (every ''sources'' (leaf [Fld ''secret'', Fld ''name''])) p c \<or>
     leaf [Fld ''csi'', Fld ''nodePublishSecretRef'', Fld ''name''] p c \<or>
     leaf [Fld ''azureFile'', Fld ''secretName''] p c \<or>
     leaf [Fld ''cephfs'', Fld ''secretRef'', Fld ''name''] p c \<or>
     leaf [Fld ''cinder'', Fld ''secretRef'', Fld ''name''] p c \<or>
     leaf [Fld ''flexVolume'', Fld ''secretRef'', Fld ''name''] p c \<or>
     leaf [Fld ''iscsi'', Fld ''secretRef'', Fld ''name''] p c \<or>
     leaf [Fld ''rbd'', Fld ''secretRef'', Fld ''name''] p c \<or>
     leaf [Fld ''scaleIO'', Fld ''secretRef'', Fld ''name''] p c \<or>
     leaf [Fld ''storageos'', Fld ''secretRef'', Fld ''name''] p c"
    proof cases
      case (2 j)
      then show ?thesis unfolding every using c by blast
    next
      case (5 d)
      from 5(2) show ?thesis
        unfolding 5(1) leaf_def every c list.set insert_iff empty_iff
        by (elim disjE FalseE; hypsubst; simp only: simp_thms)
    qed (simp_all only: c leaf_def simp_thms)
  qed (elim disjE; simp only: leaf_def every; elim exE conjE; hypsubst;
      intro conjI refl volumeSecretField.intros(1-4) volumeSecretField.intros(5);
      simp only: list.set insert_iff simp_thms)+
qed

lemma every_nonempty: "every f S p c \<Longrightarrow> p \<noteq> []"
  by (auto simp: every_def below_def)

lemma volume_spec:
  "spec_slots (json_volume v) (\<lambda>p c. volumeSecretField p \<and> c = None) = set (volume_slots v)"
proof -
  have driver: "spec_slots (JObj kvs) (leaf [Fld d, Fld ''secretRef'', Fld ''name'']) =
      set (driver_slots d ''secretRef'' (Option.bind x SecretRef))"
    if "map_of kvs d = map_option json_driver x" for kvs d x
    using that by (cases x; cases "SecretRef (the x)")
      (simp_all add: spec_leaf driver_slots_def json_driver_def json_localRef_def sibling_def
         str_at_def bool_at_def)
  have csi: "spec_slots (JObj kvs) (leaf [Fld ''csi'', Fld ''nodePublishSecretRef'', Fld ''name'']) =
      set (driver_slots ''csi'' ''nodePublishSecretRef'' (Option.bind x NodePublishSecretRef))"
    if "map_of kvs ''csi'' = map_option json_csi x" for kvs x
    using that by (cases x; cases "NodePublishSecretRef (the x)")
      (simp_all add: spec_leaf driver_slots_def json_csi_def json_localRef_def sibling_def
         str_at_def bool_at_def)
  have azure: "spec_slots (JObj kvs) (leaf [Fld ''azureFile'', Fld ''secretName'']) = set (azureFile_slots x)"
    if "map_of kvs ''azureFile'' = map_option json_azureFile x" for kvs x
    using that by (cases x) (simp_all add: spec_leaf azureFile_slots_def json_azureFile_def sibling_def
         str_at_def bool_at_def)
  have secret: "spec_slots (JObj kvs) (leaf [Fld ''secret'', Fld ''secretName'']) = set (secretVolume_slots x)"
    if "map_of kvs ''secret'' = map_option json_secretVolume x" for kvs x
    using that by (cases x; cases "svs_Optional (the x)")
      (simp_all add: spec_leaf secretVolume_slots_def json_secretVolume_def sibling_def
         str_at_def bool_at_def opt_field_def)
  have source: "spec_slots (JObj (opt_field ''secret'' json_secretProjection (vp_Secret s)))
      (leaf [Fld ''secret'', Fld ''name'']) = set (projection_slots s)" for s
    by (cases "vp_Secret s"; cases "sp_Optional (the (vp_Secret s))")
      (simp_all add: spec_leaf projection_slots_def json_secretProjection_def sibling_def
         str_at_def bool_at_def opt_field_def)
  have projected: "spec_slots (JObj kvs) (below [Fld ''projected''] (every ''sources'' (leaf [Fld ''secret'', Fld ''name'']))) =
      set (projected_slots x)"
    if k: "map_of kvs ''projected'' = map_option json_projected x" for kvs x
  proof (cases x)
    case None
    with k show ?thesis by (simp add: spec_below_None projected_slots_def)
  next
    case (Some y)
    have "spec_slots (json_projected y) (every ''sources'' (leaf [Fld ''secret'', Fld ''name''])) =
        set (each ''sources'' projection_slots (Sources y))"
      by (rule spec_every[OF _ source]) (auto simp: json_projected_def leaf_def)
    with k Some show ?thesis
      by (simp add: projected_slots_def spec_below[where j' = "json_projected y"] every_nonempty)
  qed
  define kvs where "kvs = (case json_volume v of JObj kvs \<Rightarrow> kvs)"
  have j: "json_volume v = JObj kvs" by (simp add: kvs_def json_volume_def)
  have keys:
    "map_of kvs ''secret'' = map_option json_secretVolume (vol_Secret v)"
    "map_of kvs ''projected'' = map_option json_projected (vol_Projected v)"
    "map_of kvs ''csi'' = map_option json_csi (vol_CSI v)"
    "map_of kvs ''azureFile'' = map_option json_azureFile (vol_AzureFile v)"
    "map_of kvs ''cephfs'' = map_option json_driver (vol_CephFS v)"
    "map_of kvs ''cinder'' = map_option json_driver (vol_Cinder v)"
    "map_of kvs ''flexVolume'' = map_option json_driver (vol_FlexVolume v)"
    "map_of kvs ''iscsi'' = map_option json_driver (vol_ISCSI v)"
    "map_of kvs ''rbd'' = map_option json_driver (vol_RBD v)"
    "map_of kvs ''scaleIO'' = map_option json_driver (vol_ScaleIO v)"
    "map_of kvs ''storageos'' = map_option json_driver (vol_StorageOS v)"
    by (simp_all add: kvs_def json_volume_def map_option_case del: map_of_append split: option.split)
  note pieces = secret[OF keys(1)] projected[OF keys(2)] csi[OF keys(3)] azure[OF keys(4)]
    driver[OF keys(5)] driver[OF keys(6)] driver[OF keys(7)] driver[OF keys(8)] driver[OF keys(9)]
    driver[OF keys(10)] driver[OF keys(11)]
  show ?thesis
    unfolding volume_schema spec_or j pieces volume_slots_def set_append ..
qed

text \<open>Containers: their references carry the container's own path.\<close>

definition container_schema :: "path \<Rightarrow> path option \<Rightarrow> bool" where
  "container_schema p c \<longleftrightarrow> containerSecretField p \<and> c = Some []"

lemma container_fields:
  "containerSecretField p \<longleftrightarrow>
     every ''env'' (leaf [Fld ''valueFrom'', Fld ''secretKeyRef'', Fld ''name'']) p None \<or>
     every ''envFrom'' (leaf [Fld ''secretRef'', Fld ''name'']) p None"
  by (subst containerSecretField.simps) (simp add: every_def below_leaf leaf_def)

lemma env_spec: "spec_slots (json_env e) (leaf [Fld ''valueFrom'', Fld ''secretKeyRef'', Fld ''name'']) =
    set (env_slots [] e)"
  by (cases "ValueFrom e"; cases "SecretKeyRef (the (ValueFrom e))";
      cases "sks_Optional (the (SecretKeyRef (the (ValueFrom e))))")
    (simp_all add: spec_leaf env_slots_def json_env_def json_keySelector_def sibling_def
       str_at_def bool_at_def opt_field_def)

lemma envFrom_spec: "spec_slots (json_envFrom e) (leaf [Fld ''secretRef'', Fld ''name'']) =
    set (envFrom_slots [] e)"
  by (cases "efs_SecretRef e"; cases "ses_Optional (the (efs_SecretRef e))")
    (simp_all add: spec_leaf envFrom_slots_def json_envFrom_def json_secretEnv_def sibling_def
       str_at_def bool_at_def opt_field_def)

text \<open>Filling in the container's name.\<close>

definition in_container :: "string \<Rightarrow> slot \<Rightarrow> slot" where
  "in_container n s = (case s of (p, m, c, k, ob) \<Rightarrow> (p, m, n, k, ob))"

lemma set_each_in_container:
  assumes "\<And>x. set (slots x) = in_container n ` set (slots' x)"
  shows "set (each f slots xs) = in_container n ` set (each f slots' xs)"
proof -
  have "under q (in_container n s) = in_container n (under q s)" for q s
    by (cases s) (simp add: under_def in_container_def)
  then show ?thesis by (simp add: set_each assms image_UN image_image)
qed

lemma env_in_container: "set (env_slots n e) = in_container n ` set (env_slots [] e)"
  by (cases "Option.bind (ValueFrom e) SecretKeyRef") (simp_all add: env_slots_def in_container_def)

lemma envFrom_in_container: "set (envFrom_slots n e) = in_container n ` set (envFrom_slots [] e)"
  by (cases "efs_SecretRef e") (simp_all add: envFrom_slots_def in_container_def)

lemma container_spec: "spec_slots (json_container c) container_schema = set (container_slots c)"
proof -
  let ?j = "json_container c"
  have "spec_slots ?j container_schema =
      in_container (c_Name c) ` spec_slots ?j (\<lambda>p c. containerSecretField p \<and> c = None)"
  proof -
    have n: "container_at ?j (Some []) = c_Name c"
      by (simp add: container_at_def str_at_def json_container_def)
    show ?thesis
      by (auto simp: spec_slots_def container_schema_def n in_container_def image_iff)
  qed
  also have "spec_slots ?j (\<lambda>p c. containerSecretField p \<and> c = None) =
      spec_slots ?j (\<lambda>p c. every ''env'' (leaf [Fld ''valueFrom'', Fld ''secretKeyRef'', Fld ''name'']) p c \<or>
        every ''envFrom'' (leaf [Fld ''secretRef'', Fld ''name'']) p c)"
  proof -
    have "(containerSecretField p \<and> c = None) =
        (every ''env'' (leaf [Fld ''valueFrom'', Fld ''secretKeyRef'', Fld ''name'']) p c \<or>
         every ''envFrom'' (leaf [Fld ''secretRef'', Fld ''name'']) p c)" for p c
    proof (cases c)
      case None
      then show ?thesis unfolding container_fields by blast
    next
      case (Some q)
      have "\<not> every f (leaf r) p (Some q)" for f r by (simp add: every_def below_def leaf_def)
      with Some show ?thesis by blast
    qed
    then show ?thesis by (simp only:)
  qed
  also have "\<dots> = set (each ''env'' (env_slots []) (Env c)) \<union> set (each ''envFrom'' (envFrom_slots []) (EnvFrom c))"
    unfolding spec_or
    by (intro arg_cong2[where f = "(\<union>)"] spec_every[OF _ env_spec] spec_every[OF _ envFrom_spec])
      (auto simp: json_container_def leaf_def)
  also have "in_container (c_Name c) ` \<dots> = set (container_slots c)"
    by (simp only: container_slots_def set_append image_Un
        set_each_in_container[OF env_in_container[of "c_Name c"]]
        set_each_in_container[OF envFrom_in_container[of "c_Name c"]])
  finally show ?thesis .
qed

lemma localRef_spec: "spec_slots (json_localRef r) (leaf [Fld ''name'']) = set (localRef_slots r)"
  by (simp add: spec_leaf localRef_slots_def json_localRef_def sibling_def str_at_def bool_at_def)

lemma nonempty_fields: "volumeSecretField p \<Longrightarrow> p \<noteq> []" "containerSecretField p \<Longrightarrow> p \<noteq> []"
  by (auto elim: volumeSecretField.cases containerSecretField.cases)

lemma pod_schema:
  "podSecretField = (\<lambda>p c.
     every ''imagePullSecrets'' (leaf [Fld ''name'']) p c \<or>
     every ''volumes'' (\<lambda>p c. volumeSecretField p \<and> c = None) p c \<or>
     every ''initContainers'' container_schema p c \<or>
     every ''containers'' container_schema p c \<or>
     every ''ephemeralContainers'' container_schema p c)"
proof -
  have ctr: "every f container_schema p c \<longleftrightarrow>
      (\<exists>i p'. containerSecretField p' \<and> p = Fld f # Idx i # p' \<and> c = Some [Fld f, Idx i])" for f p c
    by (auto simp: every_def below_def container_schema_def nonempty_fields)
  have vol: "every ''volumes'' (\<lambda>p c. volumeSecretField p \<and> c = None) p c \<longleftrightarrow>
      (\<exists>i p'. volumeSecretField p' \<and> p = Fld ''volumes'' # Idx i # p' \<and> c = None)" for p c
    by (auto simp: every_def below_def nonempty_fields)
  have pull: "every ''imagePullSecrets'' (leaf [Fld ''name'']) p c \<longleftrightarrow>
      (\<exists>i. p = [Fld ''imagePullSecrets'', Idx i, Fld ''name'']) \<and> c = None" for p c
    by (auto simp: every_def below_def leaf_def)
  show ?thesis
  proof (intro ext iffI)
    fix p :: path and c :: "path option"
    assume "podSecretField p c"
    then show "every ''imagePullSecrets'' (leaf [Fld ''name'']) p c \<or>
     every ''volumes'' (\<lambda>p c. volumeSecretField p \<and> c = None) p c \<or>
     every ''initContainers'' container_schema p c \<or>
     every ''containers'' container_schema p c \<or>
     every ''ephemeralContainers'' container_schema p c"
    proof cases
      case (1 i)
      then show ?thesis unfolding pull by blast
    next
      case (2 p' i)
      then show ?thesis unfolding vol by blast
    next
      case (3 p' g i)
      then have "every g container_schema p c" unfolding ctr by blast
      with 3(4) show ?thesis
        unfolding list.set insert_iff empty_iff by (elim disjE FalseE) (simp_all only: simp_thms)
    qed
  next
    fix p :: path and c :: "path option"
    have g: "podSecretField (Fld g # Idx i # p') (Some [Fld g, Idx i])"
      if "containerSecretField p'" "g = ''initContainers'' \<or> g = ''containers'' \<or> g = ''ephemeralContainers''" for g i p'
      by (rule podSecretField.intros(3)[OF that(1)]) (use that(2) in \<open>simp only: list.set insert_iff empty_iff simp_thms\<close>)
    assume "every ''imagePullSecrets'' (leaf [Fld ''name'']) p c \<or>
     every ''volumes'' (\<lambda>p c. volumeSecretField p \<and> c = None) p c \<or>
     every ''initContainers'' container_schema p c \<or>
     every ''containers'' container_schema p c \<or>
     every ''ephemeralContainers'' container_schema p c"
    then show "podSecretField p c"
      unfolding ctr vol pull
      by (elim disjE exE conjE; hypsubst) (rule podSecretField.intros(1) podSecretField.intros(2) g; simp only: simp_thms)+
  qed
qed

lemma podSpec_spec: "spec_slots (json_podSpec s) podSecretField = set (podSpec_slots s)"
proof -
  have ne: "container_schema p c \<Longrightarrow> p \<noteq> []" for p c
    by (auto simp: container_schema_def nonempty_fields)
  let ?j = "json_podSpec s"
  have ctrs: "spec_slots ?j (every f container_schema) = set (each f container_slots xs)"
    if "json_get ?j [Fld f] = Some (JArr (map json_container xs))" for f xs
    by (rule spec_every[OF that container_spec ne])
  have "spec_slots ?j (every ''imagePullSecrets'' (leaf [Fld ''name''])) =
      set (each ''imagePullSecrets'' localRef_slots (ImagePullSecrets s))"
    by (rule spec_every[OF _ localRef_spec]) (auto simp: json_podSpec_def leaf_def)
  moreover have "spec_slots ?j (every ''volumes'' (\<lambda>p c. volumeSecretField p \<and> c = None)) =
      set (each ''volumes'' volume_slots (Volumes s))"
    by (rule spec_every[OF _ volume_spec]) (auto simp: json_podSpec_def nonempty_fields)
  moreover have "spec_slots ?j (every ''initContainers'' container_schema) =
      set (each ''initContainers'' container_slots (InitContainers s))"
    and "spec_slots ?j (every ''containers'' container_schema) =
      set (each ''containers'' container_slots (Containers s))"
    and "spec_slots ?j (every ''ephemeralContainers'' container_schema) =
      set (each ''ephemeralContainers'' container_slots (EphemeralContainers s))"
    by (rule ctrs; simp add: json_podSpec_def)+
  ultimately show ?thesis
    unfolding pod_schema spec_or podSpec_slots_def set_append by (simp only:)
qed

section \<open>Objects\<close>

lemma every_localRef:
  assumes "json_get j [Fld f] = Some (JArr (map json_localRef rs))"
  shows "spec_slots j (every f (leaf [Fld ''name''])) = set (each f localRef_slots rs)"
  by (rule spec_every[OF assms localRef_spec]) (auto simp: leaf_def)

lemma pod_nonempty: "podSecretField p c \<Longrightarrow> p \<noteq> []"
  by (auto elim: podSecretField.cases)

lemma pod_object_spec:
  assumes "podSpec_at obj = Some (fs, s)"
  shows "spec_slots (json_of_object obj) (secretField obj) = set (object_slots obj)"
proof -
  have j: "json_of_object obj = json_nest fs (json_podSpec s)"
    and o: "object_slots obj = map (under (map Fld fs)) (podSpec_slots s)"
    using assms by (cases obj; simp)+
  have "secretField obj = below (map Fld fs) podSecretField"
    using assms
    by (intro ext) (auto simp: secretField.simps below_def dest: pod_nonempty)
  then show ?thesis
    using json_get_nest[of fs "json_podSpec s" "[]"]
    by (simp add: j o spec_below[where j' = "json_podSpec s"] pod_nonempty podSpec_spec)
qed

lemma account_spec:
  "spec_slots (json_of_object (ServiceAccount m secrets ips)) (secretField (ServiceAccount m secrets ips)) =
     set (object_slots (ServiceAccount m secrets ips))"
proof -
  have "secretField (ServiceAccount m secrets ips) =
      (\<lambda>p c. every ''secrets'' (leaf [Fld ''name'']) p c \<or> every ''imagePullSecrets'' (leaf [Fld ''name'']) p c)"
    by (intro ext) (auto simp: secretField.simps every_def below_leaf leaf_def)
  then show ?thesis
    by (simp add: spec_or every_localRef[of _ "''secrets''" secrets] every_localRef[of _ "''imagePullSecrets''" ips])
qed

lemma ingress_spec:
  "spec_slots (json_of_object (Ingress m tls)) (secretField (Ingress m tls)) = set (object_slots (Ingress m tls))"
proof -
  let ?tls = "JObj [(''tls'', JArr (map (\<lambda>t. JObj [(''secretName'', JStr (tls_SecretName t))]) tls))]"
  have "secretField (Ingress m tls) = below [Fld ''spec''] (every ''tls'' (leaf [Fld ''secretName'']))"
    by (intro ext) (auto simp: secretField.simps every_def below_leaf leaf_def, auto simp: below_def leaf_def every_def)
  moreover have "spec_slots ?tls (every ''tls'' (leaf [Fld ''secretName''])) =
      set (each ''tls'' (\<lambda>t. [([Fld ''secretName''], tls_SecretName t, [], [], None)]) tls)"
    by (rule spec_every) (auto simp: spec_leaf sibling_def str_at_def bool_at_def leaf_def)
  ultimately show ?thesis
    by (simp add: spec_below[where j' = ?tls] every_nonempty)
qed

lemma object_spec: "spec_slots (json_of_object obj) (secretField obj) = set (object_slots obj)"
proof (cases "podSpec_at obj")
  case None
  show ?thesis
  proof (cases "(\<exists>m s p. obj = ServiceAccount m s p) \<or> (\<exists>m t. obj = Ingress m t)")
    case True
    then show ?thesis using account_spec ingress_spec by blast
  next
    case False
    then have "object_slots obj = []" using None by (cases obj) auto
    moreover have "\<not> secretField obj p c" for p c
      using None False by (auto elim: secretField.cases)
    ultimately show ?thesis by (simp add: spec_slots_def)
  qed
next
  case (Some x)
  then show ?thesis using pod_object_spec by (cases x) auto
qed

lemma set_present: "set (present (object_slots obj)) = expected_references obj"
proof -
  let ?j = "json_of_object obj"
  define sl :: "path \<Rightarrow> path option \<Rightarrow> string \<Rightarrow> slot" where "sl p c n = (p, n, container_at ?j c, str_at ?j (sibling p ''key''),
      bool_at ?j (sibling p ''optional''))" for p c n
  have sl: "slot_reference (sl p c n) = field_reference ?j p c n" "fst (snd (sl p c n)) = n" for p c n
    by (simp_all add: sl_def field_reference_def container_at_def)
  have slots: "set (object_slots obj) = {sl p c n | p c n. secretField obj p c \<and> json_get ?j p = Some (JStr n)}"
    unfolding object_spec[symmetric] spec_slots_def sl_def ..
  have "set (present (object_slots obj)) = slot_reference ` {s \<in> set (object_slots obj). fst (snd s) \<noteq> []}"
    by (simp add: present_def)
  also have "\<dots> = expected_references obj"
    unfolding slots expected_references_def sl(1)[symmetric]
    by (auto simp only: sl(2) mem_Collect_eq intro!: imageI) (auto simp: sl(2))
  finally show ?thesis .
qed

section \<open>Properties of the paths\<close>

lemma secretField_steps:
  assumes "\<And>f. P (Fld f) \<longleftrightarrow> Q f" and "\<And>i. P (Idx i)"
    and "Q ''secret''" "Q ''secretName''" "Q ''projected''" "Q ''sources''" "Q ''name''" "Q ''csi''"
      "Q ''nodePublishSecretRef''" "Q ''azureFile''" "Q ''secretRef''" "Q ''cephfs''" "Q ''cinder''"
      "Q ''flexVolume''" "Q ''iscsi''" "Q ''rbd''" "Q ''scaleIO''" "Q ''storageos''" "Q ''env''" "Q ''valueFrom''"
      "Q ''secretKeyRef''" "Q ''envFrom''" "Q ''imagePullSecrets''" "Q ''volumes''" "Q ''initContainers''"
      "Q ''containers''" "Q ''ephemeralContainers''" "Q ''spec''" "Q ''template''" "Q ''jobTemplate''"
      "Q ''secrets''" "Q ''tls''"
    and "secretField obj p c"
  shows "list_all P p"
proof -
  have vol: "list_all P p" if "volumeSecretField p" for p
    using that by cases (auto simp: assms(1-32))
  have ctr: "list_all P p" if "containerSecretField p" for p
    using that by cases (auto simp: assms(1-32))
  have pod: "list_all P p" if "podSecretField p c" for p c
    using that by cases (auto simp: assms(1-32) vol ctr)
  have "list_all P (map Fld fs)" if "podSpec_at obj = Some (fs, s)" for fs s
    using that by (cases obj rule: podSpec_at.cases) (auto simp: assms(1-32))
  with assms(33) show ?thesis
    by cases (auto simp: assms(1-32) pod)
qed

lemma secretField_wf: "secretField obj p c \<Longrightarrow> list_all wf_step p"
  by (rule secretField_steps[where P = wf_step and Q = "\<lambda>f. f \<noteq> [] \<and> list_all ident_char f"])
    (simp_all add: ident_char_def)

lemma secretField_nul_free: "secretField obj p c \<Longrightarrow> list_all nul_free_step p"
  by (rule secretField_steps[where P = nul_free_step and Q = nul_free]) (simp_all add: nul_free_Cons)

lemma expected_valid:
  assumes "json_nul_free (json_of_object obj)" and "ref \<in> expected_references obj"
  shows "valid_reference ref"
  using assms
  by (auto simp: expected_references_def field_reference_def valid_reference_def nul_free_render
      secretField_nul_free nul_free_str_at split: option.split dest: json_nul_free_get)

lemma present_paths: "map FieldPath (present ss) = map render_path (map fst (filter (\<lambda>s. fst (snd s) \<noteq> []) ss))"
  by (induction ss) (auto simp: present_def)

lemma slot_path_wf: "s \<in> set (object_slots obj) \<Longrightarrow> list_all wf_step (fst s)"
  by (auto simp: object_spec[symmetric] spec_slots_def dest: secretField_wf)

lemma distinct_present_paths: "distinct (map FieldPath (present (object_slots obj)))"
proof -
  let ?ss = "filter (\<lambda>s. fst (snd s) \<noteq> []) (object_slots obj)"
  have "inj_on render_path (set (map fst ?ss))"
    by (rule inj_onI) (auto simp: render_path_inject dest!: slot_path_wf)
  moreover have "distinct (map fst ?ss)" by (rule distinct_map_filter[OF distinct_object_slots])
  ultimately show ?thesis by (simp only: present_paths distinct_map[of render_path])
qed

lemma referencesForObject_present:
  "json_nul_free (json_of_object obj) \<Longrightarrow> referencesForObject obj = present (object_slots obj)"
  unfolding referencesForObject_slots dedupeReferences_loop
  by (rule ref_key.dedup_loop_distinct_id)
    (auto simp: set_present intro: expected_valid distinct_map[THEN iffD1, THEN conjunct1, OF distinct_present_paths])

lemma referencesForObject_subset: "set (referencesForObject obj) \<subseteq> expected_references obj"
  unfolding referencesForObject_slots set_present[symmetric] by (rule set_dedupe_subset)

lemma expected_named: "ref \<in> expected_references obj \<Longrightarrow> SecretName ref \<noteq> []"
  by (auto simp: expected_references_def field_reference_def)

interpretation builtin_index: secret_index referencesForObject SecretNamesForObject "usageReferencesForObject L"
  for L :: "'jp lib"
proof
  show "SecretNamesForObject obj = uniqueSortedSecretNames (referencesForObject obj)" for obj
    by (simp add: SecretNamesForObject_def)
  show "ref \<in> set (referencesForObject obj) \<Longrightarrow> SecretName ref \<noteq> []" for ref obj
    using referencesForObject_subset expected_named by blast
  show "length (usageReferencesForObject L obj n) =
      length (filter (\<lambda>ref. SecretName ref = n) (referencesForObject obj))" for obj n
    by (simp add: usageReferencesForObject_conv)
qed

end
