(* ===== verification/Examples.thy ===== *)
theory Examples
  imports RefSpec
begin

text \<open>
  Concrete inputs for the witnesses: a few objects, and one instance of the library
  parameters. The instance follows the documentation of the libraries where the witnesses
  look (group versions, label values of at most 63 characters, JSONPath expressions that are
  plain field and index paths in braces).
\<close>

section \<open>Objects\<close>

definition example_meta :: objectMeta where
  "example_meta = zero_meta\<lparr>Namespace := ''default'', Name := ''web''\<rparr>"

definition example_ingress :: clientObject where
  "example_ingress = Ingress example_meta
     [\<lparr>tls_SecretName = ''a-tls''\<rparr>, \<lparr>tls_SecretName = ''''\<rparr>, \<lparr>tls_SecretName = ''b-tls''\<rparr>]"

definition example_container :: container where
  "example_container = \<lparr>c_Name = ''app'',
     Env = [\<lparr>ValueFrom = None\<rparr>,
            \<lparr>ValueFrom = Some \<lparr>SecretKeyRef = Some \<lparr>sks_Name = ''db'', sks_Key = ''token'', sks_Optional = Some True\<rparr>\<rparr>\<rparr>],
     EnvFrom = [\<lparr>efs_SecretRef = Some \<lparr>ses_Name = ''db'', ses_Optional = None\<rparr>\<rparr>]\<rparr>"

definition example_pod :: clientObject where
  "example_pod = Pod example_meta
     \<lparr>ImagePullSecrets = [\<lparr>lor_Name = ''pull''\<rparr>], Volumes = [], InitContainers = [],
      Containers = [example_container], EphemeralContainers = []\<rparr>"

lemma example_nul_free: "json_nul_free (json_of_object example_pod)" "json_nul_free (json_of_object example_ingress)"
  by (simp_all add: example_pod_def example_ingress_def example_container_def json_podSpec_def json_localRef_def
      json_container_def json_env_def json_envFrom_def json_keySelector_def json_secretEnv_def opt_field_def nul_free_Cons)

section \<open>Libraries\<close>

definition example_ParseGroupVersion :: "string \<Rightarrow> goError + groupVersion" where
  "example_ParseGroupVersion s =
     (let g = takeWhile (\<lambda>c. c \<noteq> CHR ''/'') s; rest = dropWhile (\<lambda>c. c \<noteq> CHR ''/'') s in
      case rest of
        [] \<Rightarrow> Inr \<lparr>gv_Group = [], gv_Version = s\<rparr>
      | _ # v \<Rightarrow> if CHR ''/'' \<in> set v then Inl (APIError OtherReason s)
                 else Inr \<lparr>gv_Group = g, gv_Version = v\<rparr>)"

definition example_gvString :: "groupVersion \<Rightarrow> string" where
  "example_gvString gv = (if gv_Group gv = [] then gv_Version gv else gv_Group gv @ ''/'' @ gv_Version gv)"

definition example_lib :: "path lib" where
  "example_lib =
     \<lparr>corev1_SchemeGroupVersion = \<lparr>gv_Group = [], gv_Version = ''v1''\<rparr>,
      appsv1_SchemeGroupVersion = \<lparr>gv_Group = ''apps'', gv_Version = ''v1''\<rparr>,
      batchv1_SchemeGroupVersion = \<lparr>gv_Group = ''batch'', gv_Version = ''v1''\<rparr>,
      networkingv1_SchemeGroupVersion = \<lparr>gv_Group = ''networking.k8s.io'', gv_Version = ''v1''\<rparr>,
      gvString = example_gvString,
      ParseGroupVersion = example_ParseGroupVersion,
      IsValidLabelValue = (\<lambda>s. if length s \<le> 63 then [] else [''must be no more than 63 characters'']),
      jsonpath_Parse = (\<lambda>_ _ s. case parse_path (butlast (tl s)) of
         None \<Rightarrow> Inl (APIError OtherReason s) | Some p \<Rightarrow> Inr p),
      FindResults = (\<lambda>p j. Inr [case json_get j p of None \<Rightarrow> [] | Some v \<Rightarrow> [v]])\<rparr>"

end
