(* ===== verification/RefProps.thy ===== *)
theory RefProps
  imports Examples
begin

text \<open>
  The properties of the reference extractors (\<open>internal/controller/secret_refs.go\<close>), each with
  a witness on a small Pod or Ingress.
\<close>

section \<open>Properties\<close>

text \<open>
  No two references of an object share a field path, whatever strings the object holds.
\<close>
lemma fieldPaths_distinct: "distinct (map FieldPath (referencesForObject obj))"
  unfolding referencesForObject_slots dedupeReferences_loop
  by (rule distinct_map_dedup_loop[OF distinct_present_paths])

text \<open>
  C4: for an object whose strings hold no NUL byte, the references the extractor returns are exactly
  those of the fields that name a Secret: one for every path of the table at which the object
  has a string that is not empty, with the container, key and optional flag found there. Each
  is returned once: not even two that differ share a field path.
\<close>
theorem referencesForObject_complete:
  assumes "json_nul_free (json_of_object obj)"
  shows "set (referencesForObject obj) = expected_references obj \<and>
    distinct (map FieldPath (referencesForObject obj))"
proof
  show "set (referencesForObject obj) = expected_references obj"
    using assms by (simp add: referencesForObject_present set_present)
qed (rule fieldPaths_distinct)

theorem referencesForObject_complete_witness:
  "json_nul_free (json_of_object example_pod) \<and>
   set (referencesForObject example_pod) = expected_references example_pod \<and>
   map FieldPath (referencesForObject example_pod) =
     [''.spec.imagePullSecrets[0].name'', ''.spec.containers[0].env[1].valueFrom.secretKeyRef.name'',
      ''.spec.containers[0].envFrom[0].secretRef.name'']"
proof (intro conjI)
  show "json_nul_free (json_of_object example_pod)" by (rule example_nul_free)
  show "set (referencesForObject example_pod) = expected_references example_pod"
    by (rule referencesForObject_complete[OF example_nul_free(1), THEN conjunct1])
  show "map FieldPath (referencesForObject example_pod) =
     [''.spec.imagePullSecrets[0].name'', ''.spec.containers[0].env[1].valueFrom.secretKeyRef.name'',
      ''.spec.containers[0].envFrom[0].secretRef.name'']"
    by code_simp
qed

text \<open>
  C8: every recorded field path can be read back, and following it in the object leads to the
  Secret name it was recorded with; the recorded key and optional flag are those beside that
  name, and the recorded container is the name found in the container the path goes through.
\<close>
theorem fieldPath_resolves:
  assumes "ref \<in> set (referencesForObject obj)"
  shows "\<exists>p c. parse_path (FieldPath ref) = Some p \<and> secretField obj p c \<and>
    json_get (json_of_object obj) p = Some (JStr (SecretName ref)) \<and>
    Key ref = str_at (json_of_object obj) (sibling p ''key'') \<and>
    Optional ref = bool_at (json_of_object obj) (sibling p ''optional'') \<and>
    Container ref = (case c of None \<Rightarrow> [] | Some q \<Rightarrow> str_at (json_of_object obj) (q @ [Fld ''name'']))"
proof -
  from assms have "ref \<in> expected_references obj" using referencesForObject_subset by blast
  then obtain p c where p: "secretField obj p c" "json_get (json_of_object obj) p = Some (JStr (SecretName ref))"
    and ref: "ref = field_reference (json_of_object obj) p c (SecretName ref)"
    by (auto simp: expected_references_def field_reference_def)
  have "FieldPath ref = render_path p" "Key ref = str_at (json_of_object obj) (sibling p ''key'')"
    "Optional ref = bool_at (json_of_object obj) (sibling p ''optional'')"
    "Container ref = (case c of None \<Rightarrow> [] | Some q \<Rightarrow> str_at (json_of_object obj) (q @ [Fld ''name'']))"
    by (subst ref, simp add: field_reference_def)+
  then show ?thesis using p by (metis parse_render secretField_wf)
qed

theorem fieldPath_resolves_witness:
  "\<exists>ref. ref \<in> set (referencesForObject example_pod) \<and> SecretName ref = ''db'' \<and> Key ref = ''token'' \<and>
    (\<exists>p c. parse_path (FieldPath ref) = Some p \<and> secretField example_pod p c \<and>
      json_get (json_of_object example_pod) p = Some (JStr ''db'') \<and>
      str_at (json_of_object example_pod) (sibling p ''key'') = ''token'')"
proof -
  let ?ref = "referencesForObject example_pod ! 1"
  have mem: "?ref \<in> set (referencesForObject example_pod)" "SecretName ?ref = ''db''" "Key ?ref = ''token''" by code_simp+
  show ?thesis using fieldPath_resolves[OF mem(1)] mem by (intro exI[of _ ?ref]) metis
qed

lemma slot_name: "SecretName (slot_reference s) = fst (snd s)"
  by (cases s) simp

text \<open>
  Each populated field is counted once. The usages of a Secret name in an object are as many as
  the fields of the table that hold the name: none is dropped as a duplicate and none is
  recorded twice.
\<close>
lemma usages_count_fields:
  assumes "json_nul_free (json_of_object obj)" and "n \<noteq> []"
  shows "length (usageReferencesForObject L obj n) =
    card {p. \<exists>c. secretField obj p c \<and> json_get (json_of_object obj) p = Some (JStr n)}"
proof -
  let ?ss = "filter (\<lambda>s. fst (snd s) = n) (object_slots obj)"
  have "length (usageReferencesForObject L obj n) = length ?ss"
  proof -
    have "fst (snd s) = n \<and> fst (snd s) \<noteq> [] \<longleftrightarrow> fst (snd s) = n" for s :: slot using assms(2) by blast
    then show ?thesis
      by (simp add: usageReferencesForObject_conv referencesForObject_present[OF assms(1)] present_def
          filter_map comp_def slot_name conj_commute)
  qed
  also have "\<dots> = card (set (map fst ?ss))"
    by (simp only: distinct_card[OF distinct_map_filter[OF distinct_object_slots]] length_map)
  also have "set (map fst ?ss) = {p. \<exists>c. secretField obj p c \<and> json_get (json_of_object obj) p = Some (JStr n)}"
    by (auto simp: object_spec[symmetric] spec_slots_def image_iff)
  finally show ?thesis .
qed

text \<open>
  C31: the index entries of an object are in strictly ascending order and name exactly the Secrets
  the object has usages of, so a lookup through the field index misses no reference.
\<close>
theorem index_matches_usages:
  "sorted_wrt (<) (SecretNamesForObject obj) \<and> [] \<notin> set (SecretNamesForObject obj) \<and>
   (n \<in> set (SecretNamesForObject obj) \<longleftrightarrow> usageReferencesForObject L obj n \<noteq> [])"
  by (intro conjI builtin_index.names_strictly_sorted builtin_index.names_not_empty
      builtin_index.names_iff_usages)

text \<open>
  C32: on references whose strings hold no NUL byte, \<open>dedupeReferences\<close> keeps exactly the first
  occurrence of every reference, in order: its string key never merges two different ones.
\<close>
theorem dedupeReferences_first_occurrences:
  assumes "list_all valid_reference refs"
  shows "dedupeReferences refs = firsts refs"
  using assms by (simp add: dedupeReferences_loop ref_key.dedup_loop_firsts list_all_iff)

theorem dedupeReferences_first_occurrences_witness:
  "(let r = (\<lambda>n p. \<lparr>SecretName = n, FieldPath = p, Container = [], Key = [], Optional = None\<rparr>) in
    list_all valid_reference [r ''a'' ''x'', r ''b'' ''x'', r ''a'' ''x''] \<and>
    dedupeReferences [r ''a'' ''x'', r ''b'' ''x'', r ''a'' ''x''] = [r ''a'' ''x'', r ''b'' ''x''])"
proof -
  let ?r = "\<lambda>n p. \<lparr>SecretName = n, FieldPath = p, Container = [], Key = [], Optional = None\<rparr>"
  have v: "list_all valid_reference [?r ''a'' ''x'', ?r ''b'' ''x'', ?r ''a'' ''x'']"
    by (simp add: valid_reference_def nul_free_Cons)
  show ?thesis
    using v dedupeReferences_first_occurrences[OF v] by (simp add: firsts_def)
qed

text \<open>
  C39: a Pod counts as covered exactly when one of its owners is marked as its controller and is of
  one of the five tracked kinds, in the group version the controller tracks: no other way of
  splitting the joined string \<open>apiVersion|kind\<close> matches.
\<close>
theorem PodIsCoveredByController_iff:
  "PodIsCoveredByController m \<longleftrightarrow>
     (\<exists>owner. owner \<in> set (OwnerReferences m) \<and> or_Controller owner = Some True \<and>
        (or_APIVersion owner, or_Kind owner) \<in>
          {(''apps/v1'', ''ReplicaSet''), (''apps/v1'', ''StatefulSet''), (''apps/v1'', ''DaemonSet''),
           (''batch/v1'', ''Job''), (''v1'', ''ReplicationController'')})"
proof -
  have split: "a @ ''|'' @ k = a' @ CHR ''|'' # k' \<longleftrightarrow> a = a' \<and> k = k'"
    if "CHR ''|'' \<notin> set a'" "CHR ''|'' \<notin> set k'" for a k a' k' :: string
    using that(1)
  proof (induction a arbitrary: a')
    case Nil
    then show ?case by (cases a') auto
  next
    case (Cons x a)
    show ?case
    proof (cases a')
      case Nil
      with that(2) show ?thesis by auto
    next
      case (Cons y b)
      with Cons.prems Cons.IH[of b] show ?thesis by auto
    qed
  qed
  have key: "a @ ''|'' @ k \<in> set podControllerKinds \<longleftrightarrow> (a, k) \<in>
      {(''apps/v1'', ''ReplicaSet''), (''apps/v1'', ''StatefulSet''), (''apps/v1'', ''DaemonSet''),
       (''batch/v1'', ''Job''), (''v1'', ''ReplicationController'')}" for a k
    using split[of "''apps/v1''" "''ReplicaSet''" a k] split[of "''apps/v1''" "''StatefulSet''" a k]
      split[of "''apps/v1''" "''DaemonSet''" a k] split[of "''batch/v1''" "''Job''" a k]
      split[of "''v1''" "''ReplicationController''" a k]
    by (simp add: podControllerKinds_def)
  have "covered_by_owner owners \<longleftrightarrow> (\<exists>owner. owner \<in> set owners \<and> or_Controller owner = Some True \<and>
      or_APIVersion owner @ ''|'' @ or_Kind owner \<in> set podControllerKinds)" for owners
  proof (induction owners)
    case (Cons owner rest)
    then show ?case by (cases "or_Controller owner") (auto split: if_splits)
  qed simp
  then show ?thesis by (simp only: PodIsCoveredByController_def key)
qed

end
