(* ===== verification/UsageOrder.thy ===== *)
theory UsageOrder
  imports UsageApi SecretRefs
begin

text \<open>
  \<open>usageReferenceLess\<close> of \<open>internal/controller/secret_refs.go\<close>, the order of the recorded
  references: the nine strings of an entry are compared in turn. It is a strict linear order
  on entries, so it instantiates the sorting interface of the prelude and the library's
  class of linear orders, and the sorted list of a collection of entries is unique.
\<close>

definition usage_strings :: "secretUsageReference \<Rightarrow> string list" where
  "usage_strings a = [u_APIVersion a, u_Kind a, u_Namespace a, u_Name a, u_FieldPath a, u_Container a,
     u_Key a, boolPtrValue (u_Optional a), u_UID a]"

text \<open>\<open>for i := range left { if left[i] == right[i] { continue }; return left[i] < right[i] }\<close>\<close>

fun less_loop :: "string list \<Rightarrow> string list \<Rightarrow> bool" where
  "less_loop (l # left) (r # right) = (if l = r then less_loop left right else l < r)"
| "less_loop _ _ = False"

definition usageReferenceLess :: "secretUsageReference \<Rightarrow> secretUsageReference \<Rightarrow> bool" where
  "usageReferenceLess a b = (let left = usage_strings a; right = usage_strings b in less_loop left right)"

lemma less_loop_irrefl: "\<not> less_loop xs xs"
  by (induction xs) auto

lemma less_loop_trans: "length xs = length ys \<Longrightarrow> length ys = length zs \<Longrightarrow>
    less_loop xs ys \<Longrightarrow> less_loop ys zs \<Longrightarrow> less_loop xs zs"
proof (induction xs ys arbitrary: zs rule: list_induct2')
  case (4 x xs y ys)
  then show ?case by (cases zs) (auto split: if_splits)
qed auto

lemma less_loop_linear: "length xs = length ys \<Longrightarrow> less_loop xs ys \<or> xs = ys \<or> less_loop ys xs"
  by (induction xs ys rule: list_induct2') auto

lemma usage_strings_inject [simp]: "usage_strings a = usage_strings b \<longleftrightarrow> a = b"
  by (auto simp: usage_strings_def intro: secretUsageReference.equality)

lemma length_usage_strings: "length (usage_strings a) = length (usage_strings b)"
  by (simp add: usage_strings_def)

interpretation usage_order: strict_linear usageReferenceLess
proof
  show "\<not> usageReferenceLess x x" for x
    by (simp add: usageReferenceLess_def less_loop_irrefl)
  show "usageReferenceLess x y \<Longrightarrow> usageReferenceLess y z \<Longrightarrow> usageReferenceLess x z" for x y z
    using less_loop_trans[OF length_usage_strings length_usage_strings]
    by (simp add: usageReferenceLess_def)
  show "usageReferenceLess x y \<or> x = y \<or> usageReferenceLess y x" for x y
    using less_loop_linear[OF length_usage_strings, of x y] by (simp add: usageReferenceLess_def)
qed

section \<open>Entries as a linear order of the library\<close>

instantiation secretUsageReference_ext :: (linorder) linorder
begin

definition less_secretUsageReference_ext ::
    "'a secretUsageReference_scheme \<Rightarrow> 'a secretUsageReference_scheme \<Rightarrow> bool" where
  "less_secretUsageReference_ext a b \<longleftrightarrow>
     less_loop (usage_strings (secretUsageReference.truncate a)) (usage_strings (secretUsageReference.truncate b)) \<or>
     secretUsageReference.truncate a = secretUsageReference.truncate b \<and>
     secretUsageReference.more a < secretUsageReference.more b"

definition less_eq_secretUsageReference_ext ::
    "'a secretUsageReference_scheme \<Rightarrow> 'a secretUsageReference_scheme \<Rightarrow> bool" where
  "less_eq_secretUsageReference_ext a b \<longleftrightarrow> a < b \<or> a = b"

instance
proof
  fix x y z :: "'a secretUsageReference_scheme"
  let ?t = secretUsageReference.truncate
  have ext: "?t x = ?t y \<Longrightarrow> secretUsageReference.more x = secretUsageReference.more y \<Longrightarrow> x = y" for x y :: "'a secretUsageReference_scheme"
    by (cases x; cases y) (simp add: secretUsageReference.truncate_def)
  note facts = usage_order.irreflexive[unfolded usageReferenceLess_def Let_def]
    usage_order.transitive[unfolded usageReferenceLess_def Let_def]
    usage_order.linear[unfolded usageReferenceLess_def Let_def]
  have irr: "\<not> x < x" for x :: "'a secretUsageReference_scheme"
    using facts(1) by (simp add: less_secretUsageReference_ext_def)
  have tr: "x < y \<Longrightarrow> y < z \<Longrightarrow> x < z" for x y z :: "'a secretUsageReference_scheme"
    unfolding less_secretUsageReference_ext_def by (metis facts(2) order_less_trans)
  show "x < y \<longleftrightarrow> x \<le> y \<and> \<not> y \<le> x"
    unfolding less_eq_secretUsageReference_ext_def by (metis irr tr)
  show "x \<le> x" by (simp add: less_eq_secretUsageReference_ext_def)
  show "x \<le> y \<Longrightarrow> y \<le> z \<Longrightarrow> x \<le> z"
    unfolding less_eq_secretUsageReference_ext_def by (metis tr)
  show "x \<le> y \<Longrightarrow> y \<le> x \<Longrightarrow> x = y"
    unfolding less_eq_secretUsageReference_ext_def by (metis irr tr)
  show "x \<le> y \<or> y \<le> x"
    unfolding less_eq_secretUsageReference_ext_def less_secretUsageReference_ext_def
    by (metis facts(3) ext linorder_less_linear)
qed

end

lemma less_usageReferenceLess: "a < b \<longleftrightarrow> usageReferenceLess a (b :: secretUsageReference)"
proof -
  have "secretUsageReference.truncate c = c" for c :: secretUsageReference
    by (cases c) (simp add: secretUsageReference.truncate_def)
  then show ?thesis by (simp add: less_secretUsageReference_ext_def usageReferenceLess_def)
qed

lemma sort_usages: "sort_Slice usageReferenceLess us = sort (us :: secretUsageReference list)"
proof -
  have "usageReferenceLess = (<)" by (auto simp: fun_eq_iff less_usageReferenceLess)
  then show ?thesis by (simp add: sort_Slice_linorder)
qed

section \<open>Properties\<close>

text \<open>
  C35: \<open>usageReferenceLess\<close> is a strict linear order in which two entries are tied only when they
  are equal, so every list in its order that holds the given entries, whichever algorithm made
  it and in whichever order the entries arrived, is the one the model's sort returns.
\<close>
theorem sorted_usages_unique:
  assumes "mset ys = mset xs"
    and "sorted_wrt (\<lambda>a b. \<not> usageReferenceLess b a) ys"
  shows "ys = sort_Slice usageReferenceLess xs"
  using assms by (intro usage_order.sort_any_algorithm) (auto simp: usage_order.le_not_less)

definition example_usage :: "string \<Rightarrow> bool option \<Rightarrow> secretUsageReference" where
  "example_usage n ob = \<lparr>u_APIVersion = ''v1'', u_Kind = ''Pod'', u_Namespace = ''default'', u_Name = n, u_UID = ''1'',
     u_FieldPath = ''.spec'', u_Container = [], u_Key = [], u_Optional = ob\<rparr>"

theorem sorted_usages_unique_witness:
  "[example_usage ''a'' None, example_usage ''a'' (Some True), example_usage ''b'' None] =
   sort_Slice usageReferenceLess
     [example_usage ''b'' None, example_usage ''a'' (Some True), example_usage ''a'' None]"
  by (rule sorted_usages_unique) (simp, code_simp)

end
