(* ===== verification/Rules.thy ===== *)
theory Rules
  imports RefSpec
begin

text \<open>
  \<open>internal/controller/rules.go\<close>: the rules that say where custom resources name Secrets. A
  rules file is read and compiled once at startup (\<open>LoadRules\<close>, \<open>CompileRules\<close>); a compiled
  rule then plays the part of the built-in extractors for its kind (\<open>rule_references\<close>,
  \<open>secretNames\<close>, and \<open>ruleUsageReferences\<close> of the reconciler), and provides the same
  interface \<open>secret_index\<close>. JSONPath parsing and evaluation, \<open>ParseGroupVersion\<close>, file
  access and YAML decoding belong to libraries and are parameters.
\<close>

record referenceRule =
  rr_APIVersion :: string
  rr_Kind :: string
  Resource :: string
  Paths :: "string list"

record 'jp compiledPath =
  "expression" :: string
  jsonPath :: 'jp

record 'jp compiledRule =
  GVK :: groupVersionKind
  "paths" :: "'jp compiledPath list"

section \<open>The kinds tracked in code\<close>

definition zero_podSpec :: podSpec where
  "zero_podSpec = \<lparr>ImagePullSecrets = [], Volumes = [], InitContainers = [], Containers = [], EphemeralContainers = []\<rparr>"

definition zero_template :: podTemplateSpec where
  "zero_template = \<lparr>pts_Spec = zero_podSpec\<rparr>"

definition IndexedObjects :: "clientObject list" where
  "IndexedObjects =
     [Pod zero_meta zero_podSpec,
      Deployment zero_meta zero_template,
      StatefulSet zero_meta zero_template,
      DaemonSet zero_meta zero_template,
      Job zero_meta zero_template,
      CronJob zero_meta zero_template,
      ReplicaSet zero_meta zero_template,
      ReplicationController zero_meta None,
      ServiceAccount zero_meta [] [],
      Ingress zero_meta []]"

definition builtInGroupVersionKinds :: "'jp lib \<Rightarrow> groupVersionKind list" where
  "builtInGroupVersionKinds L =
     fold (\<lambda>obj builtIn.
         let (apiVersion, kind) = apiVersionKindForObject L obj in
         case ParseGroupVersion L apiVersion of
           Inl _ \<Rightarrow> builtIn
         | Inr groupVersion \<Rightarrow> builtIn @ [WithKind groupVersion kind])
       IndexedObjects []"

section \<open>Compiling\<close>

definition normalizeJSONPath :: "string \<Rightarrow> string" where
  "normalizeJSONPath expr =
     (let trimmed = TrimSpace expr in
      if HasPrefix trimmed ''{'' then trimmed else ''{'' @ trimmed @ ''}'')"

text \<open>The inner loop over a rule's expressions; \<open>i\<close> is the rule's position.\<close>

fun compile_paths :: "'jp lib \<Rightarrow> nat \<Rightarrow> referenceRule \<Rightarrow> string list \<Rightarrow> goError + 'jp compiledPath list" where
  "compile_paths L i rule [] = Inr []"
| "compile_paths L i rule (expr # exprs) =
     (let normalized = normalizeJSONPath expr in
      case jsonpath_Parse L (rr_Kind rule @ ''/'' @ expr) True normalized of
        Inl err \<Rightarrow> Inl (ErrRulePath i (rr_APIVersion rule) (rr_Kind rule) expr err)
      | Inr parser \<Rightarrow>
          (case compile_paths L i rule exprs of
             Inl err \<Rightarrow> Inl err
           | Inr ps \<Rightarrow> Inr (\<lparr>expression = expr, jsonPath = parser\<rparr> # ps)))"

text \<open>One turn of the outer loop: the compiled rule, whose kind is then recorded as seen.\<close>

definition compile_rule ::
    "'jp lib \<Rightarrow> groupVersionKind list \<Rightarrow> nat \<Rightarrow> groupVersionKind list \<Rightarrow> referenceRule \<Rightarrow> goError + 'jp compiledRule" where
  "compile_rule L builtIn i seen rule =
     (if rr_APIVersion rule = [] \<or> rr_Kind rule = [] then Inl (ErrRuleFields i)
      else if Paths rule = [] then Inl (ErrRuleNoPath i (rr_APIVersion rule) (rr_Kind rule))
      else case ParseGroupVersion L (rr_APIVersion rule) of
        Inl err \<Rightarrow> Inl (ErrRuleAPIVersion i (rr_APIVersion rule) err)
      | Inr groupVersion \<Rightarrow>
          (let gvk = WithKind groupVersion (rr_Kind rule) in
           if gvk \<in> set builtIn then Inl (ErrRuleBuiltIn i (rr_APIVersion rule) (rr_Kind rule))
           else if gvk \<in> set seen then Inl (ErrRuleDuplicate i (rr_APIVersion rule) (rr_Kind rule))
           else case compile_paths L i rule (Paths rule) of
             Inl err \<Rightarrow> Inl err
           | Inr ps \<Rightarrow> Inr \<lparr>GVK = gvk, paths = ps\<rparr>))"

fun compile_loop ::
    "'jp lib \<Rightarrow> groupVersionKind list \<Rightarrow> nat \<Rightarrow> groupVersionKind list \<Rightarrow> 'jp compiledRule list \<Rightarrow>
     referenceRule list \<Rightarrow> goError + 'jp compiledRule list" where
  "compile_loop L builtIn i seen compiled [] = Inr compiled"
| "compile_loop L builtIn i seen compiled (rule # rules) =
     (case compile_rule L builtIn i seen rule of
        Inl err \<Rightarrow> Inl err
      | Inr c \<Rightarrow> compile_loop L builtIn (Suc i) (GVK c # seen) (compiled @ [c]) rules)"

definition CompileRules :: "'jp lib \<Rightarrow> referenceRule list \<Rightarrow> goError + 'jp compiledRule list" where
  "CompileRules L rules =
     (let builtIn = builtInGroupVersionKinds L in compile_loop L builtIn 0 [] [] rules)"

text \<open>
  \<open>LoadRules\<close> with \<open>os.ReadFile\<close> and \<open>yaml.UnmarshalStrict\<close> (into a \<open>RuleSet\<close>, of which only
  the \<open>Rules\<close> are used) as arguments.
\<close>

definition LoadRules ::
    "'jp lib \<Rightarrow> (string \<Rightarrow> goError + string) \<Rightarrow> (string \<Rightarrow> goError + referenceRule list) \<Rightarrow> string \<Rightarrow>
     goError + 'jp compiledRule list" where
  "LoadRules L ReadFile UnmarshalStrict path =
     (if path = [] then Inr []
      else case ReadFile path of
        Inl err \<Rightarrow> Inl (ErrReadRules path err)
      | Inr raw \<Rightarrow>
          (case UnmarshalStrict raw of
             Inl err \<Rightarrow> Inl (ErrParseRules path err)
           | Inr rules \<Rightarrow> CompileRules L rules))"

section \<open>Using a compiled rule\<close>

definition rule_Object :: "'jp lib \<Rightarrow> 'jp compiledRule \<Rightarrow> clientObject" where
  "rule_Object L c = Unstructured
     \<lparr>un_GVK = GVK c, un_Namespace = [], un_Name = [], un_UID = [],
      un_Object = JObj [(''apiVersion'', JStr (gvString L (GroupVersion (GVK c)))), (''kind'', JStr (Kind (GVK c)))]\<rparr>"

definition rule_references :: "'jp lib \<Rightarrow> 'jp compiledRule \<Rightarrow> unstructuredObj \<Rightarrow> objectSecretReference list" where
  "rule_references L c obj =
     (let refs = [];
          refs = fold (\<lambda>path refs.
              case FindResults L (jsonPath path) (un_Object obj) of
                Inl _ \<Rightarrow> refs
              | Inr results \<Rightarrow>
                  fold (\<lambda>group refs.
                      fold (\<lambda>value refs.
                          case value of
                            JStr name \<Rightarrow>
                              (if name = [] then refs
                               else refs @ [\<lparr>SecretName = name, FieldPath = expression path,
                                             Container = [], Key = [], Optional = None\<rparr>])
                          | _ \<Rightarrow> refs)
                        group refs)
                    results refs)
            (paths c) refs
      in dedupeReferences refs)"

fun secretNames :: "'jp lib \<Rightarrow> 'jp compiledRule \<Rightarrow> clientObject \<Rightarrow> string list" where
  "secretNames L c (Unstructured u) = uniqueSortedSecretNames (rule_references L c u)"
| "secretNames L c _ = []"

text \<open>From \<open>secretusage_controller.go\<close>.\<close>

definition ruleUsageReferences ::
    "'jp lib \<Rightarrow> 'jp compiledRule \<Rightarrow> unstructuredObj \<Rightarrow> string \<Rightarrow> secretUsageReference list" where
  "ruleUsageReferences L rule obj secretName =
     fold (\<lambda>ref usages.
         if SecretName ref \<noteq> secretName then usages
         else usages @ [\<lparr>u_APIVersion = gvString L (GroupVersion (GVK rule)), u_Kind = Kind (GVK rule),
                         u_Namespace = un_Namespace obj, u_Name = un_Name obj, u_UID = un_UID obj,
                         u_FieldPath = FieldPath ref, u_Container = [], u_Key = [], u_Optional = None\<rparr>])
       (rule_references L rule obj) []"

section \<open>What a rule finds\<close>

definition found :: "'jp lib \<Rightarrow> 'jp compiledPath \<Rightarrow> unstructuredObj \<Rightarrow> string list" where
  "found L path obj = (case FindResults L (jsonPath path) (un_Object obj) of
     Inl _ \<Rightarrow> []
   | Inr results \<Rightarrow> concat (map (\<lambda>v. case v of JStr n \<Rightarrow> if n = [] then [] else [n] | _ \<Rightarrow> []) (concat results)))"

definition found_reference :: "'jp compiledPath \<Rightarrow> string \<Rightarrow> objectSecretReference" where
  "found_reference path n =
     \<lparr>SecretName = n, FieldPath = expression path, Container = [], Key = [], Optional = None\<rparr>"

lemma rule_references_conv:
  "rule_references L c obj =
     dedupeReferences (concat (map (\<lambda>path. map (found_reference path) (found L path obj)) (paths c)))"
proof -
  let ?one = "\<lambda>path v. case v of JStr n \<Rightarrow> if n = [] then [] else [found_reference path n] | _ \<Rightarrow> []"
  have vals: "fold (\<lambda>value refs. case value of JStr name \<Rightarrow>
        (if name = [] then refs else refs @ [\<lparr>SecretName = name, FieldPath = expression path,
           Container = [], Key = [], Optional = None\<rparr>]) | _ \<Rightarrow> refs) group refs =
      refs @ concat (map (?one path) group)" for path :: "'a compiledPath" and group refs
    by (induction group arbitrary: refs) (auto simp: found_reference_def split: json.split)
  have results: "fold (\<lambda>group refs. refs @ concat (map (?one path) group)) results refs =
      refs @ concat (map (?one path) (concat results))" for path :: "'a compiledPath" and results refs
    by (induction results arbitrary: refs) auto
  have names: "concat (map (?one path) vs) = map (found_reference path)
      (concat (map (\<lambda>v. case v of JStr n \<Rightarrow> if n = [] then [] else [n] | _ \<Rightarrow> []) vs))" for path :: "'a compiledPath" and vs
    by (induction vs) (auto split: json.split)
  have path: "(case FindResults L (jsonPath path) (un_Object obj) of Inl _ \<Rightarrow> refs
        | Inr results \<Rightarrow> refs @ concat (map (?one path) (concat results))) =
      refs @ map (found_reference path) (found L path obj)" for path refs
    unfolding names by (simp add: found_def split: sum.split)
  show ?thesis
    unfolding rule_references_def Let_def vals results path fold_append_concat by simp
qed

lemma found_named: "n \<in> set (found L path obj) \<Longrightarrow> n \<noteq> []"
  by (auto simp: found_def split: sum.splits json.splits if_splits)

interpretation rule_index: secret_index "rule_references L c" "\<lambda>u. secretNames L c (Unstructured u)" "ruleUsageReferences L c"
  for L :: "'jp lib" and c :: "'jp compiledRule"
proof
  show "secretNames L c (Unstructured u) = uniqueSortedSecretNames (rule_references L c u)" for u by simp
  show "ref \<in> set (rule_references L c u) \<Longrightarrow> SecretName ref \<noteq> []" for ref u
    using set_dedupe_subset by (fastforce simp: rule_references_conv found_reference_def dest: found_named)
  have loop: "fold (\<lambda>ref usages. if SecretName ref \<noteq> n then usages else usages @ [f ref]) refs acc =
      acc @ map f (filter (\<lambda>ref. SecretName ref = n) refs)" for f :: "_ \<Rightarrow> secretUsageReference" and refs acc n
    by (induction refs arbitrary: acc) auto
  show "length (ruleUsageReferences L c u n) = length (filter (\<lambda>ref. SecretName ref = n) (rule_references L c u))" for u n
    unfolding ruleUsageReferences_def loop by simp
qed

section \<open>What compiling accepts\<close>

definition rule_gvk :: "'jp lib \<Rightarrow> referenceRule \<Rightarrow> groupVersionKind" where
  "rule_gvk L rule = (case ParseGroupVersion L (rr_APIVersion rule) of
     Inr gv \<Rightarrow> WithKind gv (rr_Kind rule) | Inl _ \<Rightarrow> WithKind \<lparr>gv_Group = [], gv_Version = []\<rparr> (rr_Kind rule))"

definition path_parses :: "'jp lib \<Rightarrow> referenceRule \<Rightarrow> string \<Rightarrow> bool" where
  "path_parses L rule expr \<longleftrightarrow>
     \<not> isl (jsonpath_Parse L (rr_Kind rule @ ''/'' @ expr) True (normalizeJSONPath expr))"

text \<open>A rule that is fine on its own: what does not depend on the rules before it.\<close>

definition rule_ok :: "'jp lib \<Rightarrow> referenceRule \<Rightarrow> bool" where
  "rule_ok L rule \<longleftrightarrow>
     rr_APIVersion rule \<noteq> [] \<and> rr_Kind rule \<noteq> [] \<and> Paths rule \<noteq> [] \<and>
     \<not> isl (ParseGroupVersion L (rr_APIVersion rule)) \<and>
     rule_gvk L rule \<notin> set (builtInGroupVersionKinds L) \<and>
     list_all (path_parses L rule) (Paths rule)"

definition compiles_to :: "'jp lib \<Rightarrow> referenceRule \<Rightarrow> 'jp compiledRule \<Rightarrow> bool" where
  "compiles_to L rule c \<longleftrightarrow> GVK c = rule_gvk L rule \<and>
     map expression (paths c) = Paths rule \<and>
     map (\<lambda>p. Inr (jsonPath p)) (paths c) =
       map (\<lambda>expr. jsonpath_Parse L (rr_Kind rule @ ''/'' @ expr) True (normalizeJSONPath expr)) (Paths rule)"

lemma compile_paths_Inr:
  "compile_paths L i rule exprs = Inr ps \<Longrightarrow>
     list_all (path_parses L rule) exprs \<and> map expression ps = exprs \<and>
     map (\<lambda>p. Inr (jsonPath p)) ps =
       map (\<lambda>expr. jsonpath_Parse L (rr_Kind rule @ ''/'' @ expr) True (normalizeJSONPath expr)) exprs"
  by (induction exprs arbitrary: ps) (auto simp: path_parses_def Let_def split: sum.splits)

lemma compile_paths_ok:
  "list_all (path_parses L rule) exprs \<Longrightarrow> \<exists>ps. compile_paths L i rule exprs = Inr ps"
  by (induction exprs) (auto simp: path_parses_def Let_def isl_def split: sum.splits)

lemma compile_rule_Inr:
  assumes "compile_rule L (builtInGroupVersionKinds L) i seen rule = Inr c"
  shows "rule_ok L rule" and "compiles_to L rule c" and "GVK c \<notin> set seen"
  using assms
  by (auto simp: compile_rule_def rule_ok_def compiles_to_def rule_gvk_def Let_def
      split: if_splits sum.splits dest: compile_paths_Inr)

lemma compile_rule_ok:
  "rule_ok L rule \<Longrightarrow> rule_gvk L rule \<notin> set seen \<Longrightarrow>
     \<exists>c. compile_rule L (builtInGroupVersionKinds L) i seen rule = Inr c"
  using compile_paths_ok[of L rule "Paths rule" i]
  by (auto simp: compile_rule_def rule_ok_def rule_gvk_def Let_def split: sum.splits)

lemma compile_loop_Inr:
  assumes "compile_loop L (builtInGroupVersionKinds L) i seen acc rules = Inr cs"
  shows "\<exists>ds. cs = acc @ ds \<and> list_all2 (compiles_to L) rules ds \<and> list_all (rule_ok L) rules \<and>
    distinct (map (rule_gvk L) rules) \<and> set (map (rule_gvk L) rules) \<inter> set seen = {}"
  using assms
proof (induction rules arbitrary: i seen acc)
  case Nil
  then show ?case by simp
next
  case (Cons rule rules)
  then obtain c where c: "compile_rule L (builtInGroupVersionKinds L) i seen rule = Inr c"
    and rest: "compile_loop L (builtInGroupVersionKinds L) (Suc i) (GVK c # seen) (acc @ [c]) rules = Inr cs"
    by (auto split: sum.splits)
  from Cons.IH[OF rest] obtain ds where ds: "cs = acc @ c # ds" "list_all2 (compiles_to L) rules ds"
      "list_all (rule_ok L) rules" "distinct (map (rule_gvk L) rules)"
      "set (map (rule_gvk L) rules) \<inter> set (GVK c # seen) = {}"
    by auto
  moreover have "rule_gvk L rule = GVK c" using compile_rule_Inr(2)[OF c] by (simp add: compiles_to_def)
  ultimately show ?case
    using compile_rule_Inr[OF c] by (intro exI[of _ "c # ds"]) auto
qed

lemma compile_loop_ok:
  "list_all (rule_ok L) rules \<Longrightarrow> distinct (map (rule_gvk L) rules) \<Longrightarrow>
     set (map (rule_gvk L) rules) \<inter> set seen = {} \<Longrightarrow>
     \<exists>cs. compile_loop L (builtInGroupVersionKinds L) i seen acc rules = Inr cs"
proof (induction rules arbitrary: i seen acc)
  case (Cons rule rules)
  then obtain c where c: "compile_rule L (builtInGroupVersionKinds L) i seen rule = Inr c"
    using compile_rule_ok[of L rule seen i] by auto
  have "GVK c = rule_gvk L rule" using compile_rule_Inr(2)[OF c] by (simp add: compiles_to_def)
  with Cons c show ?case by auto
qed simp

text \<open>The position an error names.\<close>

fun error_rule :: "goError \<Rightarrow> nat option" where
  "error_rule (ErrRuleFields i) = Some i"
| "error_rule (ErrRuleNoPath i _ _) = Some i"
| "error_rule (ErrRuleAPIVersion i _ _) = Some i"
| "error_rule (ErrRuleBuiltIn i _ _) = Some i"
| "error_rule (ErrRuleDuplicate i _ _) = Some i"
| "error_rule (ErrRulePath i _ _ _ _) = Some i"
| "error_rule _ = None"

lemma compile_paths_error: "compile_paths L i rule exprs = Inl e \<Longrightarrow> error_rule e = Some i"
  by (induction exprs) (auto simp: Let_def split: sum.splits)

lemma compile_rule_error: "compile_rule L b i seen rule = Inl e \<Longrightarrow> error_rule e = Some i"
  by (auto simp: compile_rule_def Let_def split: if_splits sum.splits dest: compile_paths_error)

text \<open>
  The checks of a rule in the order they are made, each with its error, given the rules before it
  in the file; and the error of the first one that fails.
\<close>

definition rule_checks :: "'jp lib \<Rightarrow> referenceRule list \<Rightarrow> referenceRule \<Rightarrow> (bool \<times> goError) list" where
  "rule_checks L before rule =
     (let i = length before; av = rr_APIVersion rule; kind = rr_Kind rule in
      [(av = [] \<or> kind = [], ErrRuleFields i),
       (Paths rule = [], ErrRuleNoPath i av kind),
       (isl (ParseGroupVersion L av), ErrRuleAPIVersion i av (projl (ParseGroupVersion L av))),
       (rule_gvk L rule \<in> set (builtInGroupVersionKinds L), ErrRuleBuiltIn i av kind),
       (rule_gvk L rule \<in> rule_gvk L ` set before, ErrRuleDuplicate i av kind)] @
      map (\<lambda>expr. (\<not> path_parses L rule expr, ErrRulePath i av kind expr
         (projl (jsonpath_Parse L (kind @ ''/'' @ expr) True (normalizeJSONPath expr))))) (Paths rule))"

definition first_fault :: "'jp lib \<Rightarrow> referenceRule list \<Rightarrow> referenceRule \<Rightarrow> goError option" where
  "first_fault L before rule = map_option snd (find fst (rule_checks L before rule))"

lemma compile_paths_fault:
  "compile_paths L i rule exprs = Inl e \<Longrightarrow>
   map_option snd (find fst (map (\<lambda>expr. (\<not> path_parses L rule expr, ErrRulePath i (rr_APIVersion rule) (rr_Kind rule) expr
       (projl (jsonpath_Parse L (rr_Kind rule @ ''/'' @ expr) True (normalizeJSONPath expr))))) exprs)) = Some e"
  by (induction exprs) (auto simp: path_parses_def Let_def isl_def split: sum.splits if_splits)

lemma compile_rule_fault:
  assumes "compile_rule L (builtInGroupVersionKinds L) (length before) seen rule = Inl e"
    and "set seen = rule_gvk L ` set before"
  shows "first_fault L before rule = Some e"
proof (cases "ParseGroupVersion L (rr_APIVersion rule)")
  case (Inl err)
  then show ?thesis using assms by (auto simp: compile_rule_def first_fault_def rule_checks_def Let_def split: if_splits)
next
  case (Inr gv)
  then have gvk: "rule_gvk L rule = WithKind gv (rr_Kind rule)" by (simp add: rule_gvk_def)
  show ?thesis
    using assms compile_paths_fault[of L "length before" rule "Paths rule" e] unfolding compile_rule_def Inr gvk[symmetric] sum.case Let_def
    by (auto simp: first_fault_def rule_checks_def Let_def Inr split: if_splits sum.splits)
qed

lemma compile_loop_error:
  assumes "compile_loop L (builtInGroupVersionKinds L) (length before) seen acc rules = Inl e"
    and "set seen = rule_gvk L ` set before"
  shows "\<exists>k < length rules. error_rule e = Some (length before + k) \<and>
    first_fault L (before @ take k rules) (rules ! k) = Some e \<and>
    (\<exists>cs. compile_loop L (builtInGroupVersionKinds L) (length before) seen acc (take k rules) = Inr cs) \<and>
    compile_loop L (builtInGroupVersionKinds L) (length before) seen acc (take (Suc k) rules) = Inl e"
  using assms
proof (induction rules arbitrary: before seen acc)
  case (Cons rule rules)
  show ?case
  proof (cases "compile_rule L (builtInGroupVersionKinds L) (length before) seen rule")
    case (Inl e')
    with Cons.prems show ?thesis
      using compile_rule_fault[of L before seen rule e'] by (auto dest: compile_rule_error intro!: exI[of _ 0])
  next
    case (Inr c)
    then have "GVK c = rule_gvk L rule" using compile_rule_Inr(2)[OF Inr] by (simp add: compiles_to_def)
    then have "set (GVK c # seen) = rule_gvk L ` set (before @ [rule])" using Cons.prems(2) by simp
    with Cons.prems(1) Inr Cons.IH[of "before @ [rule]" "GVK c # seen" "acc @ [c]"] obtain k where k: "k < length rules"
      "error_rule e = Some (Suc (length before) + k)" "first_fault L ((before @ [rule]) @ take k rules) (rules ! k) = Some e"
      "\<exists>cs. compile_loop L (builtInGroupVersionKinds L) (Suc (length before)) (GVK c # seen) (acc @ [c]) (take k rules) = Inr cs"
      "compile_loop L (builtInGroupVersionKinds L) (Suc (length before)) (GVK c # seen) (acc @ [c]) (take (Suc k) rules) = Inl e"
      by auto
    with Inr show ?thesis by (intro exI[of _ "Suc k"]) auto
  qed
qed simp

end
