(* ===== verification/RuleProps.thy ===== *)
theory RuleProps
  imports Rules Examples
begin

text \<open>
  The properties of the rules for custom resources (\<open>internal/controller/rules.go\<close>).
\<close>

section \<open>Compiling rules\<close>

text \<open>
  C28: a rule set compiles exactly when every rule is fine on its own (apiVersion, kind and a path
  given, the group version and every path parse, the kind is not tracked in code) and no two
  rules are for the same kind. So a rule set with a typo never starts up.
\<close>
theorem CompileRules_accepts:
  "(\<exists>cs. CompileRules L rules = Inr cs) \<longleftrightarrow>
     list_all (rule_ok L) rules \<and> distinct (map (rule_gvk L) rules)"
  using compile_loop_ok[of L rules "[]" 0 "[]"] compile_loop_Inr[of L 0 "[]" "[]" rules]
  by (auto simp: CompileRules_def Let_def)

text \<open>
  C30: the compiled rules correspond one to one, in order, to the rules of the file: each has the
  group, version and kind of its rule and the parsed form of each of its paths, normalised.
  No kind occurs twice and none is one that is tracked in code.
\<close>
theorem CompileRules_result:
  assumes "CompileRules L rules = Inr cs"
  shows "list_all2 (compiles_to L) rules cs \<and> distinct (map GVK cs) \<and>
    set (map GVK cs) \<inter> set (builtInGroupVersionKinds L) = {}"
proof -
  from assms have l: "list_all2 (compiles_to L) rules cs" and ok: "list_all (rule_ok L) rules"
    and d: "distinct (map (rule_gvk L) rules)"
    using compile_loop_Inr[of L 0 "[]" "[]" rules cs] by (auto simp: CompileRules_def Let_def)
  from l have "map GVK cs = map (rule_gvk L) rules"
    by (induction rule: list_all2_induct) (auto simp: compiles_to_def)
  with l ok d show ?thesis by (auto simp: list_all_iff rule_ok_def)
qed

definition example_rules :: "referenceRule list" where
  "example_rules =
     [\<lparr>rr_APIVersion = ''cert-manager.io/v1'', rr_Kind = ''Certificate'', Resource = ''certificates'',
       Paths = ['' {.spec.secretName}'', ''.spec.keystore.name'']\<rparr>]"

definition example_compiled :: "path compiledRule" where
  "example_compiled =
     \<lparr>GVK = \<lparr>gvk_Group = ''cert-manager.io'', gvk_Version = ''v1'', Kind = ''Certificate''\<rparr>,
      paths = [\<lparr>expression = '' {.spec.secretName}'', jsonPath = [Fld ''spec'', Fld ''secretName'']\<rparr>,
               \<lparr>expression = ''.spec.keystore.name'', jsonPath = [Fld ''spec'', Fld ''keystore'', Fld ''name'']\<rparr>]\<rparr>"

lemma example_rules_compile: "CompileRules example_lib example_rules = Inr [example_compiled]"
  by code_simp

theorem CompileRules_result_witness:
  "CompileRules example_lib example_rules = Inr [example_compiled] \<and>
   list_all2 (compiles_to example_lib) example_rules [example_compiled] \<and>
   GVK example_compiled \<notin> set (builtInGroupVersionKinds example_lib)"
  using example_rules_compile CompileRules_result[OF example_rules_compile] by simp

text \<open>
  C29: compiling fails at the first rule that cannot be accepted, with the error of the first check
  it fails, in this order: apiVersion and kind are given, a path is given, the group version
  parses, the kind is not tracked in code, no rule before is for the same kind, each path
  parses. The error names the position \<open>k\<close> of the rule; the rules before it compile.
\<close>
theorem CompileRules_first_error:
  assumes "CompileRules L rules = Inl e"
  shows "\<exists>k. k < length rules \<and> error_rule e = Some k \<and> first_fault L (take k rules) (rules ! k) = Some e \<and>
    (\<exists>cs. CompileRules L (take k rules) = Inr cs) \<and> CompileRules L (take (Suc k) rules) = Inl e"
  using assms compile_loop_error[of L "[]" "[]" "[]" rules e]
  by (auto simp: CompileRules_def Let_def)

theorem CompileRules_first_error_witness:
  "CompileRules example_lib (example_rules @ example_rules) =
     Inl (ErrRuleDuplicate 1 ''cert-manager.io/v1'' ''Certificate'') \<and>
   first_fault example_lib example_rules (hd example_rules) =
     Some (ErrRuleDuplicate 1 ''cert-manager.io/v1'' ''Certificate'')"
proof -
  have e: "CompileRules example_lib (example_rules @ example_rules) =
      Inl (ErrRuleDuplicate 1 ''cert-manager.io/v1'' ''Certificate'')" by code_simp
  from CompileRules_first_error[OF e] have
    "first_fault example_lib (take 1 (example_rules @ example_rules)) ((example_rules @ example_rules) ! 1) =
      Some (ErrRuleDuplicate 1 ''cert-manager.io/v1'' ''Certificate'')" by auto
  then show ?thesis using e by (simp add: example_rules_def)
qed

text \<open>
  Normalising a path adds the braces exactly when they are missing and is idempotent, so the
  brace form and the bare form of a path, with or without white space around them, are
  parsed as the same text.
\<close>
lemma normalizeJSONPath_forms:
  "normalizeJSONPath (normalizeJSONPath expr) = normalizeJSONPath expr \<and>
   HasPrefix (normalizeJSONPath expr) ''{'' \<and>
   (HasPrefix (TrimSpace expr) ''{'' \<or>
      normalizeJSONPath (''{'' @ TrimSpace expr @ ''}'') = normalizeJSONPath expr)"
proof -
  have b: "normalizeJSONPath (CHR ''{'' # s @ ''}'') = CHR ''{'' # s @ ''}''" for s
    by (simp add: normalizeJSONPath_def TrimSpace_braces)
  show ?thesis
  proof (cases "HasPrefix (TrimSpace expr) ''{''")
    case True
    then show ?thesis by (simp add: normalizeJSONPath_def Let_def)
  next
    case False
    then have n: "normalizeJSONPath expr = CHR ''{'' # TrimSpace expr @ ''}''"
      by (simp add: normalizeJSONPath_def Let_def)
    show ?thesis unfolding n using b by simp
  qed
qed

section \<open>Using rules\<close>

text \<open>
  C34: the index entries of a custom resource name, in strictly ascending order, exactly the Secrets
  the rule finds usages of, and no usage is recorded for an empty name.
\<close>
theorem rule_index_matches_usages:
  "sorted_wrt (<) (secretNames L c (Unstructured u)) \<and> [] \<notin> set (secretNames L c (Unstructured u)) \<and>
   (n \<in> set (secretNames L c (Unstructured u)) \<longleftrightarrow> ruleUsageReferences L c u n \<noteq> [])"
  by (intro conjI rule_index.names_strictly_sorted rule_index.names_not_empty rule_index.names_iff_usages)

text \<open>
  C33: a rule records every name its paths find in an object, with the expression that found it, once
  per name and expression: values that are not strings, empty strings and paths that do
  not fit the object add nothing. The hypothesis rules out NUL bytes in what is found.
\<close>
theorem rule_references_found:
  assumes "\<forall>path \<in> set (paths c). nul_free (expression path) \<and> list_all nul_free (found L path u)"
  shows "set (rule_references L c u) =
      {found_reference path n | path n. path \<in> set (paths c) \<and> n \<in> set (found L path u)} \<and>
    distinct (rule_references L c u)"
proof -
  let ?raw = "concat (map (\<lambda>path. map (found_reference path) (found L path u)) (paths c))"
  have "\<forall>ref \<in> set ?raw. valid_reference ref"
    using assms by (auto simp: valid_reference_def found_reference_def list_all_iff)
  then have "set (rule_references L c u) = set ?raw"
    by (simp only: rule_references_conv dedupeReferences_loop ref_key.dedup_loop_set)
  also have "set ?raw = {found_reference path n | path n. path \<in> set (paths c) \<and> n \<in> set (found L path u)}"
    by auto
  finally show ?thesis by (simp add: rule_references_conv distinct_dedupe)
qed

definition example_certificate :: unstructuredObj where
  "example_certificate =
     \<lparr>un_GVK = GVK example_compiled, un_Namespace = ''default'', un_Name = ''web'', un_UID = ''7'',
      un_Object = JObj [(''spec'', JObj [(''secretName'', JStr ''web-tls''), (''keystore'', JObj [(''name'', JNum 42)])])]\<rparr>"

theorem rule_references_found_witness:
  "set (rule_references example_lib example_compiled example_certificate) =
     {\<lparr>SecretName = ''web-tls'', FieldPath = '' {.spec.secretName}'', Container = [], Key = [], Optional = None\<rparr>}"
proof -
  have f: "found example_lib \<lparr>expression = '' {.spec.secretName}'', jsonPath = [Fld ''spec'', Fld ''secretName'']\<rparr>
      example_certificate = [''web-tls'']"
    and g: "found example_lib \<lparr>expression = ''.spec.keystore.name'', jsonPath = [Fld ''spec'', Fld ''keystore'', Fld ''name'']\<rparr>
      example_certificate = []"
    by (simp_all add: found_def example_lib_def example_certificate_def)
  have "\<forall>path \<in> set (paths example_compiled). nul_free (expression path) \<and>
      list_all nul_free (found example_lib path example_certificate)"
    by (simp add: example_compiled_def f g nul_free_Cons)
  from rule_references_found[OF this]
  have "set (rule_references example_lib example_compiled example_certificate) =
      (\<Union>path \<in> set (paths example_compiled). found_reference path ` set (found example_lib path example_certificate))"
    by blast
  also have "\<dots> = {\<lparr>SecretName = ''web-tls'', FieldPath = '' {.spec.secretName}'',
      Container = [], Key = [], Optional = None\<rparr>}"
    by (simp add: example_compiled_def f g found_reference_def)
  finally show ?thesis .
qed

end
