(* ===== verification/Client.thy ===== *)
theory Client
  imports Rules UsageOrder
begin

text \<open>
  What the controller calls at run time: the controller-runtime client, and the Prometheus
  gauges of \<open>internal/controller/metrics.go\<close>. Neither is part of the repository, so every
  operation is a field of a record \<open>env\<close> that the controller's definitions take as an
  argument. An operation runs on a world of an arbitrary type, which it may change; an API
  call may return an error and change the world anyway.

  The second half states what is documented of these operations, as predicates on an
  \<open>env\<close> and a view of its world as a cluster. Properties that need them name them as
  hypotheses; properties of the error paths hold of every \<open>env\<close>.
\<close>

section \<open>Operations\<close>

text \<open>The Go type of the list a call to \<open>List\<close> fills in.\<close>

datatype listKind =
    PodList | DeploymentList | StatefulSetList | DaemonSetList | JobList | CronJobList
  | ReplicaSetList | ReplicationControllerList | ServiceAccountList | IngressList
  | UnstructuredList groupVersionKind

datatype listOption = InNamespace string | MatchingFields string string

datatype gaugeVec = SecretReferences | SecretExists | SecretUsagesTruncated

datatype gauge = SecretsMissingTotal | SecretsUnusedTotal

type_synonym ('w, 'a) call = "'w \<Rightarrow> (goError + 'a) \<times> 'w"

text \<open>
  \<open>Get\<close> and \<open>List\<close> are split by the type of the object they fill in. \<open>Create\<close>, \<open>Patch\<close>,
  \<open>Status().Update\<close> and \<open>Status().Patch\<close> return the object as the call leaves it;
  the two patches are given the object and the base of \<open>client.MergeFrom\<close>.
\<close>

record 'w env =
  GetMetadata :: "groupVersionKind \<Rightarrow> namespacedName \<Rightarrow> ('w, objectMeta) call"
  GetSecretUsage :: "namespacedName \<Rightarrow> ('w, secretUsage) call"
  ListObjects :: "listKind \<Rightarrow> listOption list \<Rightarrow> ('w, clientObject list) call"
  ListSecretUsages :: "listOption list \<Rightarrow> ('w, secretUsage list) call"
  Create :: "secretUsage \<Rightarrow> ('w, secretUsage) call"
  Patch :: "secretUsage \<Rightarrow> secretUsage \<Rightarrow> ('w, secretUsage) call"
  StatusUpdate :: "secretUsage \<Rightarrow> ('w, secretUsage) call"
  StatusPatch :: "secretUsage \<Rightarrow> secretUsage \<Rightarrow> ('w, secretUsage) call"
  Delete :: "secretUsage \<Rightarrow> ('w, unit) call"
  SetLabelValues :: "gaugeVec \<Rightarrow> string list \<Rightarrow> float64 \<Rightarrow> 'w \<Rightarrow> 'w"
  DeleteLabelValues :: "gaugeVec \<Rightarrow> string list \<Rightarrow> 'w \<Rightarrow> 'w"
  SetGauge :: "gauge \<Rightarrow> float64 \<Rightarrow> 'w \<Rightarrow> 'w"

text \<open>The write operations of the API replaced by others.\<close>

definition with_writes :: "'w env \<Rightarrow> 'w env \<Rightarrow> 'w env" where
  "with_writes E W = E\<lparr>Create := Create W, Patch := Patch W, StatusUpdate := StatusUpdate W,
     StatusPatch := StatusPatch W, Delete := Delete W\<rparr>"

section \<open>The reconciler\<close>

text \<open>
  The struct \<open>SecretUsageReconciler\<close> without its embedded client and scheme. \<open>rulesByGVK\<close>
  is nil until \<open>setupRules\<close> has run.
\<close>

record 'jp reconciler =
  MaxUsages :: int
  TrackOwnedPods :: bool
  TrackUnusedSecrets :: bool
  PerSecretMetrics :: bool
  Rules :: "'jp compiledRule list"
  rulesByGVK :: "(groupVersionKind, 'jp compiledRule) gomap"

section \<open>A cluster\<close>

text \<open>
  What the controller can observe of a cluster: the Secrets that exist, the objects of the
  kinds it lists, the SecretUsage objects, and the exported gauges. \<open>SecretUsages\<close> holds
  objects as they are decoded.
\<close>

record cluster =
  Secrets :: "namespacedName list"
  Objects :: "clientObject list"
  SecretUsages :: "namespacedName \<Rightarrow> secretUsage option"
  Series :: "gaugeVec \<Rightarrow> string list \<Rightarrow> float64 option"
  Gauges :: "gauge \<Rightarrow> float64"

fun listed_in :: "clientObject \<Rightarrow> listKind option" where
  "listed_in (Pod _ _) = Some PodList"
| "listed_in (Deployment _ _) = Some DeploymentList"
| "listed_in (StatefulSet _ _) = Some StatefulSetList"
| "listed_in (DaemonSet _ _) = Some DaemonSetList"
| "listed_in (Job _ _) = Some JobList"
| "listed_in (CronJob _ _) = Some CronJobList"
| "listed_in (ReplicaSet _ _) = Some ReplicaSetList"
| "listed_in (ReplicationController _ _) = Some ReplicationControllerList"
| "listed_in (ServiceAccount _ _ _) = Some ServiceAccountList"
| "listed_in (Ingress _ _) = Some IngressList"
| "listed_in (Unstructured u) = Some (UnstructuredList (un_GVK u))"
| "listed_in (OtherObject _ _) = None"

text \<open>
  The index values of an object: those of the function registered for its kind by
  \<open>SetupWithManager\<close> and \<open>setupRules\<close>. With one rule per kind, there is one such rule.
\<close>

fun rule_for :: "groupVersionKind \<Rightarrow> 'jp compiledRule list \<Rightarrow> 'jp compiledRule option" where
  "rule_for gvk [] = None"
| "rule_for gvk (rule # rules) = (if GVK rule = gvk then Some rule else rule_for gvk rules)"

fun index_values :: "'jp lib \<Rightarrow> 'jp compiledRule list \<Rightarrow> clientObject \<Rightarrow> string list" where
  "index_values L rs (Unstructured u) =
     (case rule_for (un_GVK u) rs of None \<Rightarrow> [] | Some rule \<Rightarrow> secretNames L rule (Unstructured u))"
| "index_values L rs obj = SecretNamesForObject obj"

definition usage_key :: "secretUsage \<Rightarrow> namespacedName" where
  "usage_key su = \<lparr>nn_Namespace = Namespace (ObjectMeta su), nn_Name = Name (ObjectMeta su)\<rparr>"

text \<open>An object after encoding and decoding.\<close>

definition wire_usage :: "secretUsage \<Rightarrow> secretUsage" where
  "wire_usage su = \<lparr>ObjectMeta = (ObjectMeta su)\<lparr>Labels := omitempty_map (Labels (ObjectMeta su))\<rparr>,
     Status = wire_status (Status su)\<rparr>"

definition secretGVK :: "'jp lib \<Rightarrow> groupVersionKind" where
  "secretGVK L = WithKind (corev1_SchemeGroupVersion L) ''Secret''"

section \<open>Documented behaviour: reads\<close>

text \<open>
  A read does not change the cluster. A successful read returns what is there, and a
  not-found error means that nothing is; any other error says nothing. A list may come in any
  order. The filter of an indexed list is the registered index.
\<close>

fun indexed_list :: "'jp compiledRule list \<Rightarrow> listKind \<Rightarrow> bool" where
  "indexed_list rs (UnstructuredList gvk) = (gvk \<in> GVK ` set rs)"
| "indexed_list rs _ = True"

definition matching :: "'jp lib \<Rightarrow> 'jp compiledRule list \<Rightarrow> listKind \<Rightarrow> string \<Rightarrow> string \<Rightarrow> clientObject \<Rightarrow> bool" where
  "matching L rs lk ns n obj \<longleftrightarrow>
     listed_in obj = Some lk \<and> GetNamespace obj = ns \<and> n \<in> set (index_values L rs obj)"

definition reads :: "('w \<Rightarrow> cluster) \<Rightarrow> 'w \<Rightarrow> (goError + 'a) \<times> 'w \<Rightarrow> ('a \<Rightarrow> bool) \<Rightarrow> bool \<Rightarrow> bool" where
  "reads view w out there missing \<longleftrightarrow> view (snd out) = view w \<and>
     (case fst out of Inr a \<Rightarrow> there a | Inl e \<Rightarrow> IsNotFound e \<longrightarrow> missing)"

definition documented_reads ::
    "'jp lib \<Rightarrow> 'jp compiledRule list \<Rightarrow> 'w env \<Rightarrow> ('w \<Rightarrow> cluster) \<Rightarrow> bool" where
  "documented_reads L rs E view \<longleftrightarrow>
     (\<forall>w nn. reads view w (GetMetadata E (secretGVK L) nn w)
        (\<lambda>_. nn \<in> set (Secrets (view w))) (nn \<notin> set (Secrets (view w)))) \<and>
     (\<forall>w nn. reads view w (GetSecretUsage E nn w)
        (\<lambda>su. SecretUsages (view w) nn = Some su) (SecretUsages (view w) nn = None)) \<and>
     (\<forall>w lk ns n. indexed_list rs lk \<longrightarrow>
        reads view w (ListObjects E lk [InNamespace ns, MatchingFields SecretNameIndexField n] w)
          (\<lambda>xs. mset xs = mset (filter (matching L rs lk ns n) (Objects (view w)))) True) \<and>
     (\<forall>w. reads view w (ListSecretUsages E [] w)
        (\<lambda>xs. distinct (map usage_key xs) \<and> set xs = ran (SecretUsages (view w))) True) \<and>
     (\<forall>w nn su. SecretUsages (view w) nn = Some su \<longrightarrow> wire_usage su = su \<and> usage_key su = nn)"

section \<open>Documented behaviour: writes\<close>

text \<open>
  A write that succeeds has its effect. One that returns an error may have had it all the
  same (the answer was lost), or not. The server keeps an object as it is encoded; \<open>status\<close>
  is a subresource, so \<open>Create\<close> and \<open>Patch\<close> do not write it and the status calls write
  nothing else. A merge patch whose base is the stored object makes the stored object the
  patched one.
\<close>

definition put_usage :: "namespacedName \<Rightarrow> secretUsage option \<Rightarrow> cluster \<Rightarrow> cluster" where
  "put_usage nn su c = c\<lparr>SecretUsages := (SecretUsages c)(nn := su)\<rparr>"

definition set_labels :: "(string, string) gomap \<Rightarrow> secretUsage \<Rightarrow> secretUsage" where
  "set_labels ls su = su\<lparr>ObjectMeta := (ObjectMeta su)\<lparr>Labels := ls\<rparr>\<rparr>"

definition set_version :: "string \<Rightarrow> secretUsage \<Rightarrow> secretUsage" where
  "set_version rv su = su\<lparr>ObjectMeta := (ObjectMeta su)\<lparr>ResourceVersion := rv\<rparr>\<rparr>"

definition writes :: "('w \<Rightarrow> cluster) \<Rightarrow> 'w \<Rightarrow> (goError + 'a) \<times> 'w \<Rightarrow> ('a \<Rightarrow> cluster \<Rightarrow> bool) \<Rightarrow> bool" where
  "writes view w out effect \<longleftrightarrow>
     (case fst out of
        Inr a \<Rightarrow> effect a (view (snd out))
      | Inl e \<Rightarrow> view (snd out) = view w \<or> (\<exists>a. effect a (view (snd out))))"

definition created :: "secretUsage \<Rightarrow> cluster \<Rightarrow> secretUsage \<Rightarrow> cluster \<Rightarrow> bool" where
  "created su c su' c' \<longleftrightarrow>
     (\<exists>uid rv. c' = put_usage (usage_key su)
          (Some (set_version rv (wire_usage
             (su\<lparr>ObjectMeta := (ObjectMeta su)\<lparr>UID := uid\<rparr>, Status := zero_status\<rparr>)))) c \<and>
        usage_key su' = usage_key su \<and> ResourceVersion (ObjectMeta su') = rv)"

definition patched :: "secretUsage \<Rightarrow> secretUsage \<Rightarrow> cluster \<Rightarrow> secretUsage \<Rightarrow> cluster \<Rightarrow> bool" where
  "patched su base c su' c' \<longleftrightarrow>
     (\<exists>rv. wire_usage su' = set_version rv (wire_usage (set_labels (Labels (ObjectMeta su)) base)) \<and>
        Status su' = Status base \<and>
        c' = put_usage (usage_key base) (Some (wire_usage su')) c)"

definition status_written :: "secretUsage \<Rightarrow> secretUsage \<Rightarrow> cluster \<Rightarrow> secretUsage \<Rightarrow> cluster \<Rightarrow> bool" where
  "status_written su stored c su' c' \<longleftrightarrow>
     (\<exists>rv. c' = put_usage (usage_key stored)
        (Some (set_version rv (stored\<lparr>Status := wire_status (Status su)\<rparr>))) c)"

definition deleted :: "secretUsage \<Rightarrow> cluster \<Rightarrow> unit \<Rightarrow> cluster \<Rightarrow> bool" where
  "deleted su c u c' \<longleftrightarrow> c' = put_usage (usage_key su) None c"

text \<open>When a write is not refused.\<close>

definition may_update :: "cluster \<Rightarrow> secretUsage \<Rightarrow> secretUsage \<Rightarrow> bool" where
  "may_update c su stored \<longleftrightarrow> SecretUsages c (usage_key su) = Some stored \<and>
     ResourceVersion (ObjectMeta su) = ResourceVersion (ObjectMeta stored)"

definition documented_writes :: "'w env \<Rightarrow> ('w \<Rightarrow> cluster) \<Rightarrow> bool" where
  "documented_writes E view \<longleftrightarrow>
     (\<forall>w su. SecretUsages (view w) (usage_key su) = None \<longrightarrow>
        writes view w (Create E su w) (created su (view w))) \<and>
     (\<forall>w ls base. SecretUsages (view w) (usage_key base) = Some (wire_usage base) \<longrightarrow>
        writes view w (Patch E (set_labels ls base) base w) (patched (set_labels ls base) base (view w))) \<and>
     (\<forall>w su stored. may_update (view w) su stored \<longrightarrow>
        writes view w (StatusUpdate E su w) (status_written su stored (view w))) \<and>
     (\<forall>w st base. SecretUsages (view w) (usage_key base) = Some (wire_usage base) \<longrightarrow>
        writes view w (StatusPatch E (base\<lparr>Status := st\<rparr>) base w)
          (status_written (base\<lparr>Status := st\<rparr>) (wire_usage base) (view w))) \<and>
     (\<forall>w su. SecretUsages (view w) (usage_key su) \<noteq> None \<longrightarrow>
        writes view w (Delete E su w) (deleted su (view w)) \<and>
        (case Delete E su w of
           (Inl e, w') \<Rightarrow> IsNotFound e \<longrightarrow> deleted su (view w) () (view w')
         | (Inr _, _) \<Rightarrow> True))"

definition documented_series :: "'w env \<Rightarrow> ('w \<Rightarrow> cluster) \<Rightarrow> bool" where
  "documented_series E view \<longleftrightarrow>
     (\<forall>w v ls x. view (SetLabelValues E v ls x w) =
        (view w)\<lparr>Series := (Series (view w))(v := (Series (view w) v)(ls \<mapsto> x))\<rparr>) \<and>
     (\<forall>w v ls. view (DeleteLabelValues E v ls w) =
        (view w)\<lparr>Series := (Series (view w))(v := (Series (view w) v)(ls := None))\<rparr>)"

definition documented_gauges :: "'w env \<Rightarrow> ('w \<Rightarrow> cluster) \<Rightarrow> bool" where
  "documented_gauges E view \<longleftrightarrow>
     (\<forall>w g x. view (SetGauge E g x w) = (view w)\<lparr>Gauges := (Gauges (view w))(g := x)\<rparr>)"

definition documented ::
    "'jp lib \<Rightarrow> 'jp compiledRule list \<Rightarrow> 'w env \<Rightarrow> ('w \<Rightarrow> cluster) \<Rightarrow> bool" where
  "documented L rs E view \<longleftrightarrow>
     documented_reads L rs E view \<and> documented_writes E view \<and> documented_series E view"

text \<open>
  A cluster that is up: no call of the controller fails, unless the object asked for is
  missing.
\<close>

definition available ::
    "'jp lib \<Rightarrow> 'jp compiledRule list \<Rightarrow> 'w env \<Rightarrow> ('w \<Rightarrow> cluster) \<Rightarrow> bool" where
  "available L rs E view \<longleftrightarrow>
     (\<forall>w nn e. fst (GetMetadata E (secretGVK L) nn w) = Inl e \<longrightarrow> IsNotFound e) \<and>
     (\<forall>w nn e. fst (GetSecretUsage E nn w) = Inl e \<longrightarrow> IsNotFound e) \<and>
     (\<forall>w lk ns n. indexed_list rs lk \<longrightarrow>
        \<not> isl (fst (ListObjects E lk [InNamespace ns, MatchingFields SecretNameIndexField n] w))) \<and>
     (\<forall>w. \<not> isl (fst (ListSecretUsages E [] w))) \<and>
     (\<forall>w su. SecretUsages (view w) (usage_key su) = None \<longrightarrow> \<not> isl (fst (Create E su w))) \<and>
     (\<forall>w ls base. SecretUsages (view w) (usage_key base) = Some (wire_usage base) \<longrightarrow>
        \<not> isl (fst (Patch E (set_labels ls base) base w))) \<and>
     (\<forall>w su stored. may_update (view w) su stored \<longrightarrow> \<not> isl (fst (StatusUpdate E su w))) \<and>
     (\<forall>w st base. SecretUsages (view w) (usage_key base) = Some (wire_usage base) \<longrightarrow>
        \<not> isl (fst (StatusPatch E (base\<lparr>Status := st\<rparr>) base w))) \<and>
     (\<forall>w su. SecretUsages (view w) (usage_key su) \<noteq> None \<longrightarrow> \<not> isl (fst (Delete E su w)))"

end
