(* ===== verification/Collect.thy ===== *)
theory Collect
  imports Client
begin

text \<open>
  The collectors of \<open>internal/controller/secretusage_controller.go\<close>: \<open>collectUsages\<close> asks
  the index of every tracked kind for the objects that name a Secret, turns them into status
  entries and sorts them. A collector that cannot list stops the collection with its error.
\<close>

section \<open>Collectors\<close>

definition indexedSecretListOptions :: "string \<Rightarrow> string \<Rightarrow> listOption list" where
  "indexedSecretListOptions ns secretName =
     [InNamespace ns, MatchingFields SecretNameIndexField secretName]"

text \<open>The Pod's metadata is all that is read.\<close>

fun skipPod :: "'jp reconciler \<Rightarrow> clientObject \<Rightarrow> bool" where
  "skipPod r (Pod m _) = (\<not> TrackOwnedPods r \<and> PodIsCoveredByController m)"
| "skipPod r _ = False"

definition collectPodUsages ::
    "'jp lib \<Rightarrow> 'jp reconciler \<Rightarrow> 'w env \<Rightarrow> string \<Rightarrow> string \<Rightarrow> ('w, secretUsageReference slice) call" where
  "collectPodUsages L r E ns secretName w =
     (case ListObjects E PodList (indexedSecretListOptions ns secretName) w of
        (Inl err, w) \<Rightarrow> (Inl err, w)
      | (Inr items, w) \<Rightarrow>
          (let usages = Slice [];
               usages = fold (\<lambda>obj usages.
                   if skipPod r obj then usages
                   else slice_append usages (usageReferencesForObject L obj secretName))
                 items usages
           in (Inr usages, w)))"

text \<open>The body the nine other built-in collectors repeat.\<close>

definition collect_list ::
    "listKind \<Rightarrow> 'jp lib \<Rightarrow> 'w env \<Rightarrow> string \<Rightarrow> string \<Rightarrow> ('w, secretUsageReference slice) call" where
  "collect_list lk L E ns secretName w =
     (case ListObjects E lk (indexedSecretListOptions ns secretName) w of
        (Inl err, w) \<Rightarrow> (Inl err, w)
      | (Inr items, w) \<Rightarrow>
          (let usages = Slice [];
               usages = fold (\<lambda>obj usages. slice_append usages (usageReferencesForObject L obj secretName))
                 items usages
           in (Inr usages, w)))"

definition collectDeploymentUsages ::
    "'jp lib \<Rightarrow> 'w env \<Rightarrow> string \<Rightarrow> string \<Rightarrow> ('w, secretUsageReference slice) call" where
  "collectDeploymentUsages = collect_list DeploymentList"

definition collectStatefulSetUsages ::
    "'jp lib \<Rightarrow> 'w env \<Rightarrow> string \<Rightarrow> string \<Rightarrow> ('w, secretUsageReference slice) call" where
  "collectStatefulSetUsages = collect_list StatefulSetList"

definition collectDaemonSetUsages ::
    "'jp lib \<Rightarrow> 'w env \<Rightarrow> string \<Rightarrow> string \<Rightarrow> ('w, secretUsageReference slice) call" where
  "collectDaemonSetUsages = collect_list DaemonSetList"

definition collectJobUsages ::
    "'jp lib \<Rightarrow> 'w env \<Rightarrow> string \<Rightarrow> string \<Rightarrow> ('w, secretUsageReference slice) call" where
  "collectJobUsages = collect_list JobList"

definition collectCronJobUsages ::
    "'jp lib \<Rightarrow> 'w env \<Rightarrow> string \<Rightarrow> string \<Rightarrow> ('w, secretUsageReference slice) call" where
  "collectCronJobUsages = collect_list CronJobList"

definition collectReplicaSetUsages ::
    "'jp lib \<Rightarrow> 'w env \<Rightarrow> string \<Rightarrow> string \<Rightarrow> ('w, secretUsageReference slice) call" where
  "collectReplicaSetUsages = collect_list ReplicaSetList"

definition collectReplicationControllerUsages ::
    "'jp lib \<Rightarrow> 'w env \<Rightarrow> string \<Rightarrow> string \<Rightarrow> ('w, secretUsageReference slice) call" where
  "collectReplicationControllerUsages = collect_list ReplicationControllerList"

definition collectServiceAccountUsages ::
    "'jp lib \<Rightarrow> 'w env \<Rightarrow> string \<Rightarrow> string \<Rightarrow> ('w, secretUsageReference slice) call" where
  "collectServiceAccountUsages = collect_list ServiceAccountList"

definition collectIngressUsages ::
    "'jp lib \<Rightarrow> 'w env \<Rightarrow> string \<Rightarrow> string \<Rightarrow> ('w, secretUsageReference slice) call" where
  "collectIngressUsages = collect_list IngressList"

text \<open>
  The loop over the rules. The items of an \<open>UnstructuredList\<close> are unstructured.
\<close>

fun unstructured_usages ::
    "'jp lib \<Rightarrow> 'jp compiledRule \<Rightarrow> string \<Rightarrow> clientObject \<Rightarrow> secretUsageReference list" where
  "unstructured_usages L rule secretName (Unstructured u) = ruleUsageReferences L rule u secretName"
| "unstructured_usages L rule secretName _ = []"

fun collect_rules ::
    "'jp lib \<Rightarrow> 'w env \<Rightarrow> string \<Rightarrow> string \<Rightarrow> 'jp compiledRule list \<Rightarrow> secretUsageReference slice \<Rightarrow>
     ('w, secretUsageReference slice) call" where
  "collect_rules L E ns secretName [] usages w = (Inr usages, w)"
| "collect_rules L E ns secretName (rule # rules) usages w =
     (case ListObjects E (UnstructuredList (GVK rule)) (indexedSecretListOptions ns secretName) w of
        (Inl err, w) \<Rightarrow> (Inl (ErrList (GVK rule) err), w)
      | (Inr items, w) \<Rightarrow>
          (let usages = fold (\<lambda>obj usages. slice_append usages (unstructured_usages L rule secretName obj))
                 items usages
           in collect_rules L E ns secretName rules usages w))"

definition collectCustomResourceUsages ::
    "'jp lib \<Rightarrow> 'jp reconciler \<Rightarrow> 'w env \<Rightarrow> string \<Rightarrow> string \<Rightarrow> ('w, secretUsageReference slice) call" where
  "collectCustomResourceUsages L r E ns secretName w =
     (if Rules r = [] then (Inr NilSlice, w)
      else collect_rules L E ns secretName (Rules r) (Slice []) w)"

section \<open>collectUsages\<close>

definition collectors ::
    "'jp lib \<Rightarrow> 'jp reconciler \<Rightarrow> 'w env \<Rightarrow> (string \<Rightarrow> string \<Rightarrow> ('w, secretUsageReference slice) call) list" where
  "collectors L r E =
     [collectPodUsages L r E,
      collectDeploymentUsages L E,
      collectStatefulSetUsages L E,
      collectDaemonSetUsages L E,
      collectJobUsages L E,
      collectCronJobUsages L E,
      collectReplicaSetUsages L E,
      collectReplicationControllerUsages L E,
      collectServiceAccountUsages L E,
      collectIngressUsages L E,
      collectCustomResourceUsages L r E]"

fun collect_loop ::
    "(string \<Rightarrow> string \<Rightarrow> ('w, secretUsageReference slice) call) list \<Rightarrow> string \<Rightarrow> string \<Rightarrow>
     secretUsageReference slice \<Rightarrow> ('w, secretUsageReference slice) call" where
  "collect_loop [] ns secretName usages w = (Inr usages, w)"
| "collect_loop (collect # rest) ns secretName usages w =
     (case collect ns secretName w of
        (Inl err, w) \<Rightarrow> (Inl err, w)
      | (Inr refs, w) \<Rightarrow> collect_loop rest ns secretName (slice_append usages (elems refs)) w)"

definition collectUsages ::
    "'jp lib \<Rightarrow> 'jp reconciler \<Rightarrow> 'w env \<Rightarrow> string \<Rightarrow> string \<Rightarrow> ('w, secretUsageReference slice) call" where
  "collectUsages L r E ns secretName w =
     (case collect_loop (collectors L r E) ns secretName (Slice []) w of
        (Inl err, w) \<Rightarrow> (Inl err, w)
      | (Inr usages, w) \<Rightarrow> (Inr (slice_map_list (sort_Slice usageReferenceLess) usages), w))"

section \<open>Truncation\<close>

definition DefaultMaxUsages :: int where
  "DefaultMaxUsages = 500"

definition maxUsages :: "'jp reconciler \<Rightarrow> int" where
  "maxUsages r = (if MaxUsages r > 0 then MaxUsages r else DefaultMaxUsages)"

definition truncateUsages ::
    "'jp reconciler \<Rightarrow> secretUsageReference slice \<Rightarrow> secretUsageReference slice \<times> int \<times> bool" where
  "truncateUsages r usages =
     (let limit = maxUsages r in
      if slice_len usages \<le> limit then (usages, slice_len usages, False)
      else (slice_upto usages limit, slice_len usages, True))"

section \<open>What a collection must return\<close>

text \<open>
  The status entries an object contributes to a Secret's usages, whichever kind it is of, and
  the contributions of a namespace. Indexes, lists and their order do not appear here.
\<close>

fun contribution :: "'jp lib \<Rightarrow> 'jp reconciler \<Rightarrow> string \<Rightarrow> clientObject \<Rightarrow> secretUsageReference list" where
  "contribution L r n (Unstructured u) =
     (case rule_for (un_GVK u) (Rules r) of None \<Rightarrow> [] | Some rule \<Rightarrow> ruleUsageReferences L rule u n)"
| "contribution L r n obj = (if skipPod r obj then [] else usageReferencesForObject L obj n)"

definition usages_in ::
    "'jp lib \<Rightarrow> 'jp reconciler \<Rightarrow> cluster \<Rightarrow> namespacedName \<Rightarrow> secretUsageReference list" where
  "usages_in L r c nn =
     concat (map (contribution L r (nn_Name nn)) (filter (\<lambda>obj. GetNamespace obj = nn_Namespace nn) (Objects c)))"

text \<open>The same, restricted to the kinds of some lists.\<close>

definition usages_listed ::
    "'jp lib \<Rightarrow> 'jp reconciler \<Rightarrow> cluster \<Rightarrow> string \<Rightarrow> string \<Rightarrow> listKind list \<Rightarrow> secretUsageReference multiset" where
  "usages_listed L r c ns n ks =
     mset (concat (map (contribution L r n)
       (filter (\<lambda>obj. GetNamespace obj = ns \<and> listed_in obj \<in> Some ` set ks) (Objects c))))"

lemma mset_concat_map_filter_disjoint:
  "(\<And>x. \<not> (P x \<and> Q x)) \<Longrightarrow>
     mset (concat (map f (filter (\<lambda>x. P x \<or> Q x) xs))) =
     mset (concat (map f (filter P xs))) + mset (concat (map f (filter Q xs)))"
  by (induction xs) auto

lemma mset_concat_map_perm: "mset xs = mset ys \<Longrightarrow> mset (concat (map f xs)) = mset (concat (map f ys))"
proof -
  have "mset (concat (map f zs)) = (\<Sum>x\<in>#mset zs. mset (f x))" for zs
    by (induction zs) auto
  then show "mset xs = mset ys \<Longrightarrow> mset (concat (map f xs)) = mset (concat (map f ys))" by simp
qed

lemma concat_map_filter_drop:
  "(\<And>x. x \<in> set xs \<Longrightarrow> P x \<Longrightarrow> \<not> Q x \<Longrightarrow> f x = []) \<Longrightarrow> (\<And>x. Q x \<Longrightarrow> P x) \<Longrightarrow>
     concat (map f (filter Q xs)) = concat (map f (filter P xs))"
  by (induction xs) auto

lemma usages_listed_append:
  "set ks \<inter> set ks' = {} \<Longrightarrow>
     usages_listed L r c ns n (ks @ ks') = usages_listed L r c ns n ks + usages_listed L r c ns n ks'"
  unfolding usages_listed_def
  by (subst mset_concat_map_filter_disjoint[symmetric])
    (auto simp: image_iff conj_disj_distribL[symmetric] bex_Un intro!: arg_cong[where f = mset] arg_cong[where f = concat]
      map_cong filter_cong)

lemma usages_listed_Nil [simp]: "usages_listed L r c ns n [] = {#}"
  by (simp add: usages_listed_def)

lemma rule_for_Some: "rule_for g rs = Some rule \<Longrightarrow> rule \<in> set rs \<and> GVK rule = g"
  by (induction rs) (auto split: if_splits)

lemma rule_for_None: "rule_for g rs = None \<longleftrightarrow> g \<notin> GVK ` set rs"
  by (induction rs) auto

lemma rule_for_member: "distinct (map GVK rs) \<Longrightarrow> rule \<in> set rs \<Longrightarrow> rule_for (GVK rule) rs = Some rule"
  by (induction rs) (auto simp: rev_image_eqI)

text \<open>An object the index does not return contributes nothing: the interface \<open>secret_index\<close>.\<close>

lemma contribution_indexed: "n \<notin> set (index_values L (Rules r) obj) \<Longrightarrow> contribution L r n obj = []"
  by (cases obj) (auto simp: builtin_index.usages_empty_iff rule_index.usages_empty_iff split: option.splits)

lemma contribution_tracked:
  "contribution L r n obj \<noteq> [] \<Longrightarrow>
     listed_in obj \<in> Some ` set ([PodList, DeploymentList, StatefulSetList, DaemonSetList, JobList, CronJobList,
       ReplicaSetList, ReplicationControllerList, ServiceAccountList, IngressList] @
       map (\<lambda>rule. UnstructuredList (GVK rule)) (Rules r))"
  by (cases obj) (auto simp: usageReferencesForObject_def split: option.splits dest!: rule_for_Some intro!: rev_image_eqI)


section \<open>Each collector returns the contributions of its kinds\<close>

definition collects ::
    "'jp lib \<Rightarrow> 'jp reconciler \<Rightarrow> ('w \<Rightarrow> cluster) \<Rightarrow> listKind list \<Rightarrow>
     (string \<Rightarrow> string \<Rightarrow> ('w, secretUsageReference slice) call) \<Rightarrow> bool" where
  "collects L r view ks collect \<longleftrightarrow>
     (\<forall>ns n w. view (snd (collect ns n w)) = view w \<and>
        (\<forall>s. fst (collect ns n w) = Inr s \<longrightarrow> mset (elems s) = usages_listed L r (view w) ns n ks))"

lemma listed_items:
  assumes "documented_reads L (Rules r) E view" "indexed_list (Rules r) lk"
    and "ListObjects E lk (indexedSecretListOptions ns n) w = (Inr items, w')"
  shows "mset (concat (map (contribution L r n) items)) = usages_listed L r (view w) ns n [lk]"
    and "\<forall>obj \<in> set items. listed_in obj = Some lk"
proof -
  have ms: "mset items = mset (filter (matching L (Rules r) lk ns n) (Objects (view w)))"
  proof -
    have "reads view w (ListObjects E lk (indexedSecretListOptions ns n) w)
        (\<lambda>xs. mset xs = mset (filter (matching L (Rules r) lk ns n) (Objects (view w)))) True"
      using assms(1,2) unfolding documented_reads_def indexedSecretListOptions_def by blast
    then show ?thesis by (simp add: reads_def assms(3))
  qed
  show "\<forall>obj \<in> set items. listed_in obj = Some lk"
    using mset_eq_setD[OF ms] by (auto simp: matching_def)
  have "concat (map (contribution L r n) (filter (matching L (Rules r) lk ns n) xs)) =
      concat (map (contribution L r n)
        (filter (\<lambda>obj. GetNamespace obj = ns \<and> listed_in obj \<in> Some ` set [lk]) xs))" for xs
    by (rule concat_map_filter_drop) (auto simp: matching_def contribution_indexed)
  then show "mset (concat (map (contribution L r n) items)) = usages_listed L r (view w) ns n [lk]"
    unfolding mset_concat_map_perm[OF ms] usages_listed_def by simp
qed

lemma listed_view:
  assumes "documented_reads L rs E view" "indexed_list rs lk"
  shows "view (snd (ListObjects E lk (indexedSecretListOptions ns n) w)) = view w"
  using assms by (simp add: documented_reads_def reads_def indexedSecretListOptions_def)

lemma collect_list_collects:
  assumes D: "documented_reads L (Rules r) E view" and lk: "lk \<noteq> PodList" "\<And>g. lk \<noteq> UnstructuredList g"
  shows "collects L r view [lk] (collect_list lk L E)"
  unfolding collects_def
proof (intro allI)
  fix ns n w
  have idx: "indexed_list (Rules r) lk" using lk by (cases lk) auto
  obtain res w' where call: "ListObjects E lk (indexedSecretListOptions ns n) w = (res, w')" by force
  have v: "view w' = view w" using listed_view[OF D idx, of ns n w] call by simp
  show "view (snd (collect_list lk L E ns n w)) = view w \<and>
      (\<forall>s. fst (collect_list lk L E ns n w) = Inr s \<longrightarrow> mset (elems s) = usages_listed L r (view w) ns n [lk])"
  proof (cases res)
    case (Inr items)
    note items = listed_items[OF D idx call[unfolded Inr]]
    have "usageReferencesForObject L obj n = contribution L r n obj" if "obj \<in> set items" for obj
    proof -
      have "listed_in obj = Some lk" using items(2) that by blast
      then show ?thesis using lk by (cases obj) auto
    qed
    then have "concat (map (\<lambda>obj. usageReferencesForObject L obj n) items) =
        concat (map (contribution L r n) items)"
      by (intro arg_cong[where f = concat] map_cong refl)
    then show ?thesis using items(1) v by (simp add: collect_list_def call Inr fold_slice_append)
  qed (simp add: collect_list_def call v)
qed

lemma collectPodUsages_collects:
  assumes D: "documented_reads L (Rules r) E view"
  shows "collects L r view [PodList] (collectPodUsages L r E)"
  unfolding collects_def
proof (intro allI)
  fix ns n w
  have idx: "indexed_list (Rules r) PodList" by simp
  obtain res w' where call: "ListObjects E PodList (indexedSecretListOptions ns n) w = (res, w')" by force
  have v: "view w' = view w" using listed_view[OF D idx, of ns n w] call by simp
  show "view (snd (collectPodUsages L r E ns n w)) = view w \<and>
      (\<forall>s. fst (collectPodUsages L r E ns n w) = Inr s \<longrightarrow>
         mset (elems s) = usages_listed L r (view w) ns n [PodList])"
  proof (cases res)
    case (Inr items)
    note items = listed_items[OF D idx call[unfolded Inr]]
    have one: "(if skipPod r obj then [] else usageReferencesForObject L obj n) = contribution L r n obj"
      if "obj \<in> set items" for obj
      using items(2) that by (cases obj) auto
    have step: "(\<lambda>obj usages. if skipPod r obj then usages
        else slice_append usages (usageReferencesForObject L obj n)) =
        (\<lambda>obj usages. slice_append usages (if skipPod r obj then [] else usageReferencesForObject L obj n))"
      by (simp add: fun_eq_iff slice_append_def)
    have "concat (map (\<lambda>obj. if skipPod r obj then [] else usageReferencesForObject L obj n) items) =
        concat (map (contribution L r n) items)"
      using one by (intro arg_cong[where f = concat] map_cong refl)
    then show ?thesis
      using items(1) v by (simp add: collectPodUsages_def call Inr step fold_slice_append)
  qed (simp add: collectPodUsages_def call v)
qed

lemma collect_rules_sound:
  assumes D: "documented_reads L (Rules r) E view" and "set rs \<subseteq> set (Rules r)"
    and "distinct (map GVK rs)" "distinct (map GVK (Rules r))"
  shows "view (snd (collect_rules L E ns n rs acc w)) = view w \<and>
    (\<forall>s. fst (collect_rules L E ns n rs acc w) = Inr s \<longrightarrow> mset (elems s) =
       mset (elems acc) + usages_listed L r (view w) ns n (map (\<lambda>rule. UnstructuredList (GVK rule)) rs))"
  using assms(2,3)
proof (induction rs arbitrary: acc w)
  case (Cons rule rs)
  let ?lk = "UnstructuredList (GVK rule)"
  have idx: "indexed_list (Rules r) ?lk" using Cons.prems by auto
  obtain res w' where call: "ListObjects E ?lk (indexedSecretListOptions ns n) w = (res, w')" by force
  have v: "view w' = view w" using listed_view[OF D idx, of ns n w] call by simp
  show ?case
  proof (cases res)
    case (Inr items)
    note items = listed_items[OF D idx call[unfolded Inr]]
    have "unstructured_usages L rule n obj = contribution L r n obj" if "obj \<in> set items" for obj
    proof -
      have "listed_in obj = Some ?lk" using items(2) that by blast
      then show ?thesis
        using rule_for_member[OF assms(4), of rule] Cons.prems by (cases obj) auto
    qed
    then have c: "concat (map (unstructured_usages L rule n) items) = concat (map (contribution L r n) items)"
      by (intro arg_cong[where f = concat] map_cong refl)
    have f: "elems (fold (\<lambda>obj usages. slice_append usages (unstructured_usages L rule n obj)) items acc) =
        elems acc @ concat (map (unstructured_usages L rule n) items)"
      by (induction items arbitrary: acc) auto
    have split: "usages_listed L r (view w) ns n (?lk # map (\<lambda>rule. UnstructuredList (GVK rule)) rs) =
        usages_listed L r (view w) ns n [?lk] +
        usages_listed L r (view w) ns n (map (\<lambda>rule. UnstructuredList (GVK rule)) rs)"
      using usages_listed_append[of "[?lk]" "map (\<lambda>rule. UnstructuredList (GVK rule)) rs"] Cons.prems(2)
      by (fastforce simp: image_iff)
    show ?thesis
      using Cons.IH[of "fold (\<lambda>obj usages. slice_append usages (unstructured_usages L rule n obj)) items acc" w'] Cons.prems
      by (simp add: call Inr f c items(1) split v)
  qed (simp add: call v)
qed simp

lemma collectCustomResourceUsages_collects:
  assumes "documented_reads L (Rules r) E view" "distinct (map GVK (Rules r))"
  shows "collects L r view (map (\<lambda>rule. UnstructuredList (GVK rule)) (Rules r)) (collectCustomResourceUsages L r E)"
  using collect_rules_sound[OF assms(1) subset_refl assms(2,2)]
  by (auto simp: collects_def collectCustomResourceUsages_def)

lemma collect_loop_sound:
  assumes "list_all2 (collects L r view) kss cs" "distinct (concat kss)"
  shows "view (snd (collect_loop cs ns n acc w)) = view w \<and>
    (\<forall>s. fst (collect_loop cs ns n acc w) = Inr s \<longrightarrow>
       mset (elems s) = mset (elems acc) + usages_listed L r (view w) ns n (concat kss))"
  using assms
proof (induction kss cs arbitrary: acc w rule: list_all2_induct)
  case (Cons ks kss c cs)
  obtain res w' where call: "c ns n w = (res, w')" by force
  have c: "view w' = view w" "\<forall>s. res = Inr s \<longrightarrow> mset (elems s) = usages_listed L r (view w) ns n ks"
    using Cons.hyps(1) call unfolding collects_def by (metis fst_conv snd_conv)+
  have split: "usages_listed L r (view w) ns n (ks @ concat kss) =
      usages_listed L r (view w) ns n ks + usages_listed L r (view w) ns n (concat kss)"
    using Cons.prems by (intro usages_listed_append) auto
  show ?case
  proof (cases res)
    case (Inr refs)
    show ?thesis
      using Cons.IH[of "slice_append acc (elems refs)" w'] Cons.prems c Inr by (simp add: call split)
  qed (simp add: call c)
qed simp

definition tracked_lists :: "'jp reconciler \<Rightarrow> listKind list list" where
  "tracked_lists r =
     [[PodList], [DeploymentList], [StatefulSetList], [DaemonSetList], [JobList], [CronJobList],
      [ReplicaSetList], [ReplicationControllerList], [ServiceAccountList], [IngressList],
      map (\<lambda>rule. UnstructuredList (GVK rule)) (Rules r)]"

lemma collectors_collect:
  assumes "documented_reads L (Rules r) E view" "distinct (map GVK (Rules r))"
  shows "list_all2 (collects L r view) (tracked_lists r) (collectors L r E)"
  unfolding tracked_lists_def collectors_def collectDeploymentUsages_def collectStatefulSetUsages_def
    collectDaemonSetUsages_def collectJobUsages_def collectCronJobUsages_def collectReplicaSetUsages_def
    collectReplicationControllerUsages_def collectServiceAccountUsages_def collectIngressUsages_def
  by (simp add: collect_list_collects[OF assms(1)] collectPodUsages_collects[OF assms(1)]
      collectCustomResourceUsages_collects[OF assms])

lemma concat_tracked: "concat (tracked_lists r) =
    [PodList, DeploymentList, StatefulSetList, DaemonSetList, JobList, CronJobList,
     ReplicaSetList, ReplicationControllerList, ServiceAccountList, IngressList] @
    map (\<lambda>rule. UnstructuredList (GVK rule)) (Rules r)"
  by (simp add: tracked_lists_def)

lemma usages_listed_tracked:
  "usages_listed L r c ns n (concat (tracked_lists r)) =
     mset (usages_in L r c \<lparr>nn_Namespace = ns, nn_Name = n\<rparr>)"
proof -
  have tr: "contribution L r n obj = []" if "listed_in obj \<notin> Some ` set (concat (tracked_lists r))" for obj
  proof (rule ccontr)
    assume "contribution L r n obj \<noteq> []"
    from contribution_tracked[OF this] that show False unfolding concat_tracked by blast
  qed
  have "concat (map (contribution L r n) (filter (\<lambda>obj. GetNamespace obj = ns \<and>
        listed_in obj \<in> Some ` set (concat (tracked_lists r))) xs)) =
      concat (map (contribution L r n) (filter (\<lambda>obj. GetNamespace obj = ns) xs))" for xs
    by (intro concat_map_filter_drop) (rule tr, blast, blast)
  then show ?thesis by (simp add: usages_listed_def usages_in_def)
qed

lemma distinct_tracked: "distinct (map GVK (Rules r)) \<Longrightarrow> distinct (concat (tracked_lists r))"
  by (auto simp: tracked_lists_def distinct_map inj_on_def)

lemma collectUsages_sound:
  assumes "documented_reads L (Rules r) E view" "distinct (map GVK (Rules r))"
  shows "view (snd (collectUsages L r E ns n w)) = view w"
    and "fst (collectUsages L r E ns n w) = Inr s \<Longrightarrow>
      s = Slice (sort_Slice usageReferenceLess (usages_in L r (view w) \<lparr>nn_Namespace = ns, nn_Name = n\<rparr>))"
proof -
  note loop = collect_loop_sound[OF collectors_collect[OF assms] distinct_tracked[OF assms(2)], of ns n "Slice []" w]
  then show "view (snd (collectUsages L r E ns n w)) = view w"
    by (auto simp: collectUsages_def split: prod.splits sum.splits)
  have slice: "fst (collect_loop cs ns n (Slice acc) w) = Inr s \<Longrightarrow> \<exists>xs. s = Slice xs" for cs acc w s
    by (induction cs arbitrary: acc w) (auto split: prod.splits sum.splits)
  assume "fst (collectUsages L r E ns n w) = Inr s"
  then obtain us where us: "fst (collect_loop (collectors L r E) ns n (Slice []) w) = Inr us"
      and s: "s = slice_map_list (sort_Slice usageReferenceLess) us"
    by (auto simp: collectUsages_def split: prod.splits sum.splits)
  obtain xs where xs: "us = Slice xs" using slice[OF us] by blast
  have ms: "mset xs = mset (usages_in L r (view w) \<lparr>nn_Namespace = ns, nn_Name = n\<rparr>)"
    using loop us by (simp add: xs usages_listed_tracked)
  show "s = Slice (sort_Slice usageReferenceLess (usages_in L r (view w) \<lparr>nn_Namespace = ns, nn_Name = n\<rparr>))"
    by (simp add: s xs usage_order.sort_permutation[OF ms])
qed

end
