(* ===== verification/Metrics.thy ===== *)
theory Metrics
  imports Client
begin

text \<open>
  \<open>internal/controller/metrics.go\<close>: the per-Secret gauges a reconcile sets or drops, and the
  loop of \<open>runAggregateMetrics\<close> (\<open>secretusage_controller.go\<close>) that recomputes the two
  cluster-wide gauges, and the registration of all gauges.
\<close>

section \<open>Per-Secret gauges\<close>

definition boolToFloat :: "bool \<Rightarrow> float64" where
  "boolToFloat b = (if b then 1 else 0)"

definition recordSecretMetrics ::
    "'jp reconciler \<Rightarrow> 'w env \<Rightarrow> string \<Rightarrow> string \<Rightarrow> bool \<Rightarrow> int \<Rightarrow> bool \<Rightarrow> 'w \<Rightarrow> 'w" where
  "recordSecretMetrics r E ns secret exists usageCount truncated w =
     (if \<not> PerSecretMetrics r then w
      else
        (let w = SetLabelValues E SecretReferences [ns, secret] (float64_of_int usageCount) w;
             w = SetLabelValues E SecretExists [ns, secret] (boolToFloat exists) w;
             w = SetLabelValues E SecretUsagesTruncated [ns, secret] (boolToFloat truncated) w
         in w))"

definition clearSecretMetrics :: "'jp reconciler \<Rightarrow> 'w env \<Rightarrow> string \<Rightarrow> string \<Rightarrow> 'w \<Rightarrow> 'w" where
  "clearSecretMetrics r E ns secret w =
     (if \<not> PerSecretMetrics r then w
      else
        (let w = DeleteLabelValues E SecretReferences [ns, secret] w;
             w = DeleteLabelValues E SecretExists [ns, secret] w;
             w = DeleteLabelValues E SecretUsagesTruncated [ns, secret] w
         in w))"

section \<open>Aggregate gauges\<close>

text \<open>The switch of the loop body: the two counters after one item.\<close>

definition count_status :: "secretUsage \<Rightarrow> float64 \<times> float64 \<Rightarrow> float64 \<times> float64" where
  "count_status su = (\<lambda>(missing, unused).
     (let status = Status su in
      if \<not> Exists status \<and> sint (UsageCount status) > 0 then (float64_inc missing, unused)
      else if Exists status \<and> sint (UsageCount status) = 0 then (missing, float64_inc unused)
      else (missing, unused)))"

text \<open>One tick. An error is logged and the gauges keep their values until the next tick.\<close>

definition aggregate_tick :: "'w env \<Rightarrow> 'w \<Rightarrow> 'w" where
  "aggregate_tick E w =
     (case ListSecretUsages E [] w of
        (Inl err, w) \<Rightarrow> w
      | (Inr items, w) \<Rightarrow>
          (let (missing, unused) = fold count_status items (0, 0);
               w = SetGauge E SecretsMissingTotal missing w;
               w = SetGauge E SecretsUnusedTotal unused w
           in w))"

text \<open>
  The select loop: the events are the ticks, until the context is done. The method then
  returns nil.
\<close>

datatype select_event = Done | Tick

fun runAggregateMetrics :: "'w env \<Rightarrow> select_event list \<Rightarrow> 'w \<Rightarrow> 'w" where
  "runAggregateMetrics E [] w = w"
| "runAggregateMetrics E (Done # _) w = w"
| "runAggregateMetrics E (Tick # events) w = runAggregateMetrics E events (aggregate_tick E w)"

section \<open>Registration\<close>

text \<open>
  The collectors of the package's variables, and \<open>init\<close>, which registers them.
  \<open>Registry.MustRegister\<close> belongs to client_golang; it panics (\<open>None\<close>) when a collector cannot
  be registered, which is documented to happen for a name that is taken.
\<close>

datatype collector = GaugeVecCollector string string "string list" | GaugeCollector string string

fun collector_name :: "collector \<Rightarrow> string" where
  "collector_name (GaugeVecCollector name _ _) = name"
| "collector_name (GaugeCollector name _) = name"

fun vec_collector :: "gaugeVec \<Rightarrow> collector" where
  "vec_collector SecretReferences = GaugeVecCollector ''secretusage_secret_references''
     ''Number of references to a Secret found across tracked objects.'' [''namespace'', ''secret'']"
| "vec_collector SecretExists = GaugeVecCollector ''secretusage_secret_exists''
     ''1 if the referenced Secret exists in the namespace, 0 if it does not.'' [''namespace'', ''secret'']"
| "vec_collector SecretUsagesTruncated = GaugeVecCollector ''secretusage_secret_usages_truncated''
     ''1 if a Secret has more references than the controller records in status.'' [''namespace'', ''secret'']"

fun gauge_collector :: "gauge \<Rightarrow> collector" where
  "gauge_collector SecretsMissingTotal = GaugeCollector ''secretusage_missing_secrets''
     ''Number of Secrets that are referenced but do not exist.''"
| "gauge_collector SecretsUnusedTotal = GaugeCollector ''secretusage_unused_secrets''
     ''Number of Secrets that exist but have no references.''"

definition init_metrics :: "(collector list \<Rightarrow> 'c \<Rightarrow> 'c option) \<Rightarrow> 'c \<Rightarrow> 'c option" where
  "init_metrics MustRegister registry =
     MustRegister
       [vec_collector SecretReferences, vec_collector SecretExists, vec_collector SecretUsagesTruncated,
        gauge_collector SecretsMissingTotal, gauge_collector SecretsUnusedTotal] registry"

text \<open>On a registry that takes collectors with new and distinct names, every gauge is registered.\<close>

lemma init_metrics_registers:
  assumes "\<And>cs. distinct (map collector_name cs) \<Longrightarrow> set (map collector_name cs) \<inter> taken registry = {} \<Longrightarrow>
      \<exists>registry'. MustRegister cs registry = Some registry' \<and> set (map collector_name cs) \<subseteq> taken registry'"
    and "\<And>v. collector_name (vec_collector v) \<notin> taken registry"
    and "\<And>g. collector_name (gauge_collector g) \<notin> taken registry"
  shows "\<exists>registry'. init_metrics MustRegister registry = Some registry' \<and>
    (\<forall>v. collector_name (vec_collector v) \<in> taken registry') \<and> (\<forall>g. collector_name (gauge_collector g) \<in> taken registry')"
proof -
  let ?cs = "[vec_collector SecretReferences, vec_collector SecretExists, vec_collector SecretUsagesTruncated,
    gauge_collector SecretsMissingTotal, gauge_collector SecretsUnusedTotal]"
  have "collector_name (vec_collector v) \<in> set (map collector_name ?cs)"
    "collector_name (gauge_collector g) \<in> set (map collector_name ?cs)" for v g
    by (cases v; simp) (cases g; simp)
  moreover have "\<exists>registry'. MustRegister ?cs registry = Some registry' \<and> set (map collector_name ?cs) \<subseteq> taken registry'"
  proof (rule assms(1))
    show "set (map collector_name ?cs) \<inter> taken registry = {}" unfolding list.map list.set using assms(2,3) by blast
  qed simp
  ultimately show ?thesis unfolding init_metrics_def by blast
qed

end
