(* ===== verification/Reconcile.thy ===== *)
theory Reconcile
  imports Collect Metrics
begin

text \<open>
  \<open>Reconcile\<close> of \<open>internal/controller/secretusage_controller.go\<close> and the methods it calls:
  one request names a Secret, and brings the SecretUsage object of that name in line with
  whether the Secret exists and where it is referenced. \<open>reflect.DeepEqual\<close> is equality of
  the model's values, where a nil and an empty slice or map differ. The result is the returned
  error, if any; every return has the zero \<open>ctrl.Result\<close>. Log output is left out.
\<close>

section \<open>Helpers\<close>

definition desiredLabelsFor :: "'jp lib \<Rightarrow> string \<Rightarrow> bool \<Rightarrow> int \<Rightarrow> (string, string) gomap" where
  "desiredLabelsFor L secretName exists tot =
     (let labels = empty_gomap;
          labels = (if IsValidLabelValue L secretName = []
                    then gomap_put SecretNameLabel secretName labels else labels);
          labels = (if exists \<and> tot = 0 then gomap_put UnusedLabel ''true'' labels else labels);
          labels = (if \<not> exists \<and> tot > 0 then gomap_put MissingLabel ''true'' labels else labels)
      in labels)"

definition secretMetadataObject :: "'jp lib \<Rightarrow> clientObject" where
  "secretMetadataObject L = OtherObject (secretGVK L) zero_meta"

definition secretExists :: "'jp lib \<Rightarrow> 'w env \<Rightarrow> namespacedName \<Rightarrow> ('w, bool) call" where
  "secretExists L E key w =
     (case GetMetadata E (secretGVK L) key w of
        (Inl err, w) \<Rightarrow> if IsNotFound err then (Inr False, w) else (Inl err, w)
      | (Inr _, w) \<Rightarrow> (Inr True, w))"

definition deleteSecretUsageIfPresent :: "'w env \<Rightarrow> namespacedName \<Rightarrow> 'w \<Rightarrow> goError option \<times> 'w" where
  "deleteSecretUsageIfPresent E key w =
     (case GetSecretUsage E key w of
        (Inl err, w) \<Rightarrow> (IgnoreNotFound (Some err), w)
      | (Inr current, w) \<Rightarrow>
          (case Delete E current w of
             (Inl err, w) \<Rightarrow> (IgnoreNotFound (Some err), w)
           | (Inr _, w) \<Rightarrow> (IgnoreNotFound None, w)))"

text \<open>The error of a call as the return value of the method.\<close>

definition return_error :: "(goError + 'a) \<times> 'w \<Rightarrow> goError option \<times> 'w" where
  "return_error out = (case out of (Inl err, w) \<Rightarrow> (Some err, w) | (Inr _, w) \<Rightarrow> (None, w))"

section \<open>Reconcile\<close>

text \<open>
  \<open>Reconcile\<close> from the read of the current object on: it is created if it is not found;
  otherwise labels and then status are patched when they differ. \<open>current\<close> is what the calls
  leave in the variable.
\<close>

definition update_usage ::
    "'w env \<Rightarrow> secretUsage \<Rightarrow> (string, string) gomap \<Rightarrow> secretUsageStatus \<Rightarrow> 'w \<Rightarrow> goError option \<times> 'w" where
  "update_usage E current desiredLabels desiredStatus w =
     (case
        (if Labels (ObjectMeta current) \<noteq> desiredLabels
         then
           (let patch = current;
                current = current\<lparr>ObjectMeta := (ObjectMeta current)\<lparr>Labels := desiredLabels\<rparr>\<rparr>
            in Patch E current patch w)
         else (Inr current, w)) of
        (Inl err, w) \<Rightarrow> (Some err, w)
      | (Inr current, w) \<Rightarrow>
          (if Status current = desiredStatus then (None, w)
           else
             (let patch = current;
                  current = current\<lparr>Status := desiredStatus\<rparr>
              in return_error (StatusPatch E current patch w))))"

definition create_usage ::
    "'w env \<Rightarrow> namespacedName \<Rightarrow> (string, string) gomap \<Rightarrow> secretUsageStatus \<Rightarrow> 'w \<Rightarrow> goError option \<times> 'w" where
  "create_usage E req desiredLabels desiredStatus w =
     (let current = \<lparr>ObjectMeta = zero_meta\<lparr>Namespace := nn_Namespace req, Name := nn_Name req, Labels := desiredLabels\<rparr>,
                     Status = zero_status\<rparr> in
      case Create E current w of
        (Inl err, w) \<Rightarrow> (Some err, w)
      | (Inr current, w) \<Rightarrow>
          (let current = current\<lparr>Status := desiredStatus\<rparr>
           in return_error (StatusUpdate E current w)))"

definition write_usage ::
    "'w env \<Rightarrow> namespacedName \<Rightarrow> (string, string) gomap \<Rightarrow> secretUsageStatus \<Rightarrow> 'w \<Rightarrow> goError option \<times> 'w" where
  "write_usage E req desiredLabels desiredStatus w =
     (case GetSecretUsage E req w of
        (Inl err, w) \<Rightarrow>
          (if \<not> IsNotFound err then (Some err, w) else create_usage E req desiredLabels desiredStatus w)
      | (Inr current, w) \<Rightarrow> update_usage E current desiredLabels desiredStatus w)"

definition Reconcile :: "'jp lib \<Rightarrow> 'jp reconciler \<Rightarrow> 'w env \<Rightarrow> namespacedName \<Rightarrow> 'w \<Rightarrow> goError option \<times> 'w" where
  "Reconcile L r E req w =
     (case secretExists L E req w of
        (Inl err, w) \<Rightarrow> (Some err, w)
      | (Inr exists, w) \<Rightarrow>
          (case collectUsages L r E (nn_Namespace req) (nn_Name req) w of
             (Inl err, w) \<Rightarrow> (Some err, w)
           | (Inr allUsages, w) \<Rightarrow>
               (let (usages, tot, truncated) = truncateUsages r allUsages in
                if tot = 0 \<and> \<not> (exists \<and> TrackUnusedSecrets r) then
                  (case deleteSecretUsageIfPresent E req w of
                     (Some err, w) \<Rightarrow> (Some err, w)
                   | (None, w) \<Rightarrow>
                       (None, clearSecretMetrics r E (nn_Namespace req) (nn_Name req) w))
                else
                  (let w = recordSecretMetrics r E (nn_Namespace req) (nn_Name req) exists tot truncated w;
                       desiredStatus = \<lparr>st_SecretName = nn_Name req, Exists = exists,
                         UsageCount = int32_of_int tot, Truncated = truncated, Usages = usages\<rparr>;
                       desiredLabels = desiredLabelsFor L (nn_Name req) exists tot
                   in write_usage E req desiredLabels desiredStatus w))))"

end
