(* ===== verification/ReconcileSpec.thy ===== *)
theory ReconcileSpec
  imports Reconcile
begin

text \<open>
  What a reconcile has to achieve, as a function of the cluster alone: the SecretUsage object
  that should exist for a Secret name (\<open>desired\<close>). The lemmas follow \<open>Reconcile\<close> call by
  call under the documented behaviour of the client, on the success and on the error paths.
\<close>

section \<open>The desired object\<close>

definition desired ::
    "'jp lib \<Rightarrow> 'jp reconciler \<Rightarrow> cluster \<Rightarrow> namespacedName \<Rightarrow> ((string, string) gomap \<times> secretUsageStatus) option" where
  "desired L r c nn =
     (let us = usages_in L r c nn; exists = (nn \<in> set (Secrets c)) in
      if us = [] \<and> \<not> (exists \<and> TrackUnusedSecrets r) then None
      else Some (desiredLabelsFor L (nn_Name nn) exists (int (length us)),
        \<lparr>st_SecretName = nn_Name nn, Exists = exists, UsageCount = int32_of_int (int (length us)),
         Truncated = (int (length us) > maxUsages r),
         Usages = Slice (take (nat (maxUsages r)) (sort_Slice usageReferenceLess us))\<rparr>))"

text \<open>A stored object holds given labels and status, as they are encoded.\<close>

definition holds :: "(string, string) gomap \<times> secretUsageStatus \<Rightarrow> secretUsage \<Rightarrow> bool" where
  "holds want su \<longleftrightarrow> Labels (ObjectMeta su) = omitempty_map (fst want) \<and> Status su = wire_status (snd want)"

definition up_to_date :: "'jp lib \<Rightarrow> 'jp reconciler \<Rightarrow> cluster \<Rightarrow> namespacedName \<Rightarrow> bool" where
  "up_to_date L r c nn \<longleftrightarrow>
     (case desired L r c nn of
        None \<Rightarrow> SecretUsages c nn = None
      | Some want \<Rightarrow> (case SecretUsages c nn of None \<Rightarrow> False | Some su \<Rightarrow> holds want su))"

text \<open>
  The object between the two writes: labels as desired, and the status of before (the empty
  one if there was no object).
\<close>

definition half_written :: "(string, string) gomap \<times> secretUsageStatus \<Rightarrow> secretUsage option \<Rightarrow> secretUsage \<Rightarrow> bool" where
  "half_written want old su \<longleftrightarrow> Labels (ObjectMeta su) = omitempty_map (fst want) \<and>
     Status su = (case old of None \<Rightarrow> zero_status | Some prev \<Rightarrow> Status prev)"

text \<open>The gauges of a Secret after a reconcile, with per-Secret metrics on.\<close>

definition series_of :: "'jp lib \<Rightarrow> 'jp reconciler \<Rightarrow> cluster \<Rightarrow> namespacedName \<Rightarrow> gaugeVec \<Rightarrow> float64 option" where
  "series_of L r c nn v =
     (case desired L r c nn of
        None \<Rightarrow> None
      | Some (_, st) \<Rightarrow> Some (case v of
          SecretReferences \<Rightarrow> float64_of_int (int (length (usages_in L r c nn)))
        | SecretExists \<Rightarrow> boolToFloat (Exists st)
        | SecretUsagesTruncated \<Rightarrow> boolToFloat (Truncated st)))"

text \<open>What no reconcile of \<open>nn\<close> touches.\<close>

definition same_elsewhere :: "namespacedName \<Rightarrow> cluster \<Rightarrow> cluster \<Rightarrow> bool" where
  "same_elsewhere nn c c' \<longleftrightarrow>
     Secrets c' = Secrets c \<and> Objects c' = Objects c \<and> Gauges c' = Gauges c \<and>
     (\<forall>nn'. nn' \<noteq> nn \<longrightarrow> SecretUsages c' nn' = SecretUsages c nn') \<and>
     (\<forall>v ls. ls \<noteq> [nn_Namespace nn, nn_Name nn] \<longrightarrow> Series c' v ls = Series c v ls)"

lemma same_elsewhere_refl [simp]: "same_elsewhere nn c c"
  by (simp add: same_elsewhere_def)

lemma same_elsewhere_trans [trans]:
  "same_elsewhere nn c c' \<Longrightarrow> same_elsewhere nn c' c'' \<Longrightarrow> same_elsewhere nn c c''"
  by (simp add: same_elsewhere_def)

lemma same_elsewhere_put [simp]: "same_elsewhere nn c (put_usage nn su c)"
  by (simp add: same_elsewhere_def put_usage_def)

lemma put_usage_simps [simp]:
  "SecretUsages (put_usage nn su c) = (SecretUsages c)(nn := su)"
  "Secrets (put_usage nn su c) = Secrets c" "Objects (put_usage nn su c) = Objects c"
  "Series (put_usage nn su c) = Series c" "Gauges (put_usage nn su c) = Gauges c"
  by (simp_all add: put_usage_def)

lemma usages_in_cong:
  "Objects c = Objects c' \<Longrightarrow> usages_in L r c nn = usages_in L r c' nn"
  by (simp add: usages_in_def)

lemma desired_cong:
  "Objects c = Objects c' \<Longrightarrow> Secrets c = Secrets c' \<Longrightarrow> desired L r c nn = desired L r c' nn"
  by (simp add: desired_def cong: usages_in_cong)

section \<open>The calls\<close>

lemma get_usage_sound:
  assumes "documented_reads L rs E view" "GetSecretUsage E nn w = (res, w')"
  shows "view w' = view w"
    and "res = Inr su \<Longrightarrow> SecretUsages (view w) nn = Some su \<and> wire_usage su = su \<and> usage_key su = nn"
    and "res = Inl e \<Longrightarrow> IsNotFound e \<Longrightarrow> SecretUsages (view w) nn = None"
proof -
  have "reads view w (GetSecretUsage E nn w)
      (\<lambda>su. SecretUsages (view w) nn = Some su) (SecretUsages (view w) nn = None)"
    using assms(1) by (simp add: documented_reads_def)
  then show "view w' = view w" "res = Inl e \<Longrightarrow> IsNotFound e \<Longrightarrow> SecretUsages (view w) nn = None"
    and "res = Inr su \<Longrightarrow> SecretUsages (view w) nn = Some su \<and> wire_usage su = su \<and> usage_key su = nn"
    using assms(1) by (auto simp: reads_def assms(2) documented_reads_def)
qed

lemma secretExists_sound:
  assumes "documented_reads L rs E view" "secretExists L E nn w = (res, w')"
  shows "view w' = view w" and "res = Inr b \<Longrightarrow> b = (nn \<in> set (Secrets (view w)))"
proof -
  have "reads view w (GetMetadata E (secretGVK L) nn w)
        (\<lambda>_. nn \<in> set (Secrets (view w))) (nn \<notin> set (Secrets (view w)))"
    using assms(1) by (simp add: documented_reads_def)
  then show "view w' = view w" "res = Inr b \<Longrightarrow> b = (nn \<in> set (Secrets (view w)))"
    using assms(2) by (auto simp: secretExists_def reads_def split: prod.splits sum.splits if_splits)
qed

lemma truncateUsages_Slice:
  "truncateUsages r (Slice us) =
     (Slice (take (nat (maxUsages r)) us), int (length us), int (length us) > maxUsages r)"
  by (auto simp: truncateUsages_def slice_len_def Let_def)

lemma record_sound:
  assumes "documented_series E view"
  shows "view (recordSecretMetrics r E ns n b tot trunc w) = (view w)
     \<lparr>Series := (if \<not> PerSecretMetrics r then Series (view w) else (\<lambda>v ls.
        if ls = [ns, n] then Some (case v of SecretReferences \<Rightarrow> float64_of_int tot
          | SecretExists \<Rightarrow> boolToFloat b | SecretUsagesTruncated \<Rightarrow> boolToFloat trunc)
        else Series (view w) v ls))\<rparr>"
proof -
  have d: "view (SetLabelValues E v ls x w) =
        (view w)\<lparr>Series := (Series (view w))(v := (Series (view w) v)(ls \<mapsto> x))\<rparr>" for v ls x w
    using assms by (simp add: documented_series_def)
  show ?thesis
    by (auto simp: recordSecretMetrics_def d fun_eq_iff split: gaugeVec.splits intro!: cluster.equality)
qed

lemma clear_sound:
  assumes "documented_series E view"
  shows "view (clearSecretMetrics r E ns n w) = (view w)
     \<lparr>Series := (if \<not> PerSecretMetrics r then Series (view w) else (\<lambda>v ls.
        if ls = [ns, n] then None else Series (view w) v ls))\<rparr>"
proof -
  have d: "view (DeleteLabelValues E v ls w) =
        (view w)\<lparr>Series := (Series (view w))(v := (Series (view w) v)(ls := None))\<rparr>" for v ls w
    using assms by (simp add: documented_series_def)
  show ?thesis
    by (auto simp: clearSecretMetrics_def d fun_eq_iff intro!: cluster.equality) (metis gaugeVec.exhaust)
qed

lemma delete_sound:
  assumes D: "documented_reads L rs E view" "documented_writes E view"
    and run: "deleteSecretUsageIfPresent E nn w = (res, w')"
  shows "view w' = view w \<or> view w' = put_usage nn None (view w)"
    and "res = None \<Longrightarrow> SecretUsages (view w') nn = None"
proof -
  obtain got w1 where got: "GetSecretUsage E nn w = (got, w1)" by force
  note g = get_usage_sound[OF D(1) got]
  have "(view w' = view w \<or> view w' = put_usage nn None (view w)) \<and>
      (res = None \<longrightarrow> SecretUsages (view w') nn = None)"
  proof (cases got)
    case (Inl e)
    then show ?thesis using run g by (auto simp: deleteSecretUsageIfPresent_def got split: if_splits)
  next
    case (Inr su)
    then have su: "SecretUsages (view w1) nn = Some su" "usage_key su = nn"
      using g by auto
    then have "SecretUsages (view w1) (usage_key su) \<noteq> None" by simp
    moreover obtain out w2 where out: "Delete E su w1 = (out, w2)" by force
    ultimately have "writes view w1 (out, w2) (deleted su (view w1)) \<and>
        (case (out, w2) of (Inl e, w') \<Rightarrow> IsNotFound e \<longrightarrow> deleted su (view w1) () (view w') | (Inr _, _) \<Rightarrow> True)"
      using D(2) unfolding documented_writes_def by metis
    then show ?thesis
      using run su g(1) by (auto simp: deleteSecretUsageIfPresent_def got Inr out writes_def deleted_def
          split: sum.splits if_splits)
  qed
  then show "view w' = view w \<or> view w' = put_usage nn None (view w)"
    and "res = None \<Longrightarrow> SecretUsages (view w') nn = None" by auto
qed


section \<open>Creating and updating\<close>

text \<open>
  What one of the two writers leaves behind, from a cluster \<open>c\<close>: nothing but the object
  changes, a nil error means that it is as wanted, and on an error it is as before, half
  written, or already as wanted.
\<close>

definition wrote ::
    "namespacedName \<Rightarrow> (string, string) gomap \<times> secretUsageStatus \<Rightarrow> cluster \<Rightarrow> goError option \<Rightarrow> cluster \<Rightarrow> bool" where
  "wrote nn want c res c' \<longleftrightarrow>
     (c' = c \<and> (res = None \<longrightarrow> (\<exists>su. SecretUsages c nn = Some su \<and> holds want su)) \<or>
      (\<exists>su. c' = put_usage nn (Some su) c \<and>
         (holds want su \<or> res \<noteq> None \<and> half_written want (SecretUsages c nn) su)))"

lemma status_update_wrote:
  assumes "documented_writes E view" and "may_update (view w) su stored" "usage_key stored = usage_key su"
    and "return_error (StatusUpdate E su w) = (res, w')"
    and "Labels (ObjectMeta stored) = omitempty_map ls"
  shows "view w' = view w \<and> res \<noteq> None \<or>
    (\<exists>su'. view w' = put_usage (usage_key su) (Some su') (view w) \<and> holds (ls, Status su) su')"
proof -
  obtain out w2 where out: "StatusUpdate E su w = (out, w2)" by force
  have "writes view w (out, w2) (status_written su stored (view w))"
    using assms(1,2) unfolding documented_writes_def out[symmetric] by blast
  then show ?thesis
    using assms(3-5) by (auto simp: return_error_def out writes_def status_written_def holds_def set_version_def
        split: sum.splits)
qed

lemma create_usage_wrote:
  assumes D: "documented_writes E view" and None: "SecretUsages (view w) nn = None"
    and run: "create_usage E nn ls st w = (res, w')"
  shows "wrote nn (ls, st) (view w) res (view w')"
proof -
  define su where "su = \<lparr>ObjectMeta = zero_meta\<lparr>Namespace := nn_Namespace nn, Name := nn_Name nn, Labels := ls\<rparr>,
     Status = zero_status\<rparr>"
  have key: "usage_key su = nn" by (simp add: su_def usage_key_def)
  obtain out w1 where out: "Create E su w = (out, w1)" by force
  have w: "writes view w (out, w1) (created su (view w))"
    using D None key unfolding documented_writes_def out[symmetric] by metis
  have created: "\<exists>stored. c' = put_usage nn (Some stored) (view w) \<and> usage_key stored = nn \<and>
      Labels (ObjectMeta stored) = omitempty_map ls \<and> Status stored = zero_status \<and>
      usage_key su' = nn \<and> ResourceVersion (ObjectMeta su') = ResourceVersion (ObjectMeta stored)"
    if cr: "created su (view w) su' c'" for su' c'
  proof -
    obtain uid rv where c: "c' = put_usage nn (Some (set_version rv (wire_usage
        (su\<lparr>ObjectMeta := (ObjectMeta su)\<lparr>UID := uid\<rparr>, Status := zero_status\<rparr>)))) (view w)"
      "usage_key su' = nn" "ResourceVersion (ObjectMeta su') = rv"
      using cr unfolding created_def key by blast
    show ?thesis
      by (rule exI, rule conjI, rule c(1))
        (use c(2,3) in \<open>simp add: usage_key_def set_version_def wire_usage_def su_def wire_status_def zero_status_def\<close>)
  qed
  show ?thesis
  proof (cases out)
    case (Inl e)
    then have "res = Some e" "w' = w1"
      using run by (auto simp: create_usage_def su_def[symmetric] out)
    moreover have "view w1 = view w \<or> (\<exists>a. created su (view w) a (view w1))"
      using w by (simp add: writes_def Inl)
    ultimately show ?thesis
      using created None by (fastforce simp: wrote_def half_written_def)
  next
    case (Inr su')
    then have "created su (view w) su' (view w1)" using w by (simp add: writes_def)
    from created[OF this] obtain stored where st: "view w1 = put_usage nn (Some stored) (view w)"
      "usage_key stored = nn" "Labels (ObjectMeta stored) = omitempty_map ls" "Status stored = zero_status"
      "usage_key su' = nn" "ResourceVersion (ObjectMeta su') = ResourceVersion (ObjectMeta stored)" by blast
    have run': "return_error (StatusUpdate E (su'\<lparr>Status := st\<rparr>) w1) = (res, w')"
      using run by (simp add: create_usage_def su_def[symmetric] out Inr)
    have k: "usage_key (su'\<lparr>Status := st\<rparr>) = nn" using st(5) by (simp add: usage_key_def)
    have may: "may_update (view w1) (su'\<lparr>Status := st\<rparr>) stored"
      unfolding may_update_def k using st by simp
    from status_update_wrote[OF D may _ run' st(3)] st(1,2) k
    have "view w' = put_usage nn (Some stored) (view w) \<and> res \<noteq> None \<or>
      (\<exists>su'. view w' = put_usage nn (Some su') (view w) \<and> holds (ls, st) su')"
      by (auto simp: put_usage_def)
    then show ?thesis using st None by (auto simp: wrote_def half_written_def)
  qed
qed

lemma wire_usage_key [simp]: "usage_key (wire_usage su) = usage_key su"
  by (simp add: usage_key_def wire_usage_def)

lemma put_usage_same: "SecretUsages c nn = Some su \<Longrightarrow> put_usage nn (Some su) c = c"
  by (simp add: put_usage_def fun_upd_idem)

lemma put_usage_twice [simp]: "put_usage nn b (put_usage nn a c) = put_usage nn b c"
  by (simp add: put_usage_def)

lemma patch_labels_wrote:
  assumes D: "documented_writes E view" and cur: "SecretUsages (view w) nn = Some cur" "wire_usage cur = cur" "usage_key cur = nn"
    and out: "Patch E (set_labels ls cur) cur w = (out, w1)"
  shows "case out of
      Inr su \<Rightarrow> view w1 = put_usage nn (Some (wire_usage su)) (view w) \<and> usage_key su = nn \<and>
        Status su = Status cur \<and> Labels (ObjectMeta (wire_usage su)) = omitempty_map ls
    | Inl e \<Rightarrow> view w1 = view w \<or>
        (\<exists>su. view w1 = put_usage nn (Some su) (view w) \<and> half_written (ls, st) (Some cur) su)"
proof -
  have w: "writes view w (out, w1) (patched (set_labels ls cur) cur (view w))"
    using D cur unfolding documented_writes_def out[symmetric] by metis
  have p: "c' = put_usage nn (Some (wire_usage su)) (view w) \<and> usage_key su = nn \<and>
      Status su = Status cur \<and> Labels (ObjectMeta (wire_usage su)) = omitempty_map ls"
    if pat: "patched (set_labels ls cur) cur (view w) su c'" for su c'
  proof -
    obtain rv where rv: "wire_usage su = set_version rv (wire_usage (set_labels ls cur))"
      "Status su = Status cur" "c' = put_usage nn (Some (wire_usage su)) (view w)"
      using pat by (auto simp: patched_def cur(3) set_labels_def)
    have "usage_key (wire_usage su) = usage_key cur"
      unfolding rv(1) by (simp add: usage_key_def set_version_def wire_usage_def set_labels_def)
    moreover have "Labels (ObjectMeta (wire_usage su)) = omitempty_map ls"
      unfolding rv(1) by (simp add: set_version_def wire_usage_def set_labels_def)
    ultimately show ?thesis using rv(2,3) cur(3) by simp
  qed
  have st: "Status (wire_usage su) = Status cur" if "Status su = Status cur" for su
    using that cur(2) by (metis secretUsage.select_convs(2) wire_usage_def)
  show ?thesis
    using w p st by (cases out) (fastforce simp: writes_def half_written_def)+
qed

lemma update_usage_wrote:
  assumes D: "documented_writes E view" and cur: "SecretUsages (view w) nn = Some cur" "wire_usage cur = cur" "usage_key cur = nn"
    and run: "update_usage E cur ls st w = (res, w')"
  shows "wrote nn (ls, st) (view w) res (view w')"
proof -
  define step where "step = (if Labels (ObjectMeta cur) \<noteq> ls then Patch E (set_labels ls cur) cur w else (Inr cur, w))"
  obtain out w1 where out: "step = (out, w1)" by force
  have run': "(case step of (Inl err, w) \<Rightarrow> (Some err, w)
      | (Inr current, w) \<Rightarrow> if Status current = st then (None, w)
          else return_error (StatusPatch E (current\<lparr>Status := st\<rparr>) current w)) = (res, w')"
    using run unfolding update_usage_def Let_def step_def set_labels_def .
  have labels: "case out of
      Inr su \<Rightarrow> view w1 = put_usage nn (Some (wire_usage su)) (view w) \<and> usage_key su = nn \<and>
        Status su = Status cur \<and> Labels (ObjectMeta (wire_usage su)) = omitempty_map ls
    | Inl e \<Rightarrow> view w1 = view w \<or>
        (\<exists>su. view w1 = put_usage nn (Some su) (view w) \<and> half_written (ls, st) (Some cur) su)"
  proof (cases "Labels (ObjectMeta cur) = ls")
    case True
    then have "out = Inr cur" "w1 = w" using out by (simp_all add: step_def)
    moreover have "Labels (ObjectMeta (wire_usage cur)) = omitempty_map ls"
      using True by (simp add: wire_usage_def)
    ultimately show ?thesis using cur by (simp add: put_usage_same)
  next
    case False
    then show ?thesis using patch_labels_wrote[OF D cur] out by (simp add: step_def)
  qed
  show ?thesis
  proof (cases out)
    case (Inl e)
    then show ?thesis using labels run' out cur(1) by (auto simp: wrote_def)
  next
    case (Inr su)
    have su: "view w1 = put_usage nn (Some (wire_usage su)) (view w)" "usage_key su = nn"
      "Status su = Status cur" "Labels (ObjectMeta (wire_usage su)) = omitempty_map ls"
      using labels by (auto simp: Inr)
    have stat: "Status (wire_usage su) = Status cur"
      using su(3) cur(2) by (metis secretUsage.select_convs(2) wire_usage_def)
    show ?thesis
    proof (cases "Status su = st")
      case True
      then have "res = None" "w' = w1" using run' by (simp_all add: out Inr)
      moreover have "holds (ls, st) (wire_usage su)"
        using True su(4) by (simp add: holds_def wire_usage_def)
      ultimately show ?thesis using su(1) by (auto simp: wrote_def)
    next
      case False
      obtain fin w2 where fin: "StatusPatch E (su\<lparr>Status := st\<rparr>) su w1 = (fin, w2)" by force
      have "SecretUsages (view w1) (usage_key su) = Some (wire_usage su)" using su by simp
      then have wr: "writes view w1 (fin, w2) (status_written (su\<lparr>Status := st\<rparr>) (wire_usage su) (view w1))"
        using D unfolding documented_writes_def fin[symmetric] by blast
      have good: "\<exists>su'. c' = put_usage nn (Some su') (view w) \<and> holds (ls, st) su'"
        if sw: "status_written (su\<lparr>Status := st\<rparr>) (wire_usage su) (view w1) a c'" for a c'
        using sw su(1,2,4) by (auto simp: status_written_def holds_def set_version_def)
      have res: "(res, w') = return_error (fin, w2)" using run' False by (simp add: out Inr fin)
      show ?thesis
      proof (cases fin)
        case (Inl e)
        then have "view w2 = view w1 \<or> (\<exists>a. status_written (su\<lparr>Status := st\<rparr>) (wire_usage su) (view w1) a (view w2))"
          using wr by (simp add: writes_def)
        moreover have "half_written (ls, st) (SecretUsages (view w) nn) (wire_usage su)"
          using su(4) stat cur(1) by (simp add: half_written_def)
        ultimately show ?thesis
          using good res su(1) by (auto simp: wrote_def return_error_def Inl)
      next
        case (Inr a)
        then have "status_written (su\<lparr>Status := st\<rparr>) (wire_usage su) (view w1) a (view w2)"
          using wr by (simp add: writes_def)
        then show ?thesis using good res by (auto simp: wrote_def return_error_def Inr)
      qed
    qed
  qed
qed

lemma write_usage_wrote:
  assumes D: "documented_reads L rs E view" "documented_writes E view"
    and run: "write_usage E nn ls st w = (res, w')"
  shows "wrote nn (ls, st) (view w) res (view w') \<or> (view w' = view w \<and> res \<noteq> None)"
proof -
  obtain got w1 where got: "GetSecretUsage E nn w = (got, w1)" by force
  note g = get_usage_sound[OF D(1) got]
  show ?thesis
  proof (cases got)
    case (Inl e)
    show ?thesis
    proof (cases "IsNotFound e")
      case True
      then have "SecretUsages (view w1) nn = None" using g Inl by simp
      from create_usage_wrote[OF D(2) this, of ls st res w'] show ?thesis
        using run True g(1) by (simp add: write_usage_def got Inl)
    qed (use run g(1) in \<open>auto simp: write_usage_def got Inl\<close>)
  next
    case (Inr cur)
    then have "SecretUsages (view w1) nn = Some cur" "wire_usage cur = cur" "usage_key cur = nn"
      using g by auto
    from update_usage_wrote[OF D(2) this, of ls st res w'] show ?thesis
      using run g(1) by (simp add: write_usage_def got Inr)
  qed
qed

section \<open>The whole reconcile\<close>

lemma namespacedName_eta [simp]: "\<lparr>nn_Namespace = nn_Namespace nn, nn_Name = nn_Name nn\<rparr> = nn"
  by (rule namespacedName.equality) simp_all

text \<open>What a reconcile leaves of its object: wanted \<open>want\<close>, found \<open>old\<close>, now \<open>now\<close>.\<close>

definition left_as ::
    "((string, string) gomap \<times> secretUsageStatus) option \<Rightarrow> secretUsage option \<Rightarrow> secretUsage option \<Rightarrow> bool" where
  "left_as want old now \<longleftrightarrow> now = old \<or>
     (case want of
        None \<Rightarrow> now = None
      | Some w \<Rightarrow> (case now of None \<Rightarrow> False | Some su \<Rightarrow> holds w su \<or> half_written w old su))"

lemma desired_conv:
  assumes "us = usages_in L r c nn" "exists = (nn \<in> set (Secrets c))"
    and "truncateUsages r (Slice (sort_Slice usageReferenceLess us)) = (usages, tot, truncated)"
  shows "desired L r c nn =
      (if tot = 0 \<and> \<not> (exists \<and> TrackUnusedSecrets r) then None
       else Some (desiredLabelsFor L (nn_Name nn) exists tot,
         \<lparr>st_SecretName = nn_Name nn, Exists = exists, UsageCount = int32_of_int tot,
          Truncated = truncated, Usages = usages\<rparr>))"
    and "tot = int (length us)"
  using assms by (auto simp: desired_def truncateUsages_Slice Let_def)

lemma wrote_left_as:
  assumes "wrote nn want c res c' \<or> c' = c \<and> res \<noteq> None"
  shows "left_as (Some want) (SecretUsages c nn) (SecretUsages c' nn)"
    and "same_elsewhere nn c c'" and "Series c' = Series c"
    and "res = None \<Longrightarrow> \<exists>su. SecretUsages c' nn = Some su \<and> holds want su"
  using assms by (auto simp: wrote_def left_as_def)

lemma Reconcile_run:
  assumes D: "documented L (Rules r) E view" and G: "distinct (map GVK (Rules r))"
    and run: "Reconcile L r E nn w = (res, w')"
  shows "same_elsewhere nn (view w) (view w') \<and>
    left_as (desired L r (view w) nn) (SecretUsages (view w) nn) (SecretUsages (view w') nn) \<and>
    (res = None \<longrightarrow> up_to_date L r (view w') nn \<and>
       (PerSecretMetrics r \<longrightarrow> (\<forall>v. Series (view w') v [nn_Namespace nn, nn_Name nn] = series_of L r (view w) nn v))) \<and>
    (\<not> PerSecretMetrics r \<longrightarrow> Series (view w') = Series (view w))"
proof -
  have R: "documented_reads L (Rules r) E view" and W: "documented_writes E view" and M: "documented_series E view"
    using D by (simp_all add: documented_def)
  obtain ex w1 where ex: "secretExists L E nn w = (ex, w1)" by force
  obtain col w2 where col: "collectUsages L r E (nn_Namespace nn) (nn_Name nn) w1 = (col, w2)" by force
  have v1: "view w1 = view w" using secretExists_sound[OF R ex] by simp
  have v2: "view w2 = view w"
    using collectUsages_sound(1)[OF R G, of "nn_Namespace nn" "nn_Name nn" w1] col v1 by simp
  show ?thesis
  proof (cases ex)
    case (Inl e)
    then show ?thesis using run ex v1 by (auto simp: Reconcile_def left_as_def)
  next
    case exi: (Inr b)
    show ?thesis
    proof (cases col)
      case (Inl e)
      then show ?thesis using run ex exi col v2 by (auto simp: Reconcile_def left_as_def)
    next
      case (Inr all)
      let ?us = "usages_in L r (view w) nn"
      have all: "all = Slice (sort_Slice usageReferenceLess ?us)"
        using collectUsages_sound(2)[OF R G, of "nn_Namespace nn" "nn_Name nn" w1 all] col Inr v1 by simp
      obtain usages tot trunc where tr: "truncateUsages r all = (usages, tot, trunc)"
        by (metis prod_cases3)
      have b: "b = (nn \<in> set (Secrets (view w)))" using secretExists_sound[OF R ex] exi by simp
      note des = desired_conv[OF refl b tr[unfolded all]]
      let ?ns = "nn_Namespace nn" and ?n = "nn_Name nn"
      show ?thesis
      proof (cases "tot = 0 \<and> \<not> (b \<and> TrackUnusedSecrets r)")
        case True
        then have none: "desired L r (view w) nn = None" using des by simp
        obtain del w3 where del: "deleteSecretUsageIfPresent E nn w2 = (del, w3)" by force
        have res: "(res, w') = (case del of Some e \<Rightarrow> (Some e, w3) | None \<Rightarrow> (None, clearSecretMetrics r E ?ns ?n w3))"
          using run True by (simp add: Reconcile_def ex exi col Inr tr del split: option.splits)
        note d = delete_sound[OF R W del, unfolded v2]
        have se: "same_elsewhere nn (view w) (view w3)" and ser: "Series (view w3) = Series (view w)"
          and la: "left_as None (SecretUsages (view w) nn) (SecretUsages (view w3) nn)"
          using d(1) by (auto simp: left_as_def)
        show ?thesis
        proof (cases del)
          case (Some e)
          then show ?thesis using res se la none ser by simp
        next
          case del: None
          then have w': "w' = clearSecretMetrics r E ?ns ?n w3" "res = None" using res by simp_all
          have "desired L r (view w') nn = None"
            using none se desired_cong[of "view w'" "view w" L r nn]
            by (simp add: w' clear_sound[OF M] same_elsewhere_def)
          moreover have "same_elsewhere nn (view w3) (view w')"
            by (auto simp: w' clear_sound[OF M] same_elsewhere_def)
          ultimately show ?thesis
            using se la none ser d(2)[OF del] same_elsewhere_trans[OF se]
            by (auto simp: w' clear_sound[OF M] up_to_date_def series_of_def)
        qed
      next
        case False
        define labels where "labels = desiredLabelsFor L ?n b tot"
        define st where "st = \<lparr>st_SecretName = ?n, Exists = b, UsageCount = int32_of_int tot,
          Truncated = trunc, Usages = usages\<rparr>"
        define w3 where "w3 = recordSecretMetrics r E ?ns ?n b tot trunc w2"
        have want: "desired L r (view w) nn = Some (labels, st)"
          using des False by (simp add: labels_def st_def)
        have run': "write_usage E nn labels st w3 = (res, w')"
          using run
          by (simp only: Reconcile_def ex exi col Inr tr labels_def st_def w3_def prod.case sum.case Let_def if_not_P[OF False])
        have v3: "view w3 = (view w)\<lparr>Series := Series (view w3)\<rparr>"
          by (simp add: w3_def record_sound[OF M] v2)
        have su3: "SecretUsages (view w3) = SecretUsages (view w)" by (subst v3) simp
        note wr = wrote_left_as[OF write_usage_wrote[OF R W run'], unfolded su3]
        have se3: "same_elsewhere nn (view w) (view w3)"
          by (simp add: w3_def record_sound[OF M] v2 same_elsewhere_def)
        have se: "same_elsewhere nn (view w) (view w')" by (rule same_elsewhere_trans[OF se3 wr(2)])
        have "desired L r (view w') nn = Some (labels, st)"
          using want se desired_cong[of "view w'" "view w" L r nn] by (simp add: same_elsewhere_def)
        moreover have "\<forall>v. PerSecretMetrics r \<longrightarrow> Series (view w') v [?ns, ?n] = series_of L r (view w) nn v"
          using want des(2) by (auto simp: wr(3) w3_def record_sound[OF M] series_of_def st_def split: gaugeVec.split)
        moreover have "\<not> PerSecretMetrics r \<longrightarrow> Series (view w') = Series (view w)"
          by (simp add: wr(3) w3_def record_sound[OF M] v2)
        ultimately show ?thesis using se wr(1,4) want by (auto simp: up_to_date_def)
      qed
    qed
  qed
qed

section \<open>A cluster that is up\<close>

lemma call_Inr: "\<not> isl (fst out) \<Longrightarrow> \<exists>a w. out = (Inr a, w)"
  by (cases out; cases "fst out") auto

lemma collectUsages_available:
  assumes "available L (Rules r) E view"
  shows "\<not> isl (fst (collectUsages L r E ns n w))"
proof -
  have ok: "\<not> isl (fst (ListObjects E lk (indexedSecretListOptions ns n) w))" if "indexed_list (Rules r) lk" for lk w
    using assms that by (simp add: available_def indexedSecretListOptions_def)
  have lst: "\<not> isl (fst (collect_list lk L E ns n w))" if "indexed_list (Rules r) lk" for lk w
    using ok[OF that, of w] by (auto simp: collect_list_def split: prod.splits sum.splits)
  have pod: "\<not> isl (fst (collectPodUsages L r E ns n w))" for w
    using ok[of PodList w] by (auto simp: collectPodUsages_def split: prod.splits sum.splits)
  have rules: "set rs \<subseteq> set (Rules r) \<Longrightarrow> \<not> isl (fst (collect_rules L E ns n rs acc w))" for rs acc w
  proof (induction rs arbitrary: acc w)
    case (Cons rule rs)
    then have "indexed_list (Rules r) (UnstructuredList (GVK rule))" by auto
    from ok[OF this, of w] show ?case using Cons by (auto split: prod.splits sum.splits)
  qed simp
  have custom: "\<not> isl (fst (collectCustomResourceUsages L r E ns n w))" for w
    by (simp add: collectCustomResourceUsages_def rules)
  have loop: "list_all (\<lambda>c. \<forall>w. \<not> isl (fst (c ns n w))) cs \<Longrightarrow> \<not> isl (fst (collect_loop cs ns n acc w))" for cs acc w
    by (induction cs arbitrary: acc w) (auto split: prod.splits sum.splits, metis fst_conv sum.disc(1))
  have "list_all (\<lambda>c. \<forall>w. \<not> isl (fst (c ns n w))) (collectors L r E)"
    by (simp add: collectors_def pod custom lst collectDeploymentUsages_def collectStatefulSetUsages_def
        collectDaemonSetUsages_def collectJobUsages_def collectCronJobUsages_def collectReplicaSetUsages_def
        collectReplicationControllerUsages_def collectServiceAccountUsages_def collectIngressUsages_def)
  from loop[OF this, of "Slice []" w] show ?thesis
    by (auto simp: collectUsages_def split: prod.splits sum.splits)
qed

lemma secretExists_available:
  assumes "available L rs E view"
  shows "\<not> isl (fst (secretExists L E nn w))"
proof -
  obtain got w1 where got: "GetMetadata E (secretGVK L) nn w = (got, w1)" by force
  moreover have "got = Inl e \<Longrightarrow> IsNotFound e" for e
    using assms got unfolding available_def by (metis fst_conv)
  ultimately show ?thesis by (cases got) (auto simp: secretExists_def)
qed

lemma created_may_update:
  assumes "created su c su' c'"
  shows "\<exists>stored. may_update c' (su'\<lparr>Status := st\<rparr>) stored"
proof -
  obtain uid rv where c: "c' = put_usage (usage_key su) (Some (set_version rv (wire_usage
      (su\<lparr>ObjectMeta := (ObjectMeta su)\<lparr>UID := uid\<rparr>, Status := zero_status\<rparr>)))) c"
    "usage_key su' = usage_key su" "ResourceVersion (ObjectMeta su') = rv"
    using assms unfolding created_def by blast
  have "usage_key (su'\<lparr>Status := st\<rparr>) = usage_key su" using c(2) by (simp add: usage_key_def)
  then show ?thesis by (simp add: may_update_def c set_version_def)
qed

lemma return_error_None: "fst (return_error out) = None \<longleftrightarrow> \<not> isl (fst out)"
  by (auto simp: return_error_def split: prod.splits sum.splits)

lemma create_usage_available:
  assumes W: "documented_writes E view" and A: "available L rs E view" and None: "SecretUsages (view w) nn = None"
  shows "fst (create_usage E nn ls st w) = None"
proof -
  define su where "su = \<lparr>ObjectMeta = zero_meta\<lparr>Namespace := nn_Namespace nn, Name := nn_Name nn, Labels := ls\<rparr>,
     Status = zero_status\<rparr>"
  have key: "SecretUsages (view w) (usage_key su) = None" using None by (simp add: su_def usage_key_def)
  then have "\<not> isl (fst (Create E su w))" using A by (simp add: available_def)
  then obtain su' w1 where out: "Create E su w = (Inr su', w1)" using call_Inr by blast
  have "writes view w (Create E su w) (created su (view w))"
    using W key by (simp add: documented_writes_def)
  then have "created su (view w) su' (view w1)" by (simp add: out writes_def)
  from created_may_update[OF this] obtain stored where "may_update (view w1) (su'\<lparr>Status := st\<rparr>) stored" by blast
  then have "\<not> isl (fst (StatusUpdate E (su'\<lparr>Status := st\<rparr>) w1))" using A unfolding available_def by blast
  then show ?thesis by (simp add: create_usage_def su_def[symmetric] out return_error_None)
qed

lemma update_usage_available:
  assumes W: "documented_writes E view" and A: "available L rs E view"
    and cur: "SecretUsages (view w) nn = Some cur" "wire_usage cur = cur" "usage_key cur = nn"
  shows "fst (update_usage E cur ls st w) = None"
proof -
  have status: "fst (return_error (StatusPatch E (su\<lparr>Status := st\<rparr>) su w1)) = None"
    if "SecretUsages (view w1) (usage_key su) = Some (wire_usage su)" for su w1
    using A that by (simp add: return_error_None available_def)
  show ?thesis
  proof (cases "Labels (ObjectMeta cur) = ls")
    case True
    then show ?thesis using status[of w cur] cur by (simp add: update_usage_def)
  next
    case False
    have "\<not> isl (fst (Patch E (set_labels ls cur) cur w))" using A cur by (simp add: available_def)
    then obtain su w1 where out: "Patch E (set_labels ls cur) cur w = (Inr su, w1)"
      using call_Inr by blast
    have "SecretUsages (view w1) (usage_key su) = Some (wire_usage su)"
      using patch_labels_wrote[OF W cur out] by simp
    from status[OF this] show ?thesis
      using False out by (simp add: update_usage_def set_labels_def)
  qed
qed

lemma Reconcile_succeeds:
  assumes D: "documented L (Rules r) E view" and A: "available L (Rules r) E view"
  shows "fst (Reconcile L r E nn w) = None"
proof -
  have R: "documented_reads L (Rules r) E view" and W: "documented_writes E view"
    using D by (simp_all add: documented_def)
  have "\<not> isl (fst (secretExists L E nn w))" by (rule secretExists_available[OF A])
  then obtain b w1 where ex: "secretExists L E nn w = (Inr b, w1)"
    using call_Inr by blast
  obtain all w2 where col: "collectUsages L r E (nn_Namespace nn) (nn_Name nn) w1 = (Inr all, w2)"
    using call_Inr[OF collectUsages_available[OF A]] by blast
  have del: "fst (deleteSecretUsageIfPresent E nn w) = None" for w
  proof -
    obtain got w1 where got: "GetSecretUsage E nn w = (got, w1)" by force
    note g = get_usage_sound[OF R got]
    show ?thesis
    proof (cases got)
      case (Inl e)
      then have "IsNotFound e" using A got unfolding available_def by (metis fst_conv)
      then show ?thesis by (simp add: deleteSecretUsageIfPresent_def got Inl)
    next
      case (Inr su)
      then have "\<not> isl (fst (Delete E su w1))" using A g by (simp add: available_def)
      then show ?thesis by (auto simp: deleteSecretUsageIfPresent_def got Inr split: prod.splits sum.splits)
    qed
  qed
  have wr: "fst (write_usage E nn ls st w) = None" for ls st w
  proof -
    obtain got w1 where got: "GetSecretUsage E nn w = (got, w1)" by force
    note g = get_usage_sound[OF R got]
    show ?thesis
    proof (cases got)
      case (Inl e)
      then have "IsNotFound e" using A got unfolding available_def by (metis fst_conv)
      then show ?thesis
        using create_usage_available[OF W A, of w1 nn] g Inl by (simp add: write_usage_def got)
    next
      case (Inr cur)
      then show ?thesis
        using update_usage_available[OF W A, of w1 nn cur] g by (simp add: write_usage_def got)
    qed
  qed
  obtain usages tot trunc where tr: "truncateUsages r all = (usages, tot, trunc)" by (metis prod_cases3)
  show ?thesis
    using del[of w2] by (auto simp: Reconcile_def ex col tr Let_def wr split: prod.splits option.splits)
qed

end
