(* ===== verification/ExampleCluster.thy ===== *)
theory ExampleCluster
  imports ReconcileSpec RuleProps
begin

text \<open>
  A cluster for the witnesses: a client whose world is a value in memory, for every choice of
  the library parameters and rules. It behaves as documented and never fails, so the
  hypotheses of the properties about reconciling can be met. An update with an old resource
  version is a conflict, and so on: the operations are total, but only what \<open>documented\<close>
  speaks of is meant to be like an API server.
\<close>

record world =
  w_cluster :: cluster
  w_usages :: "secretUsage list"

definition stored :: "world \<Rightarrow> namespacedName \<Rightarrow> secretUsage option" where
  "stored w nn = map_option wire_usage (find (\<lambda>su. usage_key su = nn) (w_usages w))"

definition world_view :: "world \<Rightarrow> cluster" where
  "world_view w = (w_cluster w)\<lparr>SecretUsages := stored w\<rparr>"

definition store :: "secretUsage \<Rightarrow> world \<Rightarrow> world" where
  "store su w = w\<lparr>w_usages := su # filter (\<lambda>x. usage_key x \<noteq> usage_key su) (w_usages w)\<rparr>"

definition drop_usage :: "namespacedName \<Rightarrow> world \<Rightarrow> world" where
  "drop_usage nn w = w\<lparr>w_usages := filter (\<lambda>x. usage_key x \<noteq> nn) (w_usages w)\<rparr>"

definition not_found :: goError where
  "not_found = APIError NotFound ''not found''"

definition conflict :: goError where
  "conflict = APIError OtherReason ''conflict''"

fun world_list ::
    "'jp lib \<Rightarrow> 'jp compiledRule list \<Rightarrow> listKind \<Rightarrow> listOption list \<Rightarrow> (world, clientObject list) call" where
  "world_list L rs lk [InNamespace ns, MatchingFields _ n] w =
     (Inr (filter (matching L rs lk ns n) (Objects (w_cluster w))), w)"
| "world_list L rs lk _ w = (Inr (filter (\<lambda>obj. listed_in obj = Some lk) (Objects (w_cluster w))), w)"

definition world_status :: "secretUsage \<Rightarrow> (world, secretUsage) call" where
  "world_status su w =
     (case stored w (usage_key su) of
        None \<Rightarrow> (Inl not_found, w)
      | Some old \<Rightarrow>
          (if ResourceVersion (ObjectMeta su) \<noteq> ResourceVersion (ObjectMeta old) then (Inl conflict, w)
           else
             (let new = set_version ''3'' (old\<lparr>Status := wire_status (Status su)\<rparr>)
              in (Inr new, store new w))))"

definition world_env :: "'jp lib \<Rightarrow> 'jp compiledRule list \<Rightarrow> world env" where
  "world_env L rs =
     \<lparr>GetMetadata = (\<lambda>gvk nn w.
        (if gvk = secretGVK L \<and> nn \<in> set (Secrets (w_cluster w)) then Inr zero_meta else Inl not_found, w)),
      GetSecretUsage = (\<lambda>nn w. (case stored w nn of None \<Rightarrow> Inl not_found | Some su \<Rightarrow> Inr su, w)),
      ListObjects = world_list L rs,
      ListSecretUsages = (\<lambda>_ w. (Inr (List.map_filter (stored w) (remdups (map usage_key (w_usages w)))), w)),
      Create = (\<lambda>su w.
        (let new = set_version ''1'' (wire_usage
               (su\<lparr>ObjectMeta := (ObjectMeta su)\<lparr>UID := ''1''\<rparr>, Status := zero_status\<rparr>))
         in (Inr new, store new w))),
      Patch = (\<lambda>su base w. (let new = set_version ''2'' su in (Inr new, store new w))),
      StatusUpdate = world_status,
      StatusPatch = (\<lambda>su base w. world_status su w),
      Delete = (\<lambda>su w. (Inr (), drop_usage (usage_key su) w)),
      SetLabelValues = (\<lambda>v ls x w. w\<lparr>w_cluster := (w_cluster w)\<lparr>Series :=
        (Series (w_cluster w))(v := (Series (w_cluster w) v)(ls \<mapsto> x))\<rparr>\<rparr>),
      DeleteLabelValues = (\<lambda>v ls w. w\<lparr>w_cluster := (w_cluster w)\<lparr>Series :=
        (Series (w_cluster w))(v := (Series (w_cluster w) v)(ls := None))\<rparr>\<rparr>),
      SetGauge = (\<lambda>g x w. w\<lparr>w_cluster := (w_cluster w)\<lparr>Gauges := (Gauges (w_cluster w))(g := x)\<rparr>\<rparr>)\<rparr>"

lemma wire_usage_idem [simp]: "wire_usage (wire_usage su) = wire_usage su"
  by (simp add: wire_usage_def)

lemma set_version_key [simp]: "usage_key (set_version rv su) = usage_key su"
  by (simp add: set_version_def usage_key_def)

lemma set_version_wire [simp]: "wire_usage (set_version rv su) = set_version rv (wire_usage su)"
  by (simp add: set_version_def wire_usage_def)

lemma status_key [simp]: "usage_key (su\<lparr>Status := st\<rparr>) = usage_key su"
  by (simp add: usage_key_def)

lemma set_labels_key [simp]: "usage_key (set_labels ls su) = usage_key su"
  by (simp add: usage_key_def set_labels_def)

lemma stored_key: "stored w nn = Some su \<Longrightarrow> usage_key su = nn \<and> wire_usage su = su"
  by (auto simp: stored_def find_Some_iff)

lemma find_filter: "find P (filter Q xs) = find (\<lambda>x. Q x \<and> P x) xs"
  by (induction xs) auto

lemma stored_store: "stored (store su w) = (stored w)(usage_key su \<mapsto> wire_usage su)"
proof -
  have "find (\<lambda>x. usage_key x \<noteq> usage_key su \<and> usage_key x = nn) xs =
      find (\<lambda>x. usage_key x = nn) xs" if "usage_key su \<noteq> nn" for nn xs
    using that by (induction xs) auto
  then show ?thesis by (auto simp: stored_def store_def find_filter fun_eq_iff)
qed

lemma stored_drop: "stored (drop_usage nn w) = (stored w)(nn := None)"
proof -
  have "find (\<lambda>x. usage_key x \<noteq> nn \<and> usage_key x = nn') xs =
      (if nn = nn' then None else find (\<lambda>x. usage_key x = nn') xs)" for nn' xs
    by (induction xs) auto
  then show ?thesis by (auto simp: stored_def drop_usage_def find_filter fun_eq_iff)
qed

lemma view_store: "world_view (store su w) = put_usage (usage_key su) (Some (wire_usage su)) (world_view w)"
  by (simp add: world_view_def put_usage_def stored_store) (simp add: store_def)

lemma view_drop: "world_view (drop_usage nn w) = put_usage nn None (world_view w)"
  by (simp add: world_view_def put_usage_def stored_drop) (simp add: drop_usage_def)

lemma world_view_simps [simp]:
  "SecretUsages (world_view w) = stored w" "Secrets (world_view w) = Secrets (w_cluster w)"
  "Objects (world_view w) = Objects (w_cluster w)"
  by (simp_all add: world_view_def)

section \<open>It is documented and available\<close>

lemma world_reads: "documented_reads L rs (world_env L rs) world_view"
proof -
  have keys: "distinct (map usage_key (List.map_filter (stored w) ks)) \<and>
      set (List.map_filter (stored w) ks) = {su. \<exists>k \<in> set ks. stored w k = Some su}" if "distinct ks" for w ks
    using that
  proof (induction ks)
    case (Cons k ks)
    then show ?case
      using stored_key by (cases "stored w k") (fastforce simp: map_filter_simps)+
  qed (simp add: map_filter_simps)
  have known: "k \<in> set (map usage_key (w_usages w))" if "stored w k = Some su" for w k su
    using that by (force simp: stored_def find_Some_iff in_set_conv_nth)
  have "reads world_view w (ListSecretUsages (world_env L rs) [] w)
      (\<lambda>xs. distinct (map usage_key xs) \<and> set xs = ran (SecretUsages (world_view w))) True" for w
  proof -
    have "{su. \<exists>k \<in> set (remdups (map usage_key (w_usages w))). stored w k = Some su} = ran (stored w)"
      unfolding ran_def set_remdups using known[of w] by blast
    then show ?thesis
      using keys[of "remdups (map usage_key (w_usages w))" w] by (simp add: reads_def world_env_def)
  qed
  moreover have "reads world_view w (GetSecretUsage (world_env L rs) nn w)
        (\<lambda>su. SecretUsages (world_view w) nn = Some su) (SecretUsages (world_view w) nn = None)" for w nn
    by (auto simp: reads_def world_env_def split: option.split)
  moreover have "reads world_view w (GetMetadata (world_env L rs) (secretGVK L) nn w)
        (\<lambda>_. nn \<in> set (Secrets (world_view w))) (nn \<notin> set (Secrets (world_view w)))" for w nn
    by (simp add: reads_def world_env_def)
  moreover have "reads world_view w (ListObjects (world_env L rs) lk [InNamespace ns, MatchingFields SecretNameIndexField n] w)
          (\<lambda>xs. mset xs = mset (filter (matching L rs lk ns n) (Objects (world_view w)))) True" for w lk ns n
    by (simp add: reads_def world_env_def)
  ultimately show ?thesis
    using stored_key by (simp add: documented_reads_def)
qed

lemma world_create:
  "writes world_view w (Create (world_env L rs) su w) (created su (world_view w))"
  by (simp add: writes_def created_def world_env_def Let_def view_store)
    (auto simp: set_version_def wire_usage_def usage_key_def)

lemma world_patch:
  "writes world_view w (Patch (world_env L rs) (set_labels ls base) base w)
     (patched (set_labels ls base) base (world_view w))"
  by (simp add: writes_def patched_def world_env_def Let_def view_store)
    (auto simp: set_version_def wire_usage_def usage_key_def set_labels_def)

lemma world_status_update:
  assumes "may_update (world_view w) su old"
  shows "writes world_view w (world_status su w) (status_written su old (world_view w))"
    and "\<not> isl (fst (world_status su w))"
proof -
  have old: "stored w (usage_key su) = Some old" "ResourceVersion (ObjectMeta su) = ResourceVersion (ObjectMeta old)"
    using assms by (simp_all add: may_update_def)
  note key = stored_key[OF old(1)]
  show "\<not> isl (fst (world_status su w))" by (simp add: world_status_def old Let_def)
  have "wire_usage (set_version v (old\<lparr>Status := wire_status st\<rparr>)) = set_version v (old\<lparr>Status := wire_status st\<rparr>)" for v st
  proof -
    have "omitempty_map (Labels (ObjectMeta old)) = Labels (ObjectMeta old)"
      using key by (metis objectMeta.select_convs(5) objectMeta.surjective objectMeta.update_convs(5)
          secretUsage.select_convs(1) wire_usage_def)
    then show ?thesis
      by (cases old, cases "ObjectMeta old") (simp add: set_version_def wire_usage_def)
  qed
  then show "writes world_view w (world_status su w) (status_written su old (world_view w))"
    by (auto simp: writes_def status_written_def world_status_def old view_store Let_def key simp del: set_version_wire)
qed

lemma status_patch_may_update:
  assumes "SecretUsages (world_view w) (usage_key base) = Some (wire_usage base)"
  shows "may_update (world_view w) (base\<lparr>Status := st\<rparr>) (wire_usage base)"
  using assms by (simp add: may_update_def wire_usage_def)

lemma stored_cluster: "stored (w\<lparr>w_cluster := c\<rparr>) = stored w"
  by (simp add: fun_eq_iff stored_def)

lemmas world_status_patch = world_status_update[OF status_patch_may_update]

lemma world_env_status:
  "StatusUpdate (world_env L rs) = world_status" "StatusPatch (world_env L rs) su base = world_status su"
  by (simp_all add: world_env_def)

lemma world_delete:
  "Delete (world_env L rs) su w = (Inr (), drop_usage (usage_key su) w)"
  by (simp add: world_env_def)

lemma world_documented: "documented L rs (world_env L rs) world_view"
proof -
  have delete: "writes world_view w (Delete (world_env L rs) su w) (deleted su (world_view w)) \<and>
        (case Delete (world_env L rs) su w of
           (Inl e, w') \<Rightarrow> IsNotFound e \<longrightarrow> deleted su (world_view w) () (world_view w')
         | (Inr _, _) \<Rightarrow> True)" for w su
    by (simp add: world_delete writes_def deleted_def view_drop)
  have "documented_writes (world_env L rs) world_view"
    unfolding documented_writes_def world_env_status
    by (intro conjI[OF _ conjI[OF _ conjI[OF _ conjI]]] allI impI world_create world_patch world_status_update(1)
        world_status_patch(1) delete)
  moreover have "documented_series (world_env L rs) world_view"
    by (auto simp: documented_series_def world_env_def world_view_def stored_cluster intro!: cluster.equality)
  ultimately show ?thesis by (simp add: documented_def world_reads)
qed

lemma world_gauges: "documented_gauges (world_env L rs) world_view"
  by (auto simp: documented_gauges_def world_env_def world_view_def stored_cluster intro!: cluster.equality)

lemma world_available: "available L rs (world_env L rs) world_view"
proof -
  have nf: "IsNotFound not_found" by (simp add: not_found_def IsNotFound_def)
  have "fst (GetMetadata (world_env L rs) (secretGVK L) nn w) = Inl e \<Longrightarrow> IsNotFound e"
    "fst (GetSecretUsage (world_env L rs) nn w) = Inl e \<Longrightarrow> IsNotFound e" for nn w e
    by (auto simp: world_env_def nf split: if_splits option.splits)
  moreover have "\<not> isl (fst (ListObjects (world_env L rs) lk [InNamespace ns, MatchingFields SecretNameIndexField n] w))"
    "\<not> isl (fst (ListSecretUsages (world_env L rs) [] w))" "\<not> isl (fst (Create (world_env L rs) su w))"
    "\<not> isl (fst (Patch (world_env L rs) su base w))" "\<not> isl (fst (Delete (world_env L rs) su w))" for lk ns n su base w
    by (simp_all add: world_env_def Let_def)
  ultimately show ?thesis
    unfolding available_def world_env_status
    by (intro conjI allI impI) (assumption | erule world_status_update(2) world_status_patch(2) | blast)+
qed

section \<open>An example reconciler and cluster\<close>

definition example_reconciler :: "path reconciler" where
  "example_reconciler =
     \<lparr>MaxUsages = 1, TrackOwnedPods = False, TrackUnusedSecrets = True, PerSecretMetrics = True,
      Rules = [], rulesByGVK = NilMap\<rparr>"

text \<open>
  Namespace \<open>default\<close> holds the example Pod and Ingress and a Secret nothing references; the
  Secrets they name do not exist.
\<close>

definition example_world :: world where
  "example_world =
     \<lparr>w_cluster = \<lparr>Secrets = [\<lparr>nn_Namespace = ''default'', nn_Name = ''idle''\<rparr>],
        Objects = [example_ingress, example_pod], SecretUsages = (\<lambda>_. None),
        Series = (\<lambda>_ _. None), Gauges = (\<lambda>_. 0)\<rparr>,
      w_usages = []\<rparr>"

abbreviation example_env :: "world env" where
  "example_env \<equiv> world_env example_lib []"

abbreviation example_key :: "string \<Rightarrow> namespacedName" where
  "example_key n \<equiv> \<lparr>nn_Namespace = ''default'', nn_Name = n\<rparr>"

lemma example_rules_nil [simp]: "Rules example_reconciler = []"
  by (simp add: example_reconciler_def)

lemmas example_documented = world_documented[of example_lib "[]"]
lemmas example_available = world_available[of example_lib "[]"]



lemma example_desired_db:
  "desired example_lib example_reconciler (world_view example_world) (example_key ''db'') =
     Some (gomap_put MissingLabel ''true'' (gomap_put SecretNameLabel ''db'' empty_gomap),
       \<lparr>st_SecretName = ''db'', Exists = False, UsageCount = 2, Truncated = True,
        Usages = Slice [\<lparr>u_APIVersion = ''v1'', u_Kind = ''Pod'', u_Namespace = ''default'', u_Name = ''web'', u_UID = [],
          u_FieldPath = ''.spec.containers[0].envFrom[0].secretRef.name'', u_Container = ''app'', u_Key = [], u_Optional = None\<rparr>]\<rparr>)"
  by code_simp

lemma example_desired_idle:
  "desired example_lib example_reconciler (world_view example_world) (example_key ''idle'') =
     Some (gomap_put UnusedLabel ''true'' (gomap_put SecretNameLabel ''idle'' empty_gomap),
       \<lparr>st_SecretName = ''idle'', Exists = True, UsageCount = 0, Truncated = False, Usages = Slice []\<rparr>)"
  by code_simp

lemma example_desired_none:
  "desired example_lib example_reconciler (world_view example_world) (example_key ''none'') = None"
  by code_simp

end
