(* ===== verification/ReconcileProps.thy ===== *)
theory ReconcileProps
  imports ExampleCluster
begin

text \<open>
  The properties of the collectors, of \<open>Reconcile\<close> and of its helpers
  (\<open>internal/controller/secretusage_controller.go\<close>).
\<close>

section \<open>Collecting\<close>

text \<open>
  C5: under the documented behaviour of the client, with one rule per kind, a collection that
  returns is complete and deterministic: the sorted list of every status entry that every
  object of the namespace contributes, whatever order the lists come in and although the
  collectors only see the objects the index returns. Collecting changes nothing.
\<close>
theorem collectUsages_complete:
  assumes "documented_reads L (Rules r) E view" and "distinct (map GVK (Rules r))"
  shows "view (snd (collectUsages L r E ns n w)) = view w \<and>
    (case fst (collectUsages L r E ns n w) of
       Inl e \<Rightarrow> True
     | Inr s \<Rightarrow> s = Slice (sort_Slice usageReferenceLess (usages_in L r (view w) \<lparr>nn_Namespace = ns, nn_Name = n\<rparr>)))"
  using collectUsages_sound[OF assms, of ns n w] by (auto split: sum.split)

theorem collectUsages_complete_witness:
  "\<exists>s. fst (collectUsages example_lib example_reconciler example_env ''default'' ''db'' example_world) = Inr s \<and>
     s = Slice (sort_Slice usageReferenceLess
       (usages_in example_lib example_reconciler (world_view example_world) (example_key ''db'')))"
proof -
  have "\<not> isl (fst (collectUsages example_lib example_reconciler example_env ''default'' ''db'' example_world))"
    using collectUsages_available[of example_lib example_reconciler example_env world_view] example_available by simp
  then show ?thesis
    using collectUsages_complete[of example_lib example_reconciler example_env world_view "''default''" "''db''" example_world]
      world_reads[of example_lib "[]"]
    by (auto split: sum.splits)
qed

section \<open>Truncation and labels\<close>

text \<open>
  What is recorded is a prefix of the collected list, of at most the configured number of
  entries (500 when it is zero or negative) and never empty when the list is not; the total
  is the length of the whole list, and the truncation flag says whether any entry was left
  out.
\<close>
lemma truncateUsages_prefix:
  "case truncateUsages r us of (recorded, tot, truncated) \<Rightarrow>
     (\<exists>rest. elems us = elems recorded @ rest \<and> (truncated \<longleftrightarrow> rest \<noteq> [])) \<and>
     tot = int (length (elems us)) \<and>
     int (length (elems recorded)) = min tot (maxUsages r) \<and>
     0 < maxUsages r \<and> (elems recorded = [] \<longleftrightarrow> elems us = [])"
proof -
  have pos: "0 < maxUsages r" by (simp add: maxUsages_def DefaultMaxUsages_def)
  have "elems us = take (nat (maxUsages r)) (elems us) @ drop (nat (maxUsages r)) (elems us)" by simp
  then show ?thesis
    using pos by (auto simp: truncateUsages_def slice_len_def Let_def min_def intro!: exI[of _ "drop (nat (maxUsages r)) (elems us)"])
qed

text \<open>
  The labels of an object are never nil and say exactly this: the Secret's name if it is a
  valid label value, \<open>unused\<close> if the Secret exists without a reference, \<open>missing\<close> if it is
  referenced but does not exist, and nothing else.
\<close>
lemma desiredLabelsFor_lookup:
  "desiredLabelsFor L n exists tot \<noteq> NilMap \<and>
   gomap_lookup (desiredLabelsFor L n exists tot) k =
     (if k = SecretNameLabel \<and> IsValidLabelValue L n = [] then Some n
      else if k = UnusedLabel \<and> exists \<and> tot = 0 then Some ''true''
      else if k = MissingLabel \<and> \<not> exists \<and> tot > 0 then Some ''true''
      else None)"
  by (auto simp: desiredLabelsFor_def Let_def lookup_empty)

section \<open>Reconciling\<close>

text \<open>
  C3: a reconcile that returns no error has brought the SecretUsage of its Secret in line with the
  cluster, whatever was there before: it does not exist if the Secret is neither referenced
  nor tracked as unused, and otherwise holds the labels, the count, the flags and the sorted,
  truncated list computed from the cluster. In particular an object whose status write was
  lost is completed.
\<close>
theorem Reconcile_up_to_date:
  assumes "documented L (Rules r) E view" and "distinct (map GVK (Rules r))"
    and "fst (Reconcile L r E nn w) = None"
  shows "up_to_date L r (view (snd (Reconcile L r E nn w))) nn"
  using Reconcile_run[OF assms(1,2), of nn w None "snd (Reconcile L r E nn w)"] assms(3)
  by (cases "Reconcile L r E nn w") auto

theorem Reconcile_up_to_date_witness:
  "up_to_date example_lib example_reconciler
     (world_view (snd (Reconcile example_lib example_reconciler example_env (example_key ''db'') example_world)))
     (example_key ''db'')"
  by (rule Reconcile_up_to_date)
    (simp_all add: world_documented Reconcile_succeeds[where view = world_view] world_available)

text \<open>
  C15: on a cluster that answers as documented and is available, a reconcile never returns an
  error: each of its writes meets the conditions under which the server accepts it.
\<close>
theorem Reconcile_available:
  assumes "documented L (Rules r) E view" and "available L (Rules r) E view"
  shows "fst (Reconcile L r E nn w) = None"
  by (rule Reconcile_succeeds[OF assms])

theorem Reconcile_available_witness:
  "fst (Reconcile example_lib example_reconciler example_env (example_key ''db'') example_world) = None"
  by (rule Reconcile_available[where view = world_view]) (simp_all add: world_documented world_available)

text \<open>
  C14: a reconcile, failed or not, touches only the SecretUsage and the gauge series of its own
  Secret: no Secret, no workload, no other SecretUsage, no other series and no aggregate
  gauge.
\<close>
theorem Reconcile_touches_only:
  assumes "documented L (Rules r) E view" and "distinct (map GVK (Rules r))"
  shows "same_elsewhere nn (view w) (view (snd (Reconcile L r E nn w)))"
  using Reconcile_run[OF assms, of nn w "fst (Reconcile L r E nn w)" "snd (Reconcile L r E nn w)"] by simp

theorem Reconcile_touches_only_witness:
  "same_elsewhere (example_key ''db'') (world_view example_world)
     (world_view (snd (Reconcile example_lib example_reconciler example_env (example_key ''db'') example_world)))"
  by (rule Reconcile_touches_only) (simp_all add: world_documented)

text \<open>
  C7: whatever fails on the way, including writes whose answer is lost, a reconcile leaves its
  object as it was, as it should be, or with the labels of the new state and the status of
  the old one (the empty status for a new object). It never deletes an object that should
  exist.
\<close>
theorem Reconcile_left_as:
  assumes "documented L (Rules r) E view" and "distinct (map GVK (Rules r))"
  shows "left_as (desired L r (view w) nn) (SecretUsages (view w) nn)
    (SecretUsages (view (snd (Reconcile L r E nn w))) nn)"
  using Reconcile_run[OF assms, of nn w "fst (Reconcile L r E nn w)" "snd (Reconcile L r E nn w)"] by simp

theorem Reconcile_left_as_witness:
  "left_as (desired example_lib example_reconciler (world_view example_world) (example_key ''idle'')) None
     (stored (snd (Reconcile example_lib example_reconciler example_env (example_key ''idle'') example_world))
       (example_key ''idle''))"
  using Reconcile_left_as[of example_lib example_reconciler example_env world_view example_world "example_key ''idle''"]
  by (simp add: world_documented) (simp add: stored_def example_world_def)

section \<open>When nothing is written\<close>

text \<open>What is desired comes back from the server as it was sent: no field of it is left out.\<close>

definition survives_encoding :: "((string, string) gomap \<times> secretUsageStatus) option \<Rightarrow> bool" where
  "survives_encoding want = (case want of None \<Rightarrow> True
     | Some (ls, st) \<Rightarrow> ls \<noteq> empty_gomap \<and> Usages st \<noteq> Slice [])"

lemma with_writes_reads [simp]:
  "GetMetadata (with_writes E W) = GetMetadata E" "GetSecretUsage (with_writes E W) = GetSecretUsage E"
  "ListObjects (with_writes E W) = ListObjects E" "ListSecretUsages (with_writes E W) = ListSecretUsages E"
  "SetLabelValues (with_writes E W) = SetLabelValues E" "DeleteLabelValues (with_writes E W) = DeleteLabelValues E"
  by (simp_all add: with_writes_def)

lemma collect_rules_reads: "ListObjects E = ListObjects F \<Longrightarrow>
    collect_rules L E ns n rs acc w = collect_rules L F ns n rs acc w"
  by (induction rs arbitrary: acc w) (auto split: prod.split sum.split)

lemma collectUsages_with_writes: "collectUsages L r (with_writes E W) = collectUsages L r E"
proof -
  have "collectPodUsages L r (with_writes E W) = collectPodUsages L r E"
    "\<And>lk. collect_list lk L (with_writes E W) = collect_list lk L E"
    by (simp_all add: fun_eq_iff collectPodUsages_def collect_list_def)
  moreover have "collectCustomResourceUsages L r (with_writes E W) = collectCustomResourceUsages L r E"
    using collect_rules_reads[of "with_writes E W" E L] by (simp add: fun_eq_iff collectCustomResourceUsages_def)
  ultimately have "collectors L r (with_writes E W) = collectors L r E"
    by (simp add: collectors_def collectDeploymentUsages_def collectStatefulSetUsages_def
        collectDaemonSetUsages_def collectJobUsages_def collectCronJobUsages_def collectReplicaSetUsages_def
        collectReplicationControllerUsages_def collectServiceAccountUsages_def collectIngressUsages_def)
  then show ?thesis by (simp add: fun_eq_iff collectUsages_def)
qed

lemma reads_with_writes:
  "secretExists L (with_writes E W) = secretExists L E"
  "recordSecretMetrics r (with_writes E W) = recordSecretMetrics r E"
  "clearSecretMetrics r (with_writes E W) = clearSecretMetrics r E"
  by (simp_all add: fun_eq_iff secretExists_def recordSecretMetrics_def clearSecretMetrics_def)

lemma Reconcile_reads:
  assumes "documented_reads L (Rules r) E view" "distinct (map GVK (Rules r))"
    and "secretExists L E nn w = (Inr b, w1)" "collectUsages L r E (nn_Namespace nn) (nn_Name nn) w1 = (Inr all, w2)"
  shows "view w2 = view w"
    and "desired L r (view w) nn = None \<Longrightarrow>
      Reconcile L r E nn w = (case deleteSecretUsageIfPresent E nn w2 of
        (Some err, w) \<Rightarrow> (Some err, w)
      | (None, w) \<Rightarrow> (None, clearSecretMetrics r E (nn_Namespace nn) (nn_Name nn) w))"
    and "desired L r (view w) nn = Some (ls, st) \<Longrightarrow>
      Reconcile L r E nn w = write_usage E nn ls st
        (recordSecretMetrics r E (nn_Namespace nn) (nn_Name nn) (Exists st)
          (int (length (usages_in L r (view w) nn))) (Truncated st) w2)"
proof -
  have v1: "view w1 = view w" and b: "b = (nn \<in> set (Secrets (view w)))"
    using secretExists_sound[OF assms(1,3)] by simp_all
  note col = collectUsages_sound[OF assms(1,2), of "nn_Namespace nn" "nn_Name nn" w1]
  show v2: "view w2 = view w" using col(1) v1 by (simp add: assms(4))
  have all: "all = Slice (sort_Slice usageReferenceLess (usages_in L r (view w) nn))"
    using col(2)[of all] v1 by (simp add: assms(4))
  obtain us tot tr where tr: "truncateUsages r all = (us, tot, tr)" by (metis prod_cases3)
  note des = desired_conv[OF refl b tr[unfolded all]]
  have rec: "Reconcile L r E nn w =
      (if tot = 0 \<and> \<not> (b \<and> TrackUnusedSecrets r) then
         (case deleteSecretUsageIfPresent E nn w2 of
            (Some err, w) \<Rightarrow> (Some err, w)
          | (None, w) \<Rightarrow> (None, clearSecretMetrics r E (nn_Namespace nn) (nn_Name nn) w))
       else write_usage E nn (desiredLabelsFor L (nn_Name nn) b tot)
         \<lparr>st_SecretName = nn_Name nn, Exists = b, UsageCount = int32_of_int tot, Truncated = tr, Usages = us\<rparr>
         (recordSecretMetrics r E (nn_Namespace nn) (nn_Name nn) b tot tr w2))"
    by (simp only: Reconcile_def assms(3,4) tr prod.case sum.case Let_def)
  show "desired L r (view w) nn = None \<Longrightarrow>
      Reconcile L r E nn w = (case deleteSecretUsageIfPresent E nn w2 of
        (Some err, w) \<Rightarrow> (Some err, w)
      | (None, w) \<Rightarrow> (None, clearSecretMetrics r E (nn_Namespace nn) (nn_Name nn) w))"
    unfolding rec des(1) by (auto split: if_splits)
  show "desired L r (view w) nn = Some (ls, st) \<Longrightarrow>
      Reconcile L r E nn w = write_usage E nn ls st
        (recordSecretMetrics r E (nn_Namespace nn) (nn_Name nn) (Exists st)
          (int (length (usages_in L r (view w) nn))) (Truncated st) w2)"
    unfolding rec des(1) des(2)[symmetric] by (auto split: if_splits)
qed


lemma no_write_run:
  assumes "documented_reads L (Rules r) E view" and "documented_series E view" and "distinct (map GVK (Rules r))"
    and "up_to_date L r (view w) nn" and "survives_encoding (desired L r (view w) nn)"
  shows "Reconcile L r (with_writes E W) nn w = Reconcile L r E nn w \<and>
    SecretUsages (view (snd (Reconcile L r E nn w))) = SecretUsages (view w)"
proof -
  have R: "documented_reads L (Rules r) (with_writes E W) view"
    using assms(1) by (simp add: documented_reads_def)
  obtain ex w1 where ex: "secretExists L E nn w = (ex, w1)" by force
  obtain col w2 where col: "collectUsages L r E (nn_Namespace nn) (nn_Name nn) w1 = (col, w2)" by force
  have v1: "view w1 = view w" using secretExists_sound[OF assms(1) ex] by simp
  have v2: "view w2 = view w"
    using collectUsages_sound(1)[OF assms(1,3), of "nn_Namespace nn" "nn_Name nn" w1] col v1 by simp
  show ?thesis
  proof (cases "isl ex \<or> isl col")
    case True
    then show ?thesis
      by (auto simp: Reconcile_def reads_with_writes collectUsages_with_writes ex col v1 v2 isl_def
          split: sum.splits)
  next
    case False
    then obtain b all where Inr: "ex = Inr b" "col = Inr all" by (metis sum.collapse(2))
    note E1 = Reconcile_reads[OF assms(1,3) ex[unfolded Inr] col[unfolded Inr]]
    note E2 = Reconcile_reads[OF R assms(3), unfolded reads_with_writes collectUsages_with_writes,
      OF ex[unfolded Inr] col[unfolded Inr]]
    show ?thesis
    proof (cases "desired L r (view w) nn")
      case None
      obtain got w3 where got: "GetSecretUsage E nn w2 = (got, w3)" by force
      note g = get_usage_sound[OF assms(1) got]
      have absent: "SecretUsages (view w) nn = None" using assms(4) None by (simp add: up_to_date_def)
      then obtain e where e: "got = Inl e" using g v2 by (cases got) auto
      have "deleteSecretUsageIfPresent F nn w2 = (IgnoreNotFound (Some e), w3)" if "GetSecretUsage F = GetSecretUsage E" for F :: "'b env"
        using that by (simp add: deleteSecretUsageIfPresent_def got e)
      then have d: "deleteSecretUsageIfPresent E nn w2 = (IgnoreNotFound (Some e), w3)"
        "deleteSecretUsageIfPresent (with_writes E W) nn w2 = (IgnoreNotFound (Some e), w3)" by simp_all
      show ?thesis
        using g(1) v2 by (auto simp: E1(2)[OF None] E2(2)[OF None] d clear_sound[OF assms(2)] split: option.split)
    next
      case (Some want)
      obtain ls st where want: "want = (ls, st)" by force
      let ?w3 = "recordSecretMetrics r E (nn_Namespace nn) (nn_Name nn) (Exists st)
          (int (length (usages_in L r (view w) nn))) (Truncated st) w2"
      have su3: "SecretUsages (view ?w3) = SecretUsages (view w)" by (simp add: record_sound[OF assms(2)] v2)
      obtain got w4 where got: "GetSecretUsage E nn ?w3 = (got, w4)" by force
      note g = get_usage_sound[OF assms(1) got]
      obtain su where su: "SecretUsages (view w) nn = Some su" "holds (ls, st) su"
        using assms(4) Some want by (auto simp: up_to_date_def split: option.splits)
      have same: "Labels (ObjectMeta su) = ls" "Status su = st"
        using su(2) assms(5) Some want
        by (auto simp: holds_def survives_encoding_def omitempty_map_fix[symmetric] wire_status_fix[symmetric])
      have "write_usage F nn ls st ?w3 = (case got of Inl e \<Rightarrow> (Some e, w4) | Inr _ \<Rightarrow> (None, w4))"
        if "GetSecretUsage F = GetSecretUsage E" for F :: "'b env"
        using that g same su su3
        by (cases got) (auto simp: write_usage_def update_usage_def got split: prod.splits)
      then have d: "write_usage E nn ls st ?w3 = (case got of Inl e \<Rightarrow> (Some e, w4) | Inr _ \<Rightarrow> (None, w4))"
        "write_usage (with_writes E W) nn ls st ?w3 = (case got of Inl e \<Rightarrow> (Some e, w4) | Inr _ \<Rightarrow> (None, w4))"
        by simp_all
      show ?thesis
        using g(1) su3 by (auto simp: E1(3)[OF Some[unfolded want]] E2(3)[OF Some[unfolded want]] d split: sum.split)
    qed
  qed
qed

text \<open>
  C13: idempotence. When an object is up to date and nothing of what is desired is lost in
  encoding, a reconcile calls no write operation of the API, so it is the same reconcile
  whatever these operations do, and no SecretUsage changes.
\<close>
theorem Reconcile_no_write:
  assumes "documented_reads L (Rules r) E view" and "documented_series E view" and "distinct (map GVK (Rules r))"
    and "up_to_date L r (view w) nn" and "survives_encoding (desired L r (view w) nn)"
  shows "Reconcile L r (with_writes E W) nn w = Reconcile L r E nn w \<and>
    SecretUsages (view (snd (Reconcile L r E nn w))) = SecretUsages (view w)"
  by (rule no_write_run[OF assms])

text \<open>The example cluster after a first reconcile of a name.\<close>

definition settled_world :: "string \<Rightarrow> world" where
  "settled_world n = snd (Reconcile example_lib example_reconciler example_env (example_key n) example_world)"

lemma settled:
  "up_to_date example_lib example_reconciler (world_view (settled_world n)) (example_key n)"
  "desired example_lib example_reconciler (world_view (settled_world n)) (example_key n) =
     desired example_lib example_reconciler (world_view example_world) (example_key n)"
proof -
  have D: "documented example_lib (Rules example_reconciler) example_env world_view"
    by (simp add: world_documented)
  have "Reconcile example_lib example_reconciler example_env (example_key n) example_world = (None, settled_world n)"
    using Reconcile_succeeds[OF D, of "example_key n" example_world] world_available[of example_lib "[]"]
    by (simp add: settled_world_def prod_eq_iff)
  from Reconcile_run[OF D _ this]
  have run: "same_elsewhere (example_key n) (world_view example_world) (world_view (settled_world n))"
    "up_to_date example_lib example_reconciler (world_view (settled_world n)) (example_key n)" by simp_all
  show "up_to_date example_lib example_reconciler (world_view (settled_world n)) (example_key n)" by (rule run(2))
  show "desired example_lib example_reconciler (world_view (settled_world n)) (example_key n) =
     desired example_lib example_reconciler (world_view example_world) (example_key n)"
    by (rule desired_cong) (use run(1) in \<open>simp_all add: same_elsewhere_def\<close>)
qed

definition refusing_env :: "world env" where
  "refusing_env = example_env\<lparr>Create := (\<lambda>su w. (Inl conflict, w)), Patch := (\<lambda>su base w. (Inl conflict, w)),
     StatusPatch := (\<lambda>su base w. (Inl conflict, w))\<rparr>"

theorem Reconcile_no_write_witness:
  "Reconcile example_lib example_reconciler (with_writes example_env refusing_env) (example_key ''db'') (settled_world ''db'') =
   Reconcile example_lib example_reconciler example_env (example_key ''db'') (settled_world ''db'')"
  using Reconcile_no_write[of example_lib example_reconciler example_env world_view "settled_world ''db''"
      "example_key ''db''" refusing_env]
    settled[of "''db''"] world_documented[of example_lib "[]"]
  by (simp add: documented_def example_desired_db survives_encoding_def)

text \<open>
  C18: the exception. An existing Secret without references that is tracked as unused is patched by
  every reconcile, even when the stored object already is as desired: the desired list is
  empty but not nil, the list read back is nil, and the two differ under
  \<open>reflect.DeepEqual\<close>. The status sent is encoded as the one that is stored.
\<close>
theorem unused_patched_again:
  assumes "documented L (Rules r) E view" and "available L (Rules r) E view" and "distinct (map GVK (Rules r))"
    and "usages_in L r (view w) nn = []" and "nn \<in> set (Secrets (view w))" and "TrackUnusedSecrets r"
    and "IsValidLabelValue L (nn_Name nn) = []"
    and "SecretUsages (view w) nn = Some su" and "up_to_date L r (view w) nn"
  shows "\<exists>st w'. wire_status st = Status su \<and> st \<noteq> Status su \<and>
    Reconcile L r E nn w = return_error (StatusPatch E (su\<lparr>Status := st\<rparr>) su w')"
proof -
  have R: "documented_reads L (Rules r) E view" and M: "documented_series E view"
    using assms(1) by (simp_all add: documented_def)
  obtain ex w1 where ex: "secretExists L E nn w = (ex, w1)" by force
  obtain col w2 where col: "collectUsages L r E (nn_Namespace nn) (nn_Name nn) w1 = (col, w2)" by force
  have "\<not> isl col" using collectUsages_available[OF assms(2), of "nn_Namespace nn" "nn_Name nn" w1] col by simp
  moreover have "\<not> isl ex"
    using secretExists_available[OF assms(2), of nn w] ex by simp
  ultimately obtain b all where Inr: "ex = Inr b" "col = Inr all" by (metis sum.collapse(2))
  note E1 = Reconcile_reads[OF R assms(3) ex[unfolded Inr] col[unfolded Inr]]
  define ls where "ls = desiredLabelsFor L (nn_Name nn) True 0"
  define st where "st = \<lparr>st_SecretName = nn_Name nn, Exists = True, UsageCount = int32_of_int 0,
    Truncated = False, Usages = Slice []\<rparr>"
  have want: "desired L r (view w) nn = Some (ls, st)"
    using assms(4-6) by (simp add: desired_def ls_def st_def maxUsages_def DefaultMaxUsages_def)
  have h: "holds (ls, st) su" using assms(8,9) want by (simp add: up_to_date_def)
  have "ls \<noteq> empty_gomap"
    using assms(7) by (auto simp: ls_def desiredLabelsFor_def Let_def lookup_empty dest: arg_cong[where f = "\<lambda>m. gomap_lookup m UnusedLabel"])
  then have lab: "Labels (ObjectMeta su) = ls" using h by (simp add: holds_def omitempty_map_fix[symmetric])
  have stat: "Status su = wire_status st" "st \<noteq> wire_status st"
    using h by (simp_all add: holds_def st_def wire_status_def)
  let ?w3 = "recordSecretMetrics r E (nn_Namespace nn) (nn_Name nn) (Exists st)
      (int (length (usages_in L r (view w) nn))) (Truncated st) w2"
  have su3: "SecretUsages (view ?w3) = SecretUsages (view w)" by (simp add: record_sound[OF M] E1(1))
  obtain got w4 where got: "GetSecretUsage E nn ?w3 = (got, w4)" by force
  note g = get_usage_sound[OF R got]
  have "got = Inr su"
  proof (cases got)
    case (Inl e)
    then have "IsNotFound e" using assms(2) got unfolding available_def by (metis fst_conv)
    then show ?thesis using g(3)[OF Inl] su3 assms(8) by simp
  next
    case (Inr x)
    then show ?thesis using g(2)[OF Inr] su3 assms(8) by simp
  qed
  then have "Reconcile L r E nn w = return_error (StatusPatch E (su\<lparr>Status := st\<rparr>) su w4)"
    using stat lab by (simp add: E1(3)[OF want] write_usage_def got update_usage_def)
  then show ?thesis using stat by metis
qed

theorem unused_patched_again_witness:
  "\<exists>su st w'. stored (settled_world ''idle'') (example_key ''idle'') = Some su \<and> st \<noteq> Status su \<and>
     Reconcile example_lib example_reconciler example_env (example_key ''idle'') (settled_world ''idle'') =
     return_error (world_status (su\<lparr>Status := st\<rparr>) w')"
proof -
  note d = settled[of "''idle''"]
  then obtain su where su: "stored (settled_world ''idle'') (example_key ''idle'') = Some su"
    by (auto simp: up_to_date_def example_desired_idle split: option.splits)
  have "same_elsewhere (example_key ''idle'') (world_view example_world) (world_view (settled_world ''idle''))"
    using Reconcile_run[of example_lib example_reconciler example_env world_view "example_key ''idle''" example_world]
    by (simp add: world_documented settled_world_def prod_eq_iff)
  then have same: "Objects (w_cluster (settled_world ''idle'')) = Objects (world_view example_world)"
    "Secrets (w_cluster (settled_world ''idle'')) = Secrets (world_view example_world)"
    by (simp_all add: same_elsewhere_def)
  have "usages_in example_lib example_reconciler (world_view example_world) (example_key ''idle'') = []"
    by code_simp
  then have "usages_in example_lib example_reconciler (world_view (settled_world ''idle'')) (example_key ''idle'') = []"
    using same by (simp add: usages_in_def)
  moreover have "IsValidLabelValue example_lib ''idle'' = []" by (simp add: example_lib_def)
  moreover have "example_key ''idle'' \<in> set (Secrets (w_cluster example_world))"
    by (simp add: example_world_def)
  ultimately show ?thesis
    using unused_patched_again[of example_lib example_reconciler example_env world_view "settled_world ''idle''" "example_key ''idle''" su]
      d(1) su same
    by (auto simp: world_documented world_available world_env_status example_reconciler_def)
qed

section \<open>Counts and gauges\<close>

text \<open>
  C36: what a successful reconcile has stored is bounded by the configured limit and says when it
  is cut short: the list is a prefix of the sorted references, \<open>truncated\<close> tells whether any is
  missing, and the count is the number of references as 32 bits hold it, which is the true
  number exactly below \<open>2^31\<close>.
\<close>
theorem Reconcile_records:
  assumes "documented L (Rules r) E view" and "distinct (map GVK (Rules r))"
    and "fst (Reconcile L r E nn w) = None"
    and "SecretUsages (view (snd (Reconcile L r E nn w))) nn = Some su"
  shows "elems (Usages (Status su)) = take (nat (maxUsages r)) (sort_Slice usageReferenceLess (usages_in L r (view w) nn)) \<and>
    (Truncated (Status su) \<longleftrightarrow> length (elems (Usages (Status su))) < length (usages_in L r (view w) nn)) \<and>
    sint (UsageCount (Status su)) = (int (length (usages_in L r (view w) nn)) + 2 ^ 31) mod 2 ^ 32 - 2 ^ 31 \<and>
    (sint (UsageCount (Status su)) = int (length (usages_in L r (view w) nn)) \<longleftrightarrow> length (usages_in L r (view w) nn) < 2 ^ 31) \<and>
    (Exists (Status su) \<longleftrightarrow> nn \<in> set (Secrets (view w)))"
proof -
  let ?us = "usages_in L r (view w) nn"
  have "Reconcile L r E nn w = (None, snd (Reconcile L r E nn w))" using assms(3) by (metis prod.collapse)
  from Reconcile_run[OF assms(1,2) this]
  have run: "same_elsewhere nn (view w) (view (snd (Reconcile L r E nn w)))"
    "up_to_date L r (view (snd (Reconcile L r E nn w))) nn" by simp_all
  have "desired L r (view (snd (Reconcile L r E nn w))) nn = desired L r (view w) nn"
    by (rule desired_cong) (use run(1) in \<open>simp_all add: same_elsewhere_def\<close>)
  with run(2) obtain want where want: "desired L r (view w) nn = Some want" "Status su = wire_status (snd want)"
    using assms(4) by (auto simp: up_to_date_def holds_def split: option.splits)
  have pos: "0 < maxUsages r" by (simp add: maxUsages_def DefaultMaxUsages_def)
  have st: "Usages (Status su) = omitempty_slice (Slice (take (nat (maxUsages r)) (sort_Slice usageReferenceLess ?us)))"
    "Truncated (Status su) = (int (length ?us) > maxUsages r)" "UsageCount (Status su) = int32_of_int (int (length ?us))"
    "Exists (Status su) = (nn \<in> set (Secrets (view w)))"
    using want by (auto simp: desired_def Let_def wire_status_def split: if_splits)
  have cnt: "sint (UsageCount (Status su)) = (int (length ?us) + 2 ^ 31) mod 2 ^ 32 - 2 ^ 31"
    by (simp only: st sint_int32)
  have "sint (UsageCount (Status su)) = int (length ?us) \<longleftrightarrow> length ?us < 2 ^ 31"
  proof
    assume "sint (UsageCount (Status su)) = int (length ?us)"
    then have "int (length ?us) < 2 ^ 31" using sint_less[of "UsageCount (Status su)"] by simp
    then show "length ?us < 2 ^ 31" by simp
  next
    assume "length ?us < 2 ^ 31"
    then show "sint (UsageCount (Status su)) = int (length ?us)" by (simp only: st) (rule sint_int32_of_int; simp)
  qed
  then show ?thesis
    using cnt st pos by (auto simp: length_sort_Slice min_def simp del: One_nat_def)
qed

theorem Reconcile_records_witness:
  "\<exists>su. SecretUsages (world_view (settled_world ''db'')) (example_key ''db'') = Some su \<and>
     Truncated (Status su) \<and> length (elems (Usages (Status su))) = 1"
proof -
  obtain su where su: "SecretUsages (world_view (settled_world ''db'')) (example_key ''db'') = Some su"
    using settled[of "''db''"] by (auto simp: up_to_date_def example_desired_db split: option.splits)
  have two: "length (usages_in example_lib example_reconciler (world_view example_world) (example_key ''db'')) = 2"
    by code_simp
  have D: "documented example_lib (Rules example_reconciler) example_env world_view"
    by (simp add: world_documented)
  have ok: "fst (Reconcile example_lib example_reconciler example_env (example_key ''db'') example_world) = None"
    by (rule Reconcile_succeeds[OF D]) (simp add: world_available)
  have "maxUsages example_reconciler = 1" by code_simp
  then show ?thesis
    using Reconcile_records[OF D _ ok su[unfolded settled_world_def]] su two by simp
qed

text \<open>
  C37: with per-Secret metrics on, a reconcile that returns no error leaves the three gauges of its
  Secret at the number of references, whether it exists and whether the list was truncated,
  and without a series if there is nothing to track; with them off it exports nothing.
\<close>
theorem Reconcile_series:
  assumes "documented L (Rules r) E view" and "distinct (map GVK (Rules r))"
    and "fst (Reconcile L r E nn w) = None"
  shows "Series (view (snd (Reconcile L r E nn w))) v [nn_Namespace nn, nn_Name nn] =
    (if PerSecretMetrics r then series_of L r (view w) nn v else Series (view w) v [nn_Namespace nn, nn_Name nn])"
  using Reconcile_run[OF assms(1,2), of nn w None "snd (Reconcile L r E nn w)"] assms(3)
  by (cases "Reconcile L r E nn w") auto

theorem Reconcile_series_witness:
  "Series (world_view (settled_world ''db'')) SecretReferences [''default'', ''db''] = Some 2"
proof -
  have "fst (Reconcile example_lib example_reconciler example_env (example_key ''db'') example_world) = None"
    using Reconcile_succeeds[of example_lib example_reconciler example_env world_view] world_documented[of example_lib "[]"]
      world_available[of example_lib "[]"] by simp
  moreover have "series_of example_lib example_reconciler (world_view example_world) (example_key ''db'') SecretReferences = Some 2"
  proof -
    have "length (usages_in example_lib example_reconciler (world_view example_world) (example_key ''db'')) = 2"
      by code_simp
    then show ?thesis by (simp add: series_of_def example_desired_db float64_exact)
  qed
  ultimately show ?thesis
    using Reconcile_series[of example_lib example_reconciler example_env world_view "example_key ''db''" example_world SecretReferences]
      world_documented[of example_lib "[]"]
    by (simp add: settled_world_def) (simp add: example_reconciler_def)
qed

lemma count_status_loop:
  "m + length xs < 2 ^ 53 \<Longrightarrow> u + length xs < 2 ^ 53 \<Longrightarrow>
   fold count_status xs (int m, int u) =
     (int (m + length (filter (\<lambda>su. \<not> Exists (Status su) \<and> sint (UsageCount (Status su)) > 0) xs)),
      int (u + length (filter (\<lambda>su. Exists (Status su) \<and> sint (UsageCount (Status su)) = 0) xs)))"
proof (induction xs arbitrary: m u)
  case (Cons su xs)
  have inc: "float64_inc (int k) = int (Suc k)" if "Suc k < 2 ^ 53" for k
    using float64_exact[of "int k + 1"] that by (simp add: float64_inc_def algebra_simps)
  show ?case
    using Cons.IH[of "Suc m" u] Cons.IH[of m "Suc u"] Cons.IH[of m u] Cons.prems
    by (auto simp: count_status_def Let_def inc simp del: of_nat_Suc)
qed simp

text \<open>
  C38: a tick that can list the SecretUsage objects sets the aggregate gauges to the number of
  those that report a referenced Secret as missing and of those that report an existing
  Secret as unused; one that cannot leaves them alone. It changes nothing else.
\<close>
theorem aggregate_tick_counts:
  assumes "documented_reads L rs E view" and "documented_gauges E view"
    and "finite (dom (SecretUsages (view w)))" and "card (dom (SecretUsages (view w))) < 2 ^ 53"
  shows "view (aggregate_tick E w) =
    (if isl (fst (ListSecretUsages E [] w)) then view w
     else (view w)\<lparr>Gauges := (\<lambda>g. case g of
       SecretsMissingTotal \<Rightarrow> int (card {nn. \<exists>su. SecretUsages (view w) nn = Some su \<and>
         \<not> Exists (Status su) \<and> sint (UsageCount (Status su)) > 0})
     | SecretsUnusedTotal \<Rightarrow> int (card {nn. \<exists>su. SecretUsages (view w) nn = Some su \<and>
         Exists (Status su) \<and> sint (UsageCount (Status su)) = 0}))\<rparr>)"
proof -
  obtain res w1 where l: "ListSecretUsages E [] w = (res, w1)" by force
  have rd: "reads view w (res, w1) (\<lambda>xs. distinct (map usage_key xs) \<and> set xs = ran (SecretUsages (view w))) True"
    using assms(1) unfolding l[symmetric] by (simp add: documented_reads_def)
  have v: "view w1 = view w" using rd by (simp add: reads_def)
  have key: "SecretUsages (view w) nn = Some su \<Longrightarrow> usage_key su = nn" for nn su
    using assms(1) by (simp add: documented_reads_def)
  show ?thesis
  proof (cases res)
    case (Inr xs)
    have xs: "distinct (map usage_key xs)" "set xs = ran (SecretUsages (view w))"
      using rd by (simp_all add: reads_def Inr)
    have cnt: "length (filter P xs) = card {nn. \<exists>su. SecretUsages (view w) nn = Some su \<and> P su}" for P
    proof -
      have "distinct (map usage_key (filter P xs))" using xs(1) by (rule distinct_map_filter_sub)
      then have "length (filter P xs) = card (set (map usage_key (filter P xs)))"
        by (metis distinct_card length_map)
      also have "set (map usage_key (filter P xs)) = {nn. \<exists>su. SecretUsages (view w) nn = Some su \<and> P su}"
        using xs(2) key by (auto simp: ran_def image_iff) 
      finally show ?thesis .
    qed
    have "length xs < 2 ^ 53" using cnt[of "\<lambda>_. True"] assms(4) by (simp add: dom_def)
    then have "fold count_status xs (0, 0) =
      (int (length (filter (\<lambda>su. \<not> Exists (Status su) \<and> sint (UsageCount (Status su)) > 0) xs)),
       int (length (filter (\<lambda>su. Exists (Status su) \<and> sint (UsageCount (Status su)) = 0) xs)))"
      using count_status_loop[of 0 xs 0] by simp
    moreover have "view (SetGauge E g x w) = (view w)\<lparr>Gauges := (Gauges (view w))(g := x)\<rparr>" for g x w
      using assms(2) by (simp add: documented_gauges_def)
    ultimately show ?thesis
      by (auto simp: aggregate_tick_def l Inr cnt v fun_eq_iff split: gauge.split intro!: cluster.equality)
  qed (simp add: aggregate_tick_def l v)
qed


definition counted_world :: world where
  "counted_world = example_world\<lparr>w_usages :=
     [\<lparr>ObjectMeta = zero_meta\<lparr>Namespace := ''default'', Name := ''db''\<rparr>,
       Status = zero_status\<lparr>st_SecretName := ''db'', UsageCount := 2\<rparr>\<rparr>]\<rparr>"

lemma counted_stored:
  "stored counted_world nn = (if nn = example_key ''db'' then Some
     \<lparr>ObjectMeta = zero_meta\<lparr>Namespace := ''default'', Name := ''db''\<rparr>,
       Status = zero_status\<lparr>st_SecretName := ''db'', UsageCount := 2\<rparr>\<rparr> else None)"
  by (auto simp: stored_def counted_world_def usage_key_def wire_usage_def zero_meta_def wire_status_def zero_status_def)

theorem aggregate_tick_counts_witness:
  "Gauges (world_view (aggregate_tick example_env counted_world)) SecretsMissingTotal = 1 \<and>
   Gauges (world_view (aggregate_tick example_env counted_world)) SecretsUnusedTotal = 0"
proof -
  have dom: "dom (stored counted_world) = {example_key ''db''}" by (auto simp: counted_stored dom_def)
  have cnt: "card {nn. \<exists>su. stored counted_world nn = Some su \<and> \<not> Exists (Status su) \<and> 0 < sint (UsageCount (Status su))} = 1"
    "card {nn. \<exists>su. stored counted_world nn = Some su \<and> Exists (Status su) \<and> sint (UsageCount (Status su)) = 0} = 0"
    by (simp_all add: counted_stored zero_status_def)
  show ?thesis
    using aggregate_tick_counts[of example_lib "[]" example_env world_view counted_world] world_documented[of example_lib "[]"]
      world_gauges[of example_lib "[]"]
      world_available[of example_lib "[]"]
    by (simp add: documented_def available_def dom cnt)
qed

end
