(* ===== verification/Events.thy ===== *)
theory Events
  imports Collect
begin

text \<open>
  The event handlers of \<open>internal/controller/secretusage_controller.go\<close>: which Secret names
  an event on a watched object puts into the work queue. A handler's effect is the list of
  its \<open>q.Add\<close> calls, in order; the queue itself belongs to client-go. A nil object is
  \<open>None\<close>.
\<close>

section \<open>Handlers\<close>

definition enqueueOwnKey :: "clientObject option \<Rightarrow> namespacedName list" where
  "enqueueOwnKey obj = (case obj of
     None \<Rightarrow> []
   | Some obj \<Rightarrow> [\<lparr>nn_Namespace = GetNamespace obj, nn_Name = GetName obj\<rparr>])"

fun secretNamesFor :: "'jp lib \<Rightarrow> 'jp reconciler \<Rightarrow> clientObject \<Rightarrow> string list" where
  "secretNamesFor L r (Unstructured u) =
     (case gomap_lookup (rulesByGVK r) (un_GVK u) of
        None \<Rightarrow> []
      | Some rule \<Rightarrow> secretNames L rule (Unstructured u))"
| "secretNamesFor L r obj = SecretNamesForObject obj"

definition enqueueObjectSecretReferences ::
    "'jp lib \<Rightarrow> 'jp reconciler \<Rightarrow> clientObject option \<Rightarrow> namespacedName list" where
  "enqueueObjectSecretReferences L r obj = (case obj of
     None \<Rightarrow> []
   | Some obj \<Rightarrow>
       (if skipPod r obj then []
        else
          (let ns = GetNamespace obj
           in map (\<lambda>secretName. \<lparr>nn_Namespace = ns, nn_Name = secretName\<rparr>) (secretNamesFor L r obj))))"

datatype event =
    CreateEvent "clientObject option"
  | UpdateEvent "clientObject option" "clientObject option"
  | DeleteEvent "clientObject option"
  | GenericEvent "clientObject option"

text \<open>The handler of the workload kinds and of the kinds of the rules.\<close>

fun enqueueForSecretConsumer :: "'jp lib \<Rightarrow> 'jp reconciler \<Rightarrow> event \<Rightarrow> namespacedName list" where
  "enqueueForSecretConsumer L r (CreateEvent obj) = enqueueObjectSecretReferences L r obj"
| "enqueueForSecretConsumer L r (UpdateEvent old new) =
     enqueueObjectSecretReferences L r old @ enqueueObjectSecretReferences L r new"
| "enqueueForSecretConsumer L r (DeleteEvent obj) = enqueueObjectSecretReferences L r obj"
| "enqueueForSecretConsumer L r (GenericEvent obj) = enqueueObjectSecretReferences L r obj"

text \<open>
  The handler of SecretUsage objects, of which only two functions are set, and the default
  handler of \<open>For\<close>, which queues the object's own name on every event.
\<close>

fun secretUsageHandler :: "event \<Rightarrow> namespacedName list" where
  "secretUsageHandler (CreateEvent obj) = enqueueOwnKey obj"
| "secretUsageHandler (UpdateEvent _ _) = []"
| "secretUsageHandler (DeleteEvent obj) = enqueueOwnKey obj"
| "secretUsageHandler (GenericEvent _) = []"

end
