(* ===== verification/Setup.thy ===== *)
theory Setup
  imports Events Reconcile
begin

text \<open>
  \<open>SetupWithManager\<close> and \<open>setupRules\<close> of \<open>internal/controller/secretusage_controller.go\<close>:
  which rules stay, which indexes are registered and what is watched with which handler. The
  manager and the discovery client are arguments; what is registered with the manager is the
  result.
\<close>

section \<open>The manager\<close>

text \<open>
  \<open>IndexField\<close>, \<open>Add\<close> and the builder's last call \<open>Complete\<close> change the manager, of an
  arbitrary type \<open>'m\<close>, and may fail. The discovery client is built from the manager's
  configuration; its one method used returns the kinds of the resources that a group version
  serves.
\<close>

datatype handlerName = ForHandler | ConsumerHandler | SecretUsageHandler

datatype watched = WatchObject clientObject | WatchSecretUsage

type_synonym 'm step = "'m \<Rightarrow> goError option \<times> 'm"

record 'm manager =
  IndexField :: "clientObject \<Rightarrow> string \<Rightarrow> (clientObject \<Rightarrow> string list) \<Rightarrow> 'm step"
  AddRunnable :: "'m step"
  NewDiscoveryClient :: "goError + (string \<Rightarrow> goError + string list)"
  Complete :: "(watched \<times> handlerName) list \<Rightarrow> 'm step"

section \<open>Rules\<close>

text \<open>The loop over the resources the group version serves; each by its kind.\<close>

fun serves_kind :: "string \<Rightarrow> string list \<Rightarrow> bool" where
  "serves_kind kind [] = False"
| "serves_kind kind (resource # resources) = (if resource = kind then True else serves_kind kind resources)"

definition kindIsInstalled ::
    "'jp lib \<Rightarrow> (string \<Rightarrow> goError + string list) \<Rightarrow> groupVersionKind \<Rightarrow> goError + bool" where
  "kindIsInstalled L serverResources gvk =
     (case serverResources (gvString L (GroupVersion gvk)) of
        Inl err \<Rightarrow> if IsNotFound err \<or> IsNoMatchError err then Inr False else Inl err
      | Inr resources \<Rightarrow> Inr (serves_kind (Kind gvk) resources))"

fun installed_rules ::
    "'jp lib \<Rightarrow> (string \<Rightarrow> goError + string list) \<Rightarrow> 'jp compiledRule list \<Rightarrow> 'jp compiledRule list \<Rightarrow>
     goError + 'jp compiledRule list" where
  "installed_rules L serverResources installed [] = Inr installed"
| "installed_rules L serverResources installed (rule # rules) =
     (case kindIsInstalled L serverResources (GVK rule) of
        Inl err \<Rightarrow> Inl (ErrCheck (GVK rule) err)
      | Inr served \<Rightarrow>
          (if \<not> served then installed_rules L serverResources installed rules
           else installed_rules L serverResources (installed @ [rule]) rules))"

text \<open>The second loop: \<open>rulesByGVK\<close> is filled while the indexes are registered.\<close>

fun index_rules ::
    "'jp lib \<Rightarrow> 'm manager \<Rightarrow> (groupVersionKind, 'jp compiledRule) gomap \<Rightarrow> 'jp compiledRule list \<Rightarrow>
     ('m, (groupVersionKind, 'jp compiledRule) gomap) call" where
  "index_rules L mgr byGVK [] m = (Inr byGVK, m)"
| "index_rules L mgr byGVK (rule # rules) m =
     (let byGVK = gomap_put (GVK rule) rule byGVK; indexRule = rule in
      case IndexField mgr (rule_Object L indexRule) SecretNameIndexField (secretNames L indexRule) m of
        (Some err, m) \<Rightarrow> (Inl (ErrIndex (GVK indexRule) err), m)
      | (None, m) \<Rightarrow> index_rules L mgr byGVK rules m)"

definition setupRules :: "'jp lib \<Rightarrow> 'm manager \<Rightarrow> 'jp reconciler \<Rightarrow> ('m, 'jp reconciler) call" where
  "setupRules L mgr r m =
     (if Rules r = [] then (Inr r, m)
      else case NewDiscoveryClient mgr of
        Inl err \<Rightarrow> (Inl (ErrBuildDiscovery err), m)
      | Inr discoveryClient \<Rightarrow>
          (case installed_rules L discoveryClient [] (Rules r) of
             Inl err \<Rightarrow> (Inl err, m)
           | Inr installed \<Rightarrow>
               (let r = r\<lparr>Rules := installed\<rparr> in
                case index_rules L mgr empty_gomap (Rules r) m of
                  (Inl err, m) \<Rightarrow> (Inl err, m)
                | (Inr byGVK, m) \<Rightarrow> (Inr (r\<lparr>rulesByGVK := byGVK\<rparr>), m))))"

section \<open>SetupWithManager\<close>

fun index_objects :: "'m manager \<Rightarrow> clientObject list \<Rightarrow> 'm step" where
  "index_objects mgr [] m = (None, m)"
| "index_objects mgr (obj # objs) m =
     (case IndexField mgr obj SecretNameIndexField (\<lambda>raw. SecretNamesForObject raw) m of
        (Some err, m) \<Rightarrow> (Some err, m)
      | (None, m) \<Rightarrow> index_objects mgr objs m)"

definition watches :: "'jp lib \<Rightarrow> 'jp reconciler \<Rightarrow> (watched \<times> handlerName) list" where
  "watches L r =
     (let builder = [(WatchObject (secretMetadataObject L), ForHandler)];
          builder = fold (\<lambda>obj builder. builder @ [(WatchObject obj, ConsumerHandler)]) IndexedObjects builder;
          builder = fold (\<lambda>rule builder. builder @ [(WatchObject (rule_Object L rule), ConsumerHandler)]) (Rules r) builder
      in builder @ [(WatchSecretUsage, SecretUsageHandler)])"

text \<open>The receiver \<open>r\<close> after the method, which \<open>Complete\<close> was given.\<close>

definition SetupWithManager :: "'jp lib \<Rightarrow> 'm manager \<Rightarrow> 'jp reconciler \<Rightarrow> ('m, 'jp reconciler) call" where
  "SetupWithManager L mgr r m =
     (case index_objects mgr IndexedObjects m of
        (Some err, m) \<Rightarrow> (Inl err, m)
      | (None, m) \<Rightarrow>
          (case setupRules L mgr r m of
             (Inl err, m) \<Rightarrow> (Inl err, m)
           | (Inr r, m) \<Rightarrow>
               (case AddRunnable mgr m of
                  (Some err, m) \<Rightarrow> (Inl err, m)
                | (None, m) \<Rightarrow>
                    (case Complete mgr (watches L r) m of
                       (Some err, m) \<Rightarrow> (Inl err, m)
                     | (None, m) \<Rightarrow> (Inr r, m)))))"

section \<open>The rules that stay\<close>

definition kind_served :: "'jp lib \<Rightarrow> (string \<Rightarrow> goError + string list) \<Rightarrow> groupVersionKind \<Rightarrow> bool" where
  "kind_served L serverResources gvk \<longleftrightarrow>
     (case serverResources (gvString L (GroupVersion gvk)) of Inl _ \<Rightarrow> False | Inr kinds \<Rightarrow> Kind gvk \<in> set kinds)"

lemma serves_kind_conv: "serves_kind kind ks \<longleftrightarrow> kind \<in> set ks"
  by (induction ks) auto

lemma kindIsInstalled_Inr: "kindIsInstalled L disc gvk = Inr b \<Longrightarrow> b = kind_served L disc gvk"
  by (auto simp: kindIsInstalled_def kind_served_def serves_kind_conv split: sum.splits if_splits)

lemma installed_rules_Inr:
  "installed_rules L disc acc rules = Inr installed \<Longrightarrow>
     installed = acc @ filter (\<lambda>rule. kind_served L disc (GVK rule)) rules"
proof (induction rules arbitrary: acc)
  case (Cons rule rules)
  then obtain served where served: "kindIsInstalled L disc (GVK rule) = Inr served"
    by (auto split: sum.splits)
  show ?case
    using Cons.prems Cons.IH[of acc] Cons.IH[of "acc @ [rule]"] kindIsInstalled_Inr[OF served]
    by (auto simp: served split: if_splits)
qed simp

lemma index_rules_lookup:
  assumes "index_rules L mgr byGVK rules m = (Inr byGVK', m')" "distinct (map GVK rules)" "byGVK \<noteq> NilMap"
  shows "gomap_lookup byGVK' g = (case rule_for g rules of Some rule \<Rightarrow> Some rule | None \<Rightarrow> gomap_lookup byGVK g)"
  using assms
proof (induction rules arbitrary: byGVK m)
  case (Cons rule rules)
  from Cons.prems obtain m1 where rest: "index_rules L mgr (gomap_put (GVK rule) rule byGVK) rules m1 = (Inr byGVK', m')"
    by (auto simp: Let_def split: prod.splits option.splits)
  have "rule_for (GVK rule) rules = None" using Cons.prems(2) by (simp add: rule_for_None)
  then show ?case using Cons.IH[OF rest] Cons.prems by (auto split: option.splits)
qed simp

text \<open>What event handling and the index both rely on: one rule per kind, and the map agrees.\<close>

definition rules_agree :: "'jp reconciler \<Rightarrow> bool" where
  "rules_agree r \<longleftrightarrow> distinct (map GVK (Rules r)) \<and>
     (\<forall>g. gomap_lookup (rulesByGVK r) g = rule_for g (Rules r))"

lemma rules_agree_nil: "Rules r = [] \<Longrightarrow> rulesByGVK r = NilMap \<Longrightarrow> rules_agree r"
  by (simp add: rules_agree_def)

lemma setupRules_agree:
  assumes "setupRules L mgr r m = (Inr r', m')" "distinct (map GVK (Rules r))" "rulesByGVK r = NilMap"
  shows "rules_agree r'"
proof (cases "Rules r = []")
  case True
  then show ?thesis using assms by (auto simp: setupRules_def intro: rules_agree_nil)
next
  case False
  then obtain disc installed byGVK where i: "installed_rules L disc [] (Rules r) = Inr installed"
    "index_rules L mgr empty_gomap installed m = (Inr byGVK, m')"
    "r' = r\<lparr>Rules := installed, rulesByGVK := byGVK\<rparr>"
    using assms(1) by (auto simp: setupRules_def Let_def split: sum.splits prod.splits)
  have "distinct (map GVK installed)"
    using installed_rules_Inr[OF i(1)] assms(2) by (simp add: distinct_map_filter)
  then show ?thesis
    using index_rules_lookup[OF i(2)] by (auto simp: rules_agree_def i(3) lookup_empty split: option.split)
qed

end
