(* ===== verification/SetupProps.thy ===== *)
theory SetupProps
  imports Setup ExampleCluster
begin

text \<open>
  The properties of start-up (\<open>LoadRules\<close>, \<open>setupRules\<close>, \<open>SetupWithManager\<close>) and of the event
  handlers.
\<close>

section \<open>Start-up\<close>

lemma CompileRules_distinct: "CompileRules L rules = Inr cs \<Longrightarrow> distinct (map GVK cs)"
proof -
  assume "CompileRules L rules = Inr cs"
  then have c: "list_all2 (compiles_to L) rules cs" "distinct (map (rule_gvk L) rules)"
    using compile_loop_Inr[of L 0 "[]" "[]" rules cs] by (auto simp: CompileRules_def Let_def)
  have "map GVK cs = map (rule_gvk L) rules"
    using c(1) by (induction rule: list_all2_induct) (auto simp: compiles_to_def)
  then show ?thesis using c(2) by simp
qed

lemma LoadRules_distinct: "LoadRules L rd um path = Inr cs \<Longrightarrow> distinct (map GVK cs)"
  by (auto simp: LoadRules_def CompileRules_distinct split: if_splits sum.splits)

lemma SetupWithManager_Inr:
  assumes "SetupWithManager L mgr r m = (Inr r', m')"
  obtains m1 m2 m3 where "index_objects mgr IndexedObjects m = (None, m1)" "setupRules L mgr r m1 = (Inr r', m2)"
    "AddRunnable mgr m2 = (None, m3)" "Complete mgr (watches L r') m3 = (None, m')"
  using assms by (auto simp: SetupWithManager_def split: prod.splits option.splits sum.splits)

text \<open>
  C23: when the rules come from a rules file and set-up succeeds, the rules that stay are those
  whose kind the cluster serves, in order, and there is one per kind; \<open>rulesByGVK\<close> finds
  exactly the rule of a kind. This is what reconciling and event handling assume of the
  reconciler.
\<close>
theorem startup_rules:
  assumes "LoadRules L rd um path = Inr cs" and "Rules r = cs" and "rulesByGVK r = NilMap"
    and "fst (SetupWithManager L mgr r m) = Inr r'" and "NewDiscoveryClient mgr = Inr disc"
  shows "rules_agree r' \<and> Rules r' = filter (\<lambda>rule. kind_served L disc (GVK rule)) cs"
proof -
  obtain m' where "SetupWithManager L mgr r m = (Inr r', m')" using assms(4) by (metis prod.collapse)
  then obtain m1 m2 where s: "setupRules L mgr r m1 = (Inr r', m2)" by (rule SetupWithManager_Inr)
  have "Rules r' = filter (\<lambda>rule. kind_served L disc (GVK rule)) (Rules r)"
    using s assms(5) by (auto simp: setupRules_def Let_def split: if_splits sum.splits prod.splits dest: installed_rules_Inr)
  then show ?thesis
    using setupRules_agree[OF s] LoadRules_distinct[OF assms(1)] assms(2,3) by simp
qed

text \<open>
  What a manager must do for the next property: a registered index is added to the list of
  those registered, and the other calls register none.
\<close>

definition registers ::
    "'m manager \<Rightarrow> ('m \<Rightarrow> (clientObject \<times> string \<times> (clientObject \<Rightarrow> string list)) list) \<Rightarrow> bool" where
  "registers mgr log \<longleftrightarrow>
     (\<forall>obj field ix m. case IndexField mgr obj field ix m of
        (None, m') \<Rightarrow> log m' = log m @ [(obj, field, ix)] | (Some _, _) \<Rightarrow> True) \<and>
     (\<forall>m. log (snd (AddRunnable mgr m)) = log m) \<and>
     (\<forall>ws m. log (snd (Complete mgr ws m)) = log m)"

lemma registers_index:
  assumes "registers mgr log" "IndexField mgr obj field ix m = (None, m')"
  shows "log m' = log m @ [(obj, field, ix)]"
proof -
  have "\<forall>obj field ix m. case IndexField mgr obj field ix m of
      (None, m') \<Rightarrow> log m' = log m @ [(obj, field, ix)] | (Some _, _) \<Rightarrow> True"
    using assms(1) unfolding registers_def by (rule conjunct1)
  then have "case IndexField mgr obj field ix m of
      (None, m') \<Rightarrow> log m' = log m @ [(obj, field, ix)] | (Some _, _) \<Rightarrow> True" by (elim allE)
  then show ?thesis by (simp only: assms(2) prod.case option.case)
qed

lemma index_objects_log:
  "registers mgr log \<Longrightarrow> index_objects mgr objs m = (None, m') \<Longrightarrow>
     log m' = log m @ map (\<lambda>obj. (obj, SecretNameIndexField, SecretNamesForObject)) objs"
proof (induction objs arbitrary: m)
  case (Cons obj objs)
  then obtain m1 where i: "IndexField mgr obj SecretNameIndexField SecretNamesForObject m = (None, m1)"
    and rest: "index_objects mgr objs m1 = (None, m')" by (auto split: prod.splits option.splits)
  have "log m1 = log m @ [(obj, SecretNameIndexField, SecretNamesForObject)]"
    by (rule registers_index[OF Cons.prems(1) i])
  then show ?case using Cons.IH[OF Cons.prems(1) rest] by simp
qed simp

lemma index_rules_log:
  "registers mgr log \<Longrightarrow> index_rules L mgr byGVK rules m = (Inr byGVK', m') \<Longrightarrow>
     log m' = log m @ map (\<lambda>rule. (rule_Object L rule, SecretNameIndexField, secretNames L rule)) rules"
proof (induction rules arbitrary: m byGVK)
  case (Cons rule rules)
  then obtain m1 where i: "IndexField mgr (rule_Object L rule) SecretNameIndexField (secretNames L rule) m = (None, m1)"
    and rest: "index_rules L mgr (gomap_put (GVK rule) rule byGVK) rules m1 = (Inr byGVK', m')"
    by (auto simp: Let_def split: prod.splits option.splits)
  have "log m1 = log m @ [(rule_Object L rule, SecretNameIndexField, secretNames L rule)]"
    by (rule registers_index[OF Cons.prems(1) i])
  then show ?case using Cons.IH[OF Cons.prems(1) rest] by simp
qed simp

lemma registered_log:
  assumes "registers mgr log" and "SetupWithManager L mgr r m = (Inr r', m')"
  shows "log m' = log m @ map (\<lambda>obj. (obj, SecretNameIndexField, SecretNamesForObject)) IndexedObjects @
      map (\<lambda>rule. (rule_Object L rule, SecretNameIndexField, secretNames L rule)) (Rules r')"
proof -
  obtain m1 m2 m3 where s: "index_objects mgr IndexedObjects m = (None, m1)" "setupRules L mgr r m1 = (Inr r', m2)"
    "AddRunnable mgr m2 = (None, m3)" "Complete mgr (watches L r') m3 = (None, m')"
    using assms(2) by (rule SetupWithManager_Inr)
  have a: "log m1 = log m @ map (\<lambda>obj. (obj, SecretNameIndexField, SecretNamesForObject)) IndexedObjects"
    by (rule index_objects_log[OF assms(1) s(1)])
  have b: "log m2 = log m1 @ map (\<lambda>rule. (rule_Object L rule, SecretNameIndexField, secretNames L rule)) (Rules r')"
    using s(2) index_rules_log[OF assms(1)]
    by (auto simp: setupRules_def Let_def split: if_splits sum.splits prod.splits)
  have "log (snd (AddRunnable mgr m2)) = log m2" "log (snd (Complete mgr (watches L r') m3)) = log m3"
    using assms(1) by (simp_all only: registers_def)
  then have c: "log m' = log m2" by (simp only: s(3,4) snd_conv)
  show "log m' = log m @ map (\<lambda>obj. (obj, SecretNameIndexField, SecretNamesForObject)) IndexedObjects @
      map (\<lambda>rule. (rule_Object L rule, SecretNameIndexField, secretNames L rule)) (Rules r')"
    unfolding c b a by (rule append_assoc)
qed

text \<open>What the controller was built with is what \<open>Complete\<close> was given.\<close>

definition builds :: "'m manager \<Rightarrow> ('m \<Rightarrow> (watched \<times> handlerName) list) \<Rightarrow> bool" where
  "builds mgr built \<longleftrightarrow>
     (\<forall>ws m. case Complete mgr ws m of (None, m') \<Rightarrow> built m' = ws | (Some _, _) \<Rightarrow> True)"

text \<open>
  C40: a successful set-up has registered the field index of every kind tracked in code with the
  built-in extractor and that of every rule that stays with the rule's own names, each once;
  and it has built a controller that watches the Secret metadata, then each of these kinds with the
  consumer handler, in the order of the indexes, and SecretUsage objects with their own handler.
\<close>
theorem SetupWithManager_registers:
  assumes "registers mgr log" and "builds mgr built" and "SetupWithManager L mgr r m = (Inr r', m')"
  shows "log m' = log m @ map (\<lambda>obj. (obj, SecretNameIndexField, SecretNamesForObject)) IndexedObjects @
      map (\<lambda>rule. (rule_Object L rule, SecretNameIndexField, secretNames L rule)) (Rules r') \<and>
    built m' = (WatchObject (secretMetadataObject L), ForHandler) #
      map (\<lambda>(obj, _). (WatchObject obj, ConsumerHandler)) (drop (length (log m)) (log m')) @
      [(WatchSecretUsage, SecretUsageHandler)]"
proof -
  note log = registered_log[OF assms(1,3)]
  obtain m3 where "Complete mgr (watches L r') m3 = (None, m')" using assms(3) by (rule SetupWithManager_Inr)
  moreover have "case Complete mgr (watches L r') m3 of (None, m') \<Rightarrow> built m' = watches L r' | (Some _, _) \<Rightarrow> True"
    using assms(2) unfolding builds_def by (elim allE)
  ultimately have built: "built m' = watches L r'" by simp
  have f: "fold (\<lambda>x builder. builder @ [g x]) xs acc = acc @ map g xs" for g :: "'x \<Rightarrow> watched \<times> handlerName" and xs acc
    by (induction xs arbitrary: acc) auto
  have "built m' = (WatchObject (secretMetadataObject L), ForHandler) #
      map (\<lambda>(obj, _). (WatchObject obj, ConsumerHandler)) (drop (length (log m)) (log m')) @
      [(WatchSecretUsage, SecretUsageHandler)]"
    unfolding built watches_def Let_def f log by simp
  with log show ?thesis by (rule conjI)
qed

text \<open>A manager that keeps the indexes it is given, in a cluster that serves certificates.\<close>

type_synonym index_log = "(clientObject \<times> string \<times> (clientObject \<Rightarrow> string list)) list"

definition example_discovery :: "string \<Rightarrow> goError + string list" where
  "example_discovery gv = (if gv = ''cert-manager.io/v1'' then Inr [''Issuer'', ''Certificate''] else Inl not_found)"

definition example_manager :: "index_log manager" where
  "example_manager =
     \<lparr>IndexField = (\<lambda>obj field ix m. (None, m @ [(obj, field, ix)])), AddRunnable = (\<lambda>m. (None, m)),
      NewDiscoveryClient = Inr example_discovery, Complete = (\<lambda>_ m. (None, m))\<rparr>"

definition example_ready :: "path reconciler" where
  "example_ready = example_reconciler\<lparr>Rules := [example_compiled],
     rulesByGVK := gomap_put (GVK example_compiled) example_compiled empty_gomap\<rparr>"

lemma example_served: "kindIsInstalled example_lib example_discovery (GVK example_compiled) = Inr True"
  by code_simp

lemma example_setup:
  "fst (SetupWithManager example_lib example_manager (example_reconciler\<lparr>Rules := [example_compiled]\<rparr>) m) = Inr example_ready"
proof -
  have "\<exists>m'. index_objects example_manager objs m = (None, m')" for objs m
    by (induction objs arbitrary: m) (simp_all add: example_manager_def)
  then obtain m' where "index_objects example_manager IndexedObjects m = (None, m')" by blast
  then show ?thesis
    by (simp add: SetupWithManager_def setupRules_def example_served Let_def)
      (simp add: example_manager_def example_served example_ready_def)
qed

theorem startup_rules_witness:
  "rules_agree example_ready \<and> Rules example_ready = [example_compiled]"
proof -
  have load: "LoadRules example_lib (\<lambda>_. Inr ''text'') (\<lambda>_. Inr example_rules) ''rules.yaml'' = Inr [example_compiled]"
    by (simp add: LoadRules_def example_rules_compile)
  have "rules_agree example_ready \<and>
      Rules example_ready = filter (\<lambda>rule. kind_served example_lib example_discovery (GVK rule)) [example_compiled]"
  proof (rule startup_rules[OF load _ _ example_setup[of "[]"]])
    show "Rules (example_reconciler\<lparr>Rules := [example_compiled]\<rparr>) = [example_compiled]" by simp
    show "rulesByGVK (example_reconciler\<lparr>Rules := [example_compiled]\<rparr>) = NilMap" by (simp add: example_reconciler_def)
    show "NewDiscoveryClient example_manager = Inr example_discovery" by (simp add: example_manager_def)
  qed
  moreover have "Rules example_ready = [example_compiled]" by (simp add: example_ready_def)
  ultimately show ?thesis by (rule_tac conjI) (erule conjunct1)
qed

text \<open>A manager that keeps the watches too.\<close>

definition example_builder :: "(index_log \<times> (watched \<times> handlerName) list) manager" where
  "example_builder =
     \<lparr>IndexField = (\<lambda>obj field ix (log, ws). (None, (log @ [(obj, field, ix)], ws))), AddRunnable = (\<lambda>m. (None, m)),
      NewDiscoveryClient = Inr example_discovery, Complete = (\<lambda>ws (log, _). (None, (log, ws)))\<rparr>"

lemma example_build:
  "\<exists>m'. SetupWithManager example_lib example_builder (example_reconciler\<lparr>Rules := [example_compiled]\<rparr>) m = (Inr example_ready, m')"
proof -
  have "\<exists>m'. index_objects example_builder objs m = (None, m')" for objs m
    by (induction objs arbitrary: m) (simp_all add: example_builder_def split: prod.split)
  then obtain m' where "index_objects example_builder IndexedObjects m = (None, m')" by blast
  then show ?thesis
    by (simp add: SetupWithManager_def setupRules_def example_served Let_def)
      (simp add: example_builder_def example_served example_ready_def split: prod.split)
qed

theorem SetupWithManager_registers_witness:
  "\<exists>log ws. SetupWithManager example_lib example_builder (example_reconciler\<lparr>Rules := [example_compiled]\<rparr>) ([], []) =
       (Inr example_ready, (log, ws)) \<and>
     length log = 11 \<and> length ws = 13 \<and> last ws = (WatchSecretUsage, SecretUsageHandler)"
proof -
  obtain log ws where m': "SetupWithManager example_lib example_builder (example_reconciler\<lparr>Rules := [example_compiled]\<rparr>) ([], []) =
      (Inr example_ready, (log, ws))" using example_build[of "([], [])"] by (metis prod.collapse)
  have "registers example_builder fst" "builds example_builder snd"
    by (simp_all add: registers_def builds_def example_builder_def split: prod.split)
  note S = SetupWithManager_registers[OF this m']
  have "length log = length IndexedObjects + length (Rules example_ready)"
    using S[THEN conjunct1] by (simp only: fst_conv length_append length_map append_Nil)
  then have log: "length log = 11" by (simp add: IndexedObjects_def example_ready_def)
  moreover have "length ws = length log + 2" "last ws = (WatchSecretUsage, SecretUsageHandler)"
    using S[THEN conjunct2] by simp_all
  ultimately show ?thesis using m' by auto
qed

end
