(* ===== verification/Startup.thy ===== *)
theory Startup
  imports Setup
begin

text \<open>
  \<open>cmd/main.go\<close>: the configuration from the environment, the options of
  the manager, and the order of start-up (the command line is in \<open>Flags\<close>). \<open>strconv.Atoi\<close> and
  \<open>strconv.ParseBool\<close> are written out; an \<open>int\<close> is 64 bits wide. \<open>os.Getenv\<close> is a function
  (unset variables are empty). The manager's operations, which belong to controller-runtime, are arguments, and so are those of
  the scheme, which belong to apimachinery. Logging and the probes' bodies are left out.
\<close>

section \<open>strconv\<close>

definition max_int :: int where
  "max_int = 2 ^ 63 - 1"

fun split_sign :: "string \<Rightarrow> bool \<times> string" where
  "split_sign [] = (False, [])"
| "split_sign (c # cs) =
     (if c = CHR ''-'' then (True, cs) else if c = CHR ''+'' then (False, cs) else (False, c # cs))"

text \<open>\<open>Atoi\<close>: a sign, at least one digit, nothing else, and a value in range.\<close>

definition Atoi :: "string \<Rightarrow> int option" where
  "Atoi s =
     (let (neg, ds) = split_sign s; n = (if neg then - int (decimal ds) else int (decimal ds)) in
      if ds = [] \<or> \<not> list_all is_digit ds then None
      else if n < - max_int - 1 \<or> n > max_int then None
      else Some n)"

definition ParseBool :: "string \<Rightarrow> bool option" where
  "ParseBool s =
     (if s \<in> set [''1'', ''t'', ''T'', ''TRUE'', ''true'', ''True''] then Some True
      else if s \<in> set [''0'', ''f'', ''F'', ''FALSE'', ''false'', ''False''] then Some False
      else None)"

section \<open>Configuration\<close>

definition envInt :: "(string \<Rightarrow> string) \<Rightarrow> string \<Rightarrow> int \<Rightarrow> int" where
  "envInt Getenv name fallback = (case Atoi (Getenv name) of None \<Rightarrow> fallback | Some vl \<Rightarrow> vl)"

definition envBool :: "(string \<Rightarrow> string) \<Rightarrow> string \<Rightarrow> bool \<Rightarrow> bool" where
  "envBool Getenv name fallback = (case ParseBool (Getenv name) of None \<Rightarrow> fallback | Some vl \<Rightarrow> vl)"

record flags =
  metricsAddr :: string
  probeAddr :: string
  enableLeaderElection :: bool
  watchNamespace :: string
  maxUsagesFlag :: int
  trackOwnedPods :: bool
  trackUnusedSecrets :: bool
  perSecretMetrics :: bool
  rulesFile :: string

text \<open>The values of the flags before \<open>flag.Parse\<close>.\<close>

definition flag_defaults :: "(string \<Rightarrow> string) \<Rightarrow> flags" where
  "flag_defaults Getenv =
     \<lparr>metricsAddr = '':8080'', probeAddr = '':8081'', enableLeaderElection = False,
      watchNamespace = Getenv ''WATCH_NAMESPACE'',
      maxUsagesFlag = envInt Getenv ''MAX_USAGES'' DefaultMaxUsages,
      trackOwnedPods = envBool Getenv ''TRACK_OWNED_PODS'' False,
      trackUnusedSecrets = envBool Getenv ''TRACK_UNUSED_SECRETS'' True,
      perSecretMetrics = envBool Getenv ''PER_SECRET_METRICS'' True,
      rulesFile = Getenv ''RULES_FILE''\<rparr>"

text \<open>
  The manager's cache: the transform of Secrets, and the namespaces it is restricted to (nil
  for all). An object in the cache is a typed Secret or anything else.
\<close>

record secret =
  sec_Meta :: objectMeta
  Data :: "(string, string) gomap"
  StringData :: "(string, string) gomap"

datatype 'o cached = Secret secret | Other 'o

fun secretTransform :: "'o cached \<Rightarrow> goError + 'o cached" where
  "secretTransform (Secret s) = Inr (Secret (s\<lparr>Data := NilMap, StringData := NilMap\<rparr>))"
| "secretTransform (Other x) = Inr (Other x)"

text \<open>\<open>Scheme\<close> is the one \<open>init\<close> has filled, whatever the configuration, and is left out.\<close>

record managerOptions =
  TransformSecrets :: "clientObject cached \<Rightarrow> goError + clientObject cached"
  CacheUnstructured :: bool
  BindAddress :: string
  HealthProbeBindAddress :: string
  LeaderElection :: bool
  LeaderElectionID :: string
  DefaultNamespaces :: "string list option"

definition manager_options :: "flags \<Rightarrow> managerOptions" where
  "manager_options f =
     (let opts = \<lparr>TransformSecrets = secretTransform, CacheUnstructured = True, BindAddress = metricsAddr f, HealthProbeBindAddress = probeAddr f,
          LeaderElection = enableLeaderElection f,
          LeaderElectionID = ''secretusage-controller.usage.secretusage.io'', DefaultNamespaces = None\<rparr>
      in if watchNamespace f \<noteq> '''' then opts\<lparr>DefaultNamespaces := Some [watchNamespace f]\<rparr> else opts)"

definition new_reconciler :: "flags \<Rightarrow> 'jp compiledRule list \<Rightarrow> 'jp reconciler" where
  "new_reconciler f rules =
     \<lparr>MaxUsages = maxUsagesFlag f, TrackOwnedPods = trackOwnedPods f, TrackUnusedSecrets = trackUnusedSecrets f,
      PerSecretMetrics = perSecretMetrics f, Rules = rules, rulesByGVK = NilMap\<rparr>"

section \<open>The scheme\<close>

text \<open>
  \<open>addKnownTypes\<close> of \<open>api/v1alpha1/groupversion_info.go\<close>, which \<open>AddToScheme\<close> runs, and
  \<open>init\<close> of \<open>cmd/main.go\<close>. \<open>utilruntime.Must\<close> panics on an error: no scheme.
\<close>

datatype apiType = SecretUsageType | SecretUsageListType

record 'c schemes =
  NewScheme :: 'c
  clientgo_AddToScheme :: "'c step"
  AddKnownTypes :: "groupVersion \<Rightarrow> apiType list \<Rightarrow> 'c \<Rightarrow> 'c"
  AddToGroupVersion :: "groupVersion \<Rightarrow> 'c \<Rightarrow> 'c"
  AddMetaToScheme :: "'c step"

definition addKnownTypes :: "'c schemes \<Rightarrow> 'c step" where
  "addKnownTypes S scheme =
     (let scheme = AddKnownTypes S usageGroupVersion [SecretUsageType, SecretUsageListType] scheme;
          scheme = AddToGroupVersion S usageGroupVersion scheme
      in (None, scheme))"

definition init_scheme :: "'c schemes \<Rightarrow> 'c option" where
  "init_scheme S =
     (case clientgo_AddToScheme S (NewScheme S) of
        (Some err, scheme) \<Rightarrow> None
      | (None, scheme) \<Rightarrow>
          (case addKnownTypes S scheme of
             (Some err, scheme) \<Rightarrow> None
           | (None, scheme) \<Rightarrow>
               (case AddMetaToScheme S scheme of
                  (Some err, scheme) \<Rightarrow> None
                | (None, scheme) \<Rightarrow> Some scheme)))"

section \<open>main\<close>

text \<open>
  \<open>main\<close> from the parsed flags on. \<open>os.Exit(1)\<close> is \<open>Exited\<close>, with the error that was logged;
  \<open>Running\<close> holds the reconciler the manager was started with, once \<open>Start\<close> has returned.
  \<open>GetConfigOrDie\<close> logs its error and exits likewise, or returns a configuration, which only
  \<open>NewManager\<close> reads. The state \<open>'m\<close> is what \<open>ctrl.NewManager\<close> returns; before that there is none.
\<close>

datatype 'jp outcome = Exited goError | Running "'jp reconciler"

record 'm runtime =
  GetConfigOrDie :: "goError option"
  NewManager :: "managerOptions \<Rightarrow> goError + 'm"
  mgr_setup :: "'m manager"
  AddHealthzCheck :: "'m step"
  AddReadyzCheck :: "'m step"
  Start :: "'m step"

definition main_run ::
    "'jp lib \<Rightarrow> 'm runtime \<Rightarrow> (string \<Rightarrow> goError + string) \<Rightarrow> (string \<Rightarrow> goError + referenceRule list) \<Rightarrow>
     flags \<Rightarrow> 'jp outcome \<times> 'm option" where
  "main_run L rt ReadFile UnmarshalStrict f =
     (case LoadRules L ReadFile UnmarshalStrict (rulesFile f) of
        Inl err \<Rightarrow> (Exited err, None)
      | Inr rules \<Rightarrow>
          (case GetConfigOrDie rt of
             Some err \<Rightarrow> (Exited err, None)
           | None \<Rightarrow>
               (case NewManager rt (manager_options f) of
                  Inl err \<Rightarrow> (Exited err, None)
                | Inr m \<Rightarrow>
                    (case SetupWithManager L (mgr_setup rt) (new_reconciler f rules) m of
                       (Inl err, m) \<Rightarrow> (Exited err, Some m)
                     | (Inr r, m) \<Rightarrow>
                         (case AddHealthzCheck rt m of
                            (Some err, m) \<Rightarrow> (Exited err, Some m)
                          | (None, m) \<Rightarrow>
                              (case AddReadyzCheck rt m of
                                 (Some err, m) \<Rightarrow> (Exited err, Some m)
                               | (None, m) \<Rightarrow>
                                   (case Start rt m of
                                      (Some err, m) \<Rightarrow> (Exited err, Some m)
                                    | (None, m) \<Rightarrow> (Running r, Some m))))))))"

section \<open>Parsing\<close>

lemma split_sign_itoa: "split_sign (itoa n) = (False, itoa n)"
proof (cases "itoa n")
  case (Cons c cs)
  then have "is_digit c" using itoa_digits[of c n] by simp
  then have "c \<noteq> CHR ''-''" "c \<noteq> CHR ''+''" by (auto simp: is_digit_def)
  then show ?thesis by (simp add: Cons)
qed simp

definition format_int :: "int \<Rightarrow> string" where
  "format_int n = (if n < 0 then CHR ''-'' # itoa (nat (- n)) else itoa (nat n))"

lemma Atoi_format_int:
  "- max_int - 1 \<le> n \<Longrightarrow> n \<le> max_int \<Longrightarrow> Atoi (format_int n) = Some n"
  by (auto simp: Atoi_def format_int_def split_sign_itoa decimal_itoa list_all_iff itoa_digits max_int_def Let_def)

lemma Atoi_range: "Atoi s = Some n \<Longrightarrow> - max_int - 1 \<le> n \<and> n \<le> max_int"
  by (auto simp: Atoi_def Let_def split: prod.splits if_splits)

end
