(* ===== verification/StartupProps.thy ===== *)
theory StartupProps
  imports Startup SetupProps
begin

text \<open>The properties of \<open>cmd/main.go\<close>.\<close>

text \<open>
  An integer setting is read as it is written: every 64-bit value in decimal notation is
  taken, and any other text leaves the default; what is read always fits an \<open>int\<close> when the
  default does.
\<close>
lemma envInt_reads:
  assumes "- max_int - 1 \<le> fallback" and "fallback \<le> max_int"
  shows "(- max_int - 1 \<le> n \<and> n \<le> max_int \<longrightarrow> envInt (Getenv(name := format_int n)) name fallback = n) \<and>
    - max_int - 1 \<le> envInt Getenv name fallback \<and> envInt Getenv name fallback \<le> max_int"
  using Atoi_format_int[of n] Atoi_range[of "Getenv name"] assms
  by (auto simp: envInt_def split: option.split)

text \<open>
  C19: if main ends without an error, having run its manager, the rules file was accepted as a whole
  (or there was none), the reconciler has the configured settings, and its rules are exactly the
  accepted ones whose kind the cluster serves, in their order, one per kind and found by their
  kind. These are the conditions under which the properties of reconciling and of the running
  system hold.
\<close>
theorem main_run_ready:
  assumes "fst (main_run L rt rd um f) = Running r"
  shows "\<exists>cs. LoadRules L rd um (rulesFile f) = Inr cs \<and>
    (if cs = [] then Rules r = []
     else \<exists>disc. NewDiscoveryClient (mgr_setup rt) = Inr disc \<and>
       Rules r = filter (\<lambda>rule. kind_served L disc (GVK rule)) cs) \<and>
    rules_agree r \<and>
    MaxUsages r = maxUsagesFlag f \<and> TrackOwnedPods r = trackOwnedPods f \<and>
    TrackUnusedSecrets r = trackUnusedSecrets f \<and> PerSecretMetrics r = perSecretMetrics f"
proof -
  obtain cs m m' where cs: "LoadRules L rd um (rulesFile f) = Inr cs"
    and set_up: "SetupWithManager L (mgr_setup rt) (new_reconciler f cs) m = (Inr r, m')"
    using assms by (auto simp: main_run_def split: sum.splits prod.splits option.splits)
  from set_up obtain m1 m2 where s: "setupRules L (mgr_setup rt) (new_reconciler f cs) m1 = (Inr r, m2)"
    by (rule SetupWithManager_Inr)
  have "rules_agree r"
    using setupRules_agree[OF s] LoadRules_distinct[OF cs] by (simp add: new_reconciler_def)
  moreover have "if cs = [] then Rules r = []
     else \<exists>disc. NewDiscoveryClient (mgr_setup rt) = Inr disc \<and> Rules r = filter (\<lambda>rule. kind_served L disc (GVK rule)) cs"
    using s by (auto simp: setupRules_def new_reconciler_def Let_def split: if_splits sum.splits prod.splits
        dest!: installed_rules_Inr)
  moreover have "MaxUsages r = maxUsagesFlag f \<and> TrackOwnedPods r = trackOwnedPods f \<and>
    TrackUnusedSecrets r = trackUnusedSecrets f \<and> PerSecretMetrics r = perSecretMetrics f"
    using s by (auto simp: setupRules_def new_reconciler_def Let_def split: if_splits sum.splits prod.splits)
  ultimately show ?thesis using cs by blast
qed

definition example_runtime :: "index_log runtime" where
  "example_runtime =
     \<lparr>GetConfigOrDie = None, NewManager = (\<lambda>_. Inr []), mgr_setup = example_manager, AddHealthzCheck = (\<lambda>m. (None, m)),
      AddReadyzCheck = (\<lambda>m. (None, m)), Start = (\<lambda>m. (None, m))\<rparr>"

definition example_flags :: flags where
  "example_flags = flag_defaults ((\<lambda>_. [])(''RULES_FILE'' := ''rules.yaml'', ''MAX_USAGES'' := ''1''))"

lemma example_new_reconciler:
  "new_reconciler example_flags [example_compiled] = example_reconciler\<lparr>Rules := [example_compiled]\<rparr>"
proof -
  have "maxUsagesFlag example_flags = 1" "trackOwnedPods example_flags = False"
    "trackUnusedSecrets example_flags = True" "perSecretMetrics example_flags = True"
    by code_simp+
  then show ?thesis by (simp add: new_reconciler_def example_reconciler_def)
qed

lemma example_main: "fst (main_run example_lib example_runtime (\<lambda>_. Inr []) (\<lambda>_. Inr example_rules) example_flags) = Running example_ready"
proof -
  have rf: "rulesFile example_flags = ''rules.yaml''" by code_simp
  have load: "LoadRules example_lib (\<lambda>_. Inr []) (\<lambda>_. Inr example_rules) (rulesFile example_flags) = Inr [example_compiled]"
    by (simp add: LoadRules_def example_rules_compile rf)
  obtain m' where set_up: "SetupWithManager example_lib example_manager (new_reconciler example_flags [example_compiled]) [] =
      (Inr example_ready, m')"
    unfolding example_new_reconciler using example_setup[of "[]"] by (metis prod.collapse)
  have rt: "GetConfigOrDie example_runtime = None" "NewManager example_runtime (manager_options example_flags) = Inr []" "mgr_setup example_runtime = example_manager"
    "AddHealthzCheck example_runtime m = (None, m)" "AddReadyzCheck example_runtime m = (None, m)"
    "Start example_runtime m = (None, m)" for m
    by (simp_all add: example_runtime_def)
  show ?thesis by (simp only: main_run_def load rt set_up sum.case prod.case option.case fst_conv)
qed

theorem main_run_ready_witness:
  "rules_agree example_ready \<and> MaxUsages example_ready = 1 \<and> TrackUnusedSecrets example_ready \<and>
   (\<exists>cs. cs \<noteq> [] \<and> Rules example_ready = filter (\<lambda>rule. kind_served example_lib example_discovery (GVK rule)) cs)"
proof -
  have f: "maxUsagesFlag example_flags = 1" "trackUnusedSecrets example_flags" by code_simp+
  have "Rules example_ready \<noteq> []" "NewDiscoveryClient (mgr_setup example_runtime) = Inr example_discovery"
    by (simp_all add: example_ready_def example_runtime_def example_manager_def)
  then show ?thesis using f main_run_ready[OF example_main] by (auto split: if_splits)
qed

end
