(* ===== verification/System.thy ===== *)
theory System
  imports SetupProps ReconcileProps
begin

text \<open>
  The controller as a running system: a cluster that others change, the work queue, and
  reconciles. A step is an event (a change of the cluster together with the handler's
  additions to the queue, as informers deliver them) or one reconcile of a queued name. The
  queue is a set of names, as client-go's is for names that are waiting; a reconcile that
  returns an error puts its name back. SecretUsage objects are only created and deleted by
  others: a change made to one by hand is not watched, and is outside this model.
\<close>

section \<open>Changes of the watched objects\<close>

inductive object_change :: "event \<Rightarrow> clientObject list \<Rightarrow> clientObject list \<Rightarrow> bool" where
  created: "object_change (CreateEvent (Some obj)) (as @ bs) (as @ obj # bs)"
| updated: "object_change (UpdateEvent (Some old) (Some new)) (as @ old # bs) (as @ new # bs)"
| removed: "object_change (DeleteEvent (Some obj)) (as @ obj # bs) (as @ bs)"

lemma names_agree: "rules_agree r \<Longrightarrow> secretNamesFor L r obj = index_values L (Rules r) obj"
  by (cases obj) (simp_all add: rules_agree_def)

lemma contribution_iff:
  "contribution L r n obj \<noteq> [] \<longleftrightarrow> \<not> skipPod r obj \<and> n \<in> set (index_values L (Rules r) obj)"
  by (cases obj) (auto simp: builtin_index.usages_empty_iff rule_index.usages_empty_iff SecretNamesForObject_def
      uniqueSortedSecretNames_def split: option.splits)

lemma enqueue_iff:
  assumes "rules_agree r"
  shows "nn \<in> set (enqueueObjectSecretReferences L r (Some obj)) \<longleftrightarrow>
    nn_Namespace nn = GetNamespace obj \<and> contribution L r (nn_Name nn) obj \<noteq> []"
  unfolding contribution_iff enqueueObjectSecretReferences_def
  by (cases nn) (auto simp: names_agree[OF assms] Let_def)

lemma change_enqueued:
  assumes "rules_agree r" "object_change ev (Objects c) (Objects c')"
    and "nn \<notin> set (enqueueForSecretConsumer L r ev)"
  shows "usages_in L r c' nn = usages_in L r c nn"
  using assms(2)
proof (cases rule: object_change.cases)
  case (created obj as bs)
  then show ?thesis using assms(3) by (auto simp: usages_in_def enqueue_iff[OF assms(1)])
next
  case (updated old new as bs)
  then show ?thesis using assms(3) by (auto simp: usages_in_def enqueue_iff[OF assms(1)])
next
  case (removed obj as bs)
  then show ?thesis using assms(3) by (auto simp: usages_in_def enqueue_iff[OF assms(1)])
qed

section \<open>Steps\<close>

record 'w system =
  sys_world :: 'w
  sys_queue :: "namespacedName set"

text \<open>The objects that informers hand to the handlers for a Secret and a SecretUsage.\<close>

definition secret_object :: "'jp lib \<Rightarrow> namespacedName \<Rightarrow> clientObject" where
  "secret_object L nn = OtherObject (secretGVK L) (zero_meta\<lparr>Namespace := nn_Namespace nn, Name := nn_Name nn\<rparr>)"

definition usage_object :: "secretUsage \<Rightarrow> clientObject" where
  "usage_object su = OtherObject (WithKind usageGroupVersion ''SecretUsage'') (ObjectMeta su)"

text \<open>The events of the SecretUsage objects that appear or disappear at a name.\<close>

definition usage_events :: "secretUsage option \<Rightarrow> secretUsage option \<Rightarrow> event list" where
  "usage_events old new = (case (old, new) of
     (None, Some su) \<Rightarrow> [CreateEvent (Some (usage_object su))]
   | (Some su, None) \<Rightarrow> [DeleteEvent (Some (usage_object su))]
   | (Some su, Some su') \<Rightarrow> [UpdateEvent (Some (usage_object su)) (Some (usage_object su'))]
   | (None, None) \<Rightarrow> [])"

definition usage_adds :: "secretUsage option \<Rightarrow> secretUsage option \<Rightarrow> namespacedName set" where
  "usage_adds old new = set (concat (map secretUsageHandler (usage_events old new)))"

text \<open>The steps others take, on the view of the world, with the names they queue.\<close>

inductive others :: "'jp lib \<Rightarrow> 'jp reconciler \<Rightarrow> cluster \<Rightarrow> cluster \<Rightarrow> namespacedName set \<Rightarrow> bool"
  for L :: "'jp lib" and r :: "'jp reconciler" where
  object: "object_change ev (Objects c) objs \<Longrightarrow>
     others L r c (c\<lparr>Objects := objs\<rparr>) (set (enqueueForSecretConsumer L r ev))"
| secret_created: "others L r c (c\<lparr>Secrets := nn # Secrets c\<rparr>) (set (enqueueOwnKey (Some (secret_object L nn))))"
| secret_deleted: "others L r c (c\<lparr>Secrets := filter (\<lambda>x. x \<noteq> nn) (Secrets c)\<rparr>)
     (set (enqueueOwnKey (Some (secret_object L nn))))"
| usage_deleted: "others L r c (put_usage nn None c) (usage_adds (SecretUsages c nn) None)"
| usage_created: "SecretUsages c nn = None \<Longrightarrow> usage_key su = nn \<Longrightarrow> wire_usage su = su \<Longrightarrow>
     others L r c (put_usage nn (Some su) c) (usage_adds None (Some su))"
| resync: "others L r c c {nn}"
| gauge: "others L r c (c\<lparr>Gauges := g\<rparr>) {}"

inductive step ::
    "'jp lib \<Rightarrow> 'jp reconciler \<Rightarrow> 'w env \<Rightarrow> ('w \<Rightarrow> cluster) \<Rightarrow> 'w system \<Rightarrow> 'w system \<Rightarrow> bool"
  for L :: "'jp lib" and r :: "'jp reconciler" and E :: "'w env" and view :: "'w \<Rightarrow> cluster" where
  environment: "others L r (view w) (view w') adds \<Longrightarrow>
     step L r E view \<lparr>sys_world = w, sys_queue = q\<rparr> \<lparr>sys_world = w', sys_queue = q \<union> adds\<rparr>"
| reconcile: "nn \<in> q \<Longrightarrow> Reconcile L r E nn w = (res, w') \<Longrightarrow>
     adds = usage_adds (SecretUsages (view w) nn) (SecretUsages (view w') nn) \<Longrightarrow>
     step L r E view \<lparr>sys_world = w, sys_queue = q\<rparr>
       \<lparr>sys_world = w', sys_queue = (q - {nn}) \<union> (if res = None then {} else {nn}) \<union> adds\<rparr>"

inductive_cases stepE: "step L r E view s s'"

text \<open>
  At the start the caches deliver a create event for every object, Secret and SecretUsage.
\<close>

definition start_queue :: "'jp lib \<Rightarrow> 'jp reconciler \<Rightarrow> cluster \<Rightarrow> namespacedName set" where
  "start_queue L r c =
     set (concat (map (\<lambda>obj. enqueueForSecretConsumer L r (CreateEvent (Some obj))) (Objects c))) \<union>
     set (concat (map (\<lambda>nn. enqueueOwnKey (Some (secret_object L nn))) (Secrets c))) \<union>
     \<Union> ((\<lambda>su. usage_adds None (Some su)) ` ran (SecretUsages c))"

inductive reachable ::
    "'jp lib \<Rightarrow> 'jp reconciler \<Rightarrow> 'w env \<Rightarrow> ('w \<Rightarrow> cluster) \<Rightarrow> 'w system \<Rightarrow> bool"
  for L :: "'jp lib" and r :: "'jp reconciler" and E :: "'w env" and view :: "'w \<Rightarrow> cluster" where
  start: "reachable L r E view \<lparr>sys_world = w, sys_queue = start_queue L r (view w)\<rparr>"
| more: "reachable L r E view s \<Longrightarrow> step L r E view s s' \<Longrightarrow> reachable L r E view s'"


section \<open>The invariant\<close>

text \<open>Every name that is not queued is up to date.\<close>

definition settled_names :: "'jp lib \<Rightarrow> 'jp reconciler \<Rightarrow> ('w \<Rightarrow> cluster) \<Rightarrow> 'w system \<Rightarrow> bool" where
  "settled_names L r view s \<longleftrightarrow>
     (\<forall>nn. nn \<notin> sys_queue s \<longrightarrow> up_to_date L r (view (sys_world s)) nn)"

lemma up_to_date_cong:
  assumes "desired L r c nn = desired L r c' nn" "SecretUsages c nn = SecretUsages c' nn"
  shows "up_to_date L r c nn = up_to_date L r c' nn"
  by (simp only: up_to_date_def assms)

lemma secret_object_key: "enqueueOwnKey (Some (secret_object L nn)) = [nn]"
  by (simp add: enqueueOwnKey_def secret_object_def)

lemma usage_adds_conv:
  "usage_adds old new = (case (old, new) of
     (None, Some su) \<Rightarrow> {usage_key su} | (Some su, None) \<Rightarrow> {usage_key su} | _ \<Rightarrow> {})"
  by (auto simp: usage_adds_def usage_events_def enqueueOwnKey_def usage_object_def usage_key_def split: option.split)

lemma others_keep:
  assumes "rules_agree r" "others L r c c' adds" "nn \<notin> adds"
    and key: "\<And>nn su. SecretUsages c nn = Some su \<Longrightarrow> usage_key su = nn"
  shows "up_to_date L r c' nn = up_to_date L r c nn"
  using assms(2,3)
proof (cases rule: others.cases)
  case (object ev objs)
  have "usages_in L r c' nn = usages_in L r c nn"
    using change_enqueued[OF assms(1), of ev c c' nn L] object assms(3) by simp
  then show ?thesis by (intro up_to_date_cong) (simp_all add: desired_def object)
next
  case (usage_deleted nn')
  have "nn' \<noteq> nn \<or> SecretUsages c nn = None"
    using usage_deleted assms(3) key by (cases "SecretUsages c nn'") (auto simp: usage_adds_conv)
  then show ?thesis by (intro up_to_date_cong) (auto simp: desired_def usages_in_def usage_deleted)
next
  case (usage_created nn' su)
  then show ?thesis
    using assms(3) by (intro up_to_date_cong) (auto simp: desired_def usages_in_def usage_adds_conv)
qed (use assms(3) in \<open>(intro up_to_date_cong; force simp: desired_def usages_in_def secret_object_key)+\<close>)

lemma reconcile_keeps_settled:
  assumes D: "documented L (Rules r) E view" and A: "rules_agree r"
    and "settled_names L r view \<lparr>sys_world = w, sys_queue = q\<rparr>"
    and run: "Reconcile L r E nn w = (res, w')"
    and adds: "adds = usage_adds (SecretUsages (view w) nn) (SecretUsages (view w') nn)"
  shows "settled_names L r view
    \<lparr>sys_world = w', sys_queue = (q - {nn}) \<union> (if res = None then {} else {nn}) \<union> adds\<rparr>"
proof -
  note R = Reconcile_run[OF D A[unfolded rules_agree_def, THEN conjunct1] run]
  have "up_to_date L r (view w') nn'" if "nn' \<notin> (q - {nn}) \<union> (if res = None then {} else {nn}) \<union> adds" for nn'
  proof (cases "nn' = nn")
    case True
    then show ?thesis using that R by (auto split: if_splits)
  next
    case False
    then have "up_to_date L r (view w) nn'" using that assms(3) by (auto simp: settled_names_def)
    moreover have "up_to_date L r (view w') nn' = up_to_date L r (view w) nn'"
      using R False by (intro up_to_date_cong desired_cong) (auto simp: same_elsewhere_def)
    ultimately show ?thesis by simp
  qed
  then show ?thesis by (simp add: settled_names_def)
qed

lemma step_keeps_settled:
  assumes "documented L (Rules r) E view" "rules_agree r" "step L r E view s s'" "settled_names L r view s"
  shows "settled_names L r view s'"
  using assms(3)
proof (cases rule: step.cases)
  case (environment w w' adds q)
  have "up_to_date L r (view w') nn" if "nn \<notin> q \<union> adds" for nn
    using others_keep[OF assms(2) environment(3), of nn] assms(1,4) that environment
    by (auto simp: settled_names_def documented_def documented_reads_def)
  then show ?thesis by (simp add: settled_names_def environment)
next
  case (reconcile nn q w res w' adds)
  then show ?thesis
    using reconcile_keeps_settled[OF assms(1,2), of w q nn res w' adds] assms(4) by simp
qed

lemma start_queue_covers:
  assumes "rules_agree r" and key: "\<And>nn su. SecretUsages c nn = Some su \<Longrightarrow> usage_key su = nn"
    and out: "nn \<notin> start_queue L r c"
  shows "up_to_date L r c nn"
proof -
  have "contribution L r (nn_Name nn) obj = []" if "obj \<in> set (Objects c)" "GetNamespace obj = nn_Namespace nn" for obj
    using out that enqueue_iff[OF assms(1), of nn L obj] by (auto simp: start_queue_def)
  then have "usages_in L r c nn = []" by (simp add: usages_in_def)
  moreover have "nn \<notin> set (Secrets c)" using out by (auto simp: start_queue_def secret_object_key)
  moreover have "SecretUsages c nn = None"
  proof (rule ccontr)
    assume "SecretUsages c nn \<noteq> None"
    then obtain su where su: "SecretUsages c nn = Some su" by blast
    then have "nn \<in> usage_adds None (Some su)" using key by (simp add: usage_adds_conv)
    then show False using out su by (auto simp: start_queue_def ran_def)
  qed
  ultimately show ?thesis by (simp add: up_to_date_def desired_def)
qed

lemma start_settled:
  assumes "documented L (Rules r) E view" "rules_agree r"
  shows "settled_names L r view \<lparr>sys_world = w, sys_queue = start_queue L r (view w)\<rparr>"
  using start_queue_covers[OF assms(2), of "view w"] assms(1)
  by (simp add: settled_names_def documented_def documented_reads_def)

lemma reachable_settled:
  assumes "documented L (Rules r) E view" "rules_agree r" "reachable L r E view s"
  shows "settled_names L r view s"
  using assms(3) by induction (simp_all add: start_settled[OF assms(1,2)] step_keeps_settled[OF assms(1,2)])

section \<open>Draining the queue\<close>

text \<open>A number of reconciles, of names picked from the queue in any order.\<close>

inductive reconciles ::
    "'jp lib \<Rightarrow> 'jp reconciler \<Rightarrow> 'w env \<Rightarrow> ('w \<Rightarrow> cluster) \<Rightarrow> nat \<Rightarrow> 'w system \<Rightarrow> 'w system \<Rightarrow> bool"
  for L :: "'jp lib" and r :: "'jp reconciler" and E :: "'w env" and view :: "'w \<Rightarrow> cluster" where
  none: "reconciles L r E view 0 s s"
| one_more: "reconciles L r E view n s \<lparr>sys_world = w, sys_queue = q\<rparr> \<Longrightarrow> nn \<in> q \<Longrightarrow>
     Reconcile L r E nn w = (res, w') \<Longrightarrow>
     adds = usage_adds (SecretUsages (view w) nn) (SecretUsages (view w') nn) \<Longrightarrow>
     reconciles L r E view (Suc n) s
       \<lparr>sys_world = w', sys_queue = (q - {nn}) \<union> (if res = None then {} else {nn}) \<union> adds\<rparr>"

text \<open>
  A queued name needs one reconcile, or two if its object has to be created or deleted, since
  the event of that queues the name again.
\<close>

definition work :: "'jp lib \<Rightarrow> 'jp reconciler \<Rightarrow> cluster \<Rightarrow> namespacedName \<Rightarrow> nat" where
  "work L r c nn = (if (SecretUsages c nn = None) = (desired L r c nn = None) then 1 else 2)"

lemma reconciles_reachable:
  "reconciles L r E view n s s' \<Longrightarrow> reachable L r E view s \<Longrightarrow> reachable L r E view s'"
proof (induction rule: reconciles.induct)
  case (one_more n s w q nn res w' adds)
  show ?case
    by (rule reachable.more[OF one_more.IH[OF one_more.prems] step.reconcile[OF one_more.hyps(2-4)]])
qed

lemma reconcile_work:
  assumes D: "documented L (Rules r) E view" and A: "available L (Rules r) E view" and G: "distinct (map GVK (Rules r))"
    and fin: "finite q" and nn: "nn \<in> q" and run: "Reconcile L r E nn w = (res, w')"
    and adds: "adds = usage_adds (SecretUsages (view w) nn) (SecretUsages (view w') nn)"
  shows "res = None" and "finite ((q - {nn}) \<union> adds)"
    and "sum (work L r (view w')) ((q - {nn}) \<union> adds) < sum (work L r (view w)) q"
proof -
  show res: "res = None" using Reconcile_succeeds[OF D A, of nn w] run by simp
  note R = Reconcile_run[OF D G run]
  have sub: "adds \<subseteq> {nn}"
  proof -
    have "usage_key su = nn" if "SecretUsages (view x) nn = Some su" for x su
      using D that by (simp add: documented_def documented_reads_def)
    then show ?thesis unfolding adds usage_adds_conv by (auto split: option.splits)
  qed
  then show "finite ((q - {nn}) \<union> adds)" using fin by (meson finite.simps finite_Diff finite_UnI finite_subset)
  have des: "desired L r (view w') nn' = desired L r (view w) nn'" for nn'
    using R by (intro desired_cong) (simp_all add: same_elsewhere_def)
  have other: "work L r (view w') nn' = work L r (view w) nn'" if "nn' \<noteq> nn" for nn'
    using R that by (simp add: work_def des same_elsewhere_def)
  have up: "(SecretUsages (view w') nn = None) = (desired L r (view w) nn = None)"
    using R res des by (auto simp: up_to_date_def split: option.splits)
  then have after: "work L r (view w') nn = 1" by (simp add: work_def des)
  have split: "sum (work L r (view w)) q = sum (work L r (view w)) (q - {nn}) + work L r (view w) nn"
    using fin nn by (simp add: sum.remove)
  have rest: "sum (work L r (view w')) (q - {nn}) = sum (work L r (view w)) (q - {nn})"
    by (rule sum.cong) (auto simp: other)
  show "sum (work L r (view w')) ((q - {nn}) \<union> adds) < sum (work L r (view w)) q"
  proof (cases "adds = {}")
    case True
    then show ?thesis using rest split by (simp add: work_def)
  next
    case False
    then have "adds = {nn}" using sub by blast
    then have "(SecretUsages (view w) nn = None) \<noteq> (SecretUsages (view w') nn = None)"
      unfolding adds usage_adds_conv by (auto split: option.splits)
    then have "work L r (view w) nn = 2" using up by (auto simp: work_def)
    moreover have "(q - {nn}) \<union> adds = q" using \<open>adds = {nn}\<close> nn by blast
    moreover have "sum (work L r (view w')) q = sum (work L r (view w')) (q - {nn}) + work L r (view w') nn"
      using fin nn by (simp add: sum.remove)
    ultimately show ?thesis using rest split after by simp
  qed
qed

lemma reconciles_work:
  assumes "documented L (Rules r) E view" "available L (Rules r) E view" "distinct (map GVK (Rules r))"
    and "reconciles L r E view n s s'" "finite (sys_queue s)"
  shows "finite (sys_queue s') \<and>
    n + sum (work L r (view (sys_world s'))) (sys_queue s') \<le> sum (work L r (view (sys_world s))) (sys_queue s)"
  using assms(4,5)
proof (induction rule: reconciles.induct)
  case (one_more n s w q nn res w' adds)
  then have "finite q" by simp
  note S = reconcile_work[OF assms(1-3) this one_more.hyps(2-4)]
  show ?case using S one_more.IH one_more.prems by simp
qed simp

lemma work_le: "finite q \<Longrightarrow> sum (work L r c) q \<le> 2 * card q"
  using sum_bounded_above[of q "work L r c" 2] by (fastforce simp: work_def mult.commute)

lemma work_ge: "finite q \<Longrightarrow> card q \<le> sum (work L r c) q"
  using sum_mono[of q "\<lambda>_. 1" "work L r c"] by (simp add: work_def)


lemma system_eta: "\<lparr>sys_world = sys_world s, sys_queue = sys_queue s\<rparr> = (s :: 'w system)"
  by (cases s) simp

section \<open>Properties\<close>

text \<open>
  C11: the names a watched object's event queues are exactly those of the Secrets of its
  namespace that the object contributes a reference to: none is missed, and none is queued
  for nothing. An owned Pod that is not tracked queues nothing.
\<close>
theorem enqueue_exactly:
  assumes "rules_agree r"
  shows "set (enqueueObjectSecretReferences L r (Some obj)) =
    {nn. nn_Namespace nn = GetNamespace obj \<and> contribution L r (nn_Name nn) obj \<noteq> []}"
  using enqueue_iff[OF assms] by blast

theorem enqueue_exactly_witness:
  "set (enqueueObjectSecretReferences example_lib example_ready (Some example_ingress)) =
     {nn. nn_Namespace nn = ''default'' \<and> contribution example_lib example_ready (nn_Name nn) example_ingress \<noteq> []}"
proof -
  have "rules_agree example_ready" by (simp add: rules_agree_def example_ready_def lookup_empty)
  from enqueue_exactly[OF this, of example_lib example_ingress] show ?thesis
    by (simp add: example_ingress_def example_meta_def)
qed

text \<open>
  C10: a change of a watched object that alters the references to some Secret queues that Secret's
  name. This is why an update must queue the names of the old object as well as those of the
  new one.
\<close>
theorem change_reaches_queue:
  assumes "rules_agree r" and "object_change ev (Objects c) objs"
    and "usages_in L r (c\<lparr>Objects := objs\<rparr>) nn \<noteq> usages_in L r c nn"
  shows "nn \<in> set (enqueueForSecretConsumer L r ev)"
  using change_enqueued[OF assms(1), of ev c "c\<lparr>Objects := objs\<rparr>" nn L] assms(2,3) by auto

theorem change_reaches_queue_witness:
  "example_key ''a-tls'' \<in> set (enqueueForSecretConsumer example_lib example_ready (CreateEvent (Some example_ingress)))"
proof (rule change_reaches_queue)
  let ?c = "(w_cluster example_world)\<lparr>Objects := []\<rparr>"
  show "rules_agree example_ready" by (simp add: rules_agree_def example_ready_def lookup_empty)
  show "object_change (CreateEvent (Some example_ingress)) (Objects ?c) [example_ingress]"
    using object_change.created[of example_ingress "[]" "[]"] by simp
  show "usages_in example_lib example_ready (?c\<lparr>Objects := [example_ingress]\<rparr>) (example_key ''a-tls'') \<noteq>
      usages_in example_lib example_ready ?c (example_key ''a-tls'')"
    by code_simp
qed

text \<open>The example cluster as the controller finds it when it starts.\<close>

definition example_start :: "world system" where
  "example_start = \<lparr>sys_world = example_world, sys_queue = start_queue example_lib example_reconciler (world_view example_world)\<rparr>"

lemma example_start_queue:
  "sys_queue example_start = {example_key ''a-tls'', example_key ''b-tls'', example_key ''db'', example_key ''pull'', example_key ''idle''}"
proof -
  have "ran (SecretUsages (world_view example_world)) = {}"
    by (simp add: stored_def example_world_def ran_def)
  moreover have "concat (map (\<lambda>obj. enqueueForSecretConsumer example_lib example_reconciler (CreateEvent (Some obj)))
      (Objects (world_view example_world))) =
      [example_key ''a-tls'', example_key ''b-tls'', example_key ''db'', example_key ''pull'']"
    by code_simp
  moreover have "concat (map (\<lambda>nn. enqueueOwnKey (Some (secret_object example_lib nn))) (Secrets (world_view example_world))) =
      [example_key ''idle'']"
    by code_simp
  ultimately show ?thesis by (simp only: example_start_def start_queue_def) auto
qed

lemma example_start_reachable: "reachable example_lib example_reconciler example_env world_view example_start"
  unfolding example_start_def by (rule reachable.start)

lemma example_agree: "rules_agree example_reconciler"
  by (rule rules_agree_nil) (simp_all add: example_reconciler_def)

text \<open>
  C6: on an available cluster the queue drains: if nothing else happens, reconciling queued names in
  any order can go on until the queue is empty, which it is after at most two reconciles for
  each queued name, and then every name is up to date.
\<close>
theorem queue_drains:
  assumes "documented L (Rules r) E view" and "available L (Rules r) E view" and "rules_agree r"
    and "reachable L r E view s" and "finite (sys_queue s)"
    and "reconciles L r E view n s s'"
  shows "n \<le> 2 * card (sys_queue s) \<and>
    (n = 2 * card (sys_queue s) \<longrightarrow> sys_queue s' = {}) \<and>
    (sys_queue s' \<noteq> {} \<longrightarrow> (\<exists>s''. reconciles L r E view (Suc n) s s'')) \<and>
    (sys_queue s' = {} \<longrightarrow> (\<forall>nn. up_to_date L r (view (sys_world s')) nn))"
proof -
  have go_on: "\<exists>s''. reconciles L r E view (Suc n) s s''" if "nn \<in> sys_queue s'" for nn
  proof -
    have "reconciles L r E view n s \<lparr>sys_world = sys_world s', sys_queue = sys_queue s'\<rparr>"
      unfolding system_eta by (rule assms(6))
    then show ?thesis using reconciles.one_more[OF _ that] by (meson surj_pair)
  qed
  have G: "distinct (map GVK (Rules r))" using assms(3) by (simp add: rules_agree_def)
  note W = reconciles_work[OF assms(1,2) G assms(6,5)]
  have "n + card (sys_queue s') \<le> 2 * card (sys_queue s)"
    using W work_le[OF assms(5), of L r "view (sys_world s)"] work_ge[of "sys_queue s'" L r "view (sys_world s')"] by simp
  moreover have "settled_names L r view s'"
    by (rule reachable_settled[OF assms(1,3) reconciles_reachable[OF assms(6,4)]])
  ultimately show ?thesis using W go_on by (auto simp: settled_names_def)
qed


theorem queue_drains_witness:
  "\<exists>s'. reconciles example_lib example_reconciler example_env world_view 1 example_start s' \<and>
     1 \<le> 2 * card (sys_queue example_start) \<and> finite (sys_queue example_start)"
proof -
  have fin: "finite (sys_queue example_start)" by (simp add: example_start_queue)
  have mem: "example_key ''db'' \<in> sys_queue example_start" by (simp add: example_start_queue)
  have run: "Reconcile example_lib example_reconciler example_env (example_key ''db'') (sys_world example_start) =
      (None, settled_world ''db'')"
    using Reconcile_succeeds[of example_lib example_reconciler example_env world_view] world_documented[of example_lib "[]"]
      world_available[of example_lib "[]"]
    by (simp add: example_start_def settled_world_def prod_eq_iff)
  have "reconciles example_lib example_reconciler example_env world_view 0 example_start
      \<lparr>sys_world = sys_world example_start, sys_queue = sys_queue example_start\<rparr>"
    unfolding system_eta by (rule reconciles.none)
  from reconciles.one_more[OF this mem run refl]
  obtain s' where s': "reconciles example_lib example_reconciler example_env world_view 1 example_start s'" by force
  have D: "documented example_lib (Rules example_reconciler) example_env world_view"
    and A: "available example_lib (Rules example_reconciler) example_env world_view"
    using world_documented[of example_lib "[]"] world_available[of example_lib "[]"] by simp_all
  from queue_drains[OF D A example_agree example_start_reachable fin s'] s' fin show ?thesis by blast
qed

end
