(* ===== verification/Interleaving.thy ===== *)
theory Interleaving
  imports System
begin

text \<open>
  The running system with interference: between and during the calls of a reconcile others
  change the cluster and events arrive. \<open>queue\<close> now reads off the state the names that are
  \<^emph>\<open>pending\<close>: those that wait, those whose event is on its way, and those whose SecretUsage
  others have edited since it was last reconciled, for which there is no event (\<open>Concurrent\<close>
  keeps these apart). A call may change the cluster and what is pending; what is documented
  of a call is that at some moment within it the cluster answers or changes as described. A reconcile whose own name is not queued meanwhile has seen nothing
  that matters to it change: it is the run of an undisturbed client on the part of the
  cluster that matters (\<open>relevant\<close>), so the lemmas of \<open>ReconcileSpec\<close> apply.
\<close>

section \<open>Activity of others\<close>

inductive activity ::
    "'jp lib \<Rightarrow> 'jp reconciler \<Rightarrow> cluster \<Rightarrow> namespacedName set \<Rightarrow> cluster \<Rightarrow> namespacedName set \<Rightarrow> bool"
  for L :: "'jp lib" and r :: "'jp reconciler" and c :: cluster and q :: "namespacedName set" where
  idle: "activity L r c q c q"
| act: "activity L r c q c1 q1 \<Longrightarrow> others L r c1 c2 adds \<Longrightarrow> activity L r c q c2 (q1 \<union> adds)"
| edit: "activity L r c q c1 q1 \<Longrightarrow> SecretUsages c1 nn = Some old \<Longrightarrow> usage_key su = nn \<Longrightarrow> wire_usage su = su \<Longrightarrow>
     activity L r c q (put_usage nn (Some su) c1) (insert nn q1)"

definition well_stored :: "cluster \<Rightarrow> bool" where
  "well_stored c \<longleftrightarrow> (\<forall>nn su. SecretUsages c nn = Some su \<longrightarrow> wire_usage su = su \<and> usage_key su = nn)"

lemma others_well_stored: "others L r c c' adds \<Longrightarrow> well_stored c \<Longrightarrow> well_stored c'"
  by (erule others.cases) (auto simp: well_stored_def)

lemma activity_well_stored: "activity L r c q c' q' \<Longrightarrow> well_stored c \<Longrightarrow> well_stored c'"
proof (induction rule: activity.induct)
  case (edit c1 q1 k old su)
  have "well_stored c1" by (rule edit.IH[OF edit.prems])
  then show ?case using edit.hyps(3,4) unfolding well_stored_def by (metis fun_upd_apply option.inject put_usage_simps(1))
qed (blast intro: others_well_stored)+

lemma activity_queue: "activity L r c q c' q' \<Longrightarrow> q \<subseteq> q'"
  by (induction rule: activity.induct) auto

text \<open>The part of a cluster that matters to a name.\<close>

definition relevant :: "'jp lib \<Rightarrow> 'jp reconciler \<Rightarrow> namespacedName \<Rightarrow> cluster \<Rightarrow> cluster" where
  "relevant L r nn c =
     \<lparr>Secrets = filter (\<lambda>x. x = nn) (Secrets c),
      Objects = filter (\<lambda>obj. GetNamespace obj = nn_Namespace nn \<and> contribution L r (nn_Name nn) obj \<noteq> []) (Objects c),
      SecretUsages = (\<lambda>k. if k = nn then SecretUsages c nn else None),
      Series = Series c, Gauges = (\<lambda>_. 0)\<rparr>"

lemma relevant_simps [simp]:
  "SecretUsages (relevant L r nn c) nn = SecretUsages c nn" "Series (relevant L r nn c) = Series c"
  "nn \<in> set (Secrets (relevant L r nn c)) \<longleftrightarrow> nn \<in> set (Secrets c)"
  by (auto simp: relevant_def)

lemma usages_in_relevant [simp]: "usages_in L r (relevant L r nn c) nn = usages_in L r c nn"
proof -
  have "concat (map f (filter P (filter (\<lambda>x. P x \<and> f x \<noteq> []) xs))) = concat (map f (filter P xs))" for f :: "'x \<Rightarrow> 'y list" and P xs
    by (induction xs) (simp_all del: filter_filter)
  then show ?thesis unfolding usages_in_def relevant_def by simp
qed

lemma desired_relevant [simp]: "desired L r (relevant L r nn c) nn = desired L r c nn"
  by (simp add: desired_def)

lemma up_to_date_relevant [simp]: "up_to_date L r (relevant L r nn c) nn = up_to_date L r c nn"
  by (rule up_to_date_cong) simp_all

lemma relevant_put: "relevant L r nn (put_usage nn su c) = put_usage nn su (relevant L r nn c)"
  by (rule cluster.equality) (auto simp: relevant_def put_usage_def)

lemma others_relevant:
  assumes "rules_agree r" "others L r c c' adds" "nn \<notin> adds" "well_stored c"
  shows "relevant L r nn c' = relevant L r nn c"
  using assms(2)
proof (cases rule: others.cases)
  case (object ev objs)
  have out: "nn \<notin> set (enqueueForSecretConsumer L r ev)" using object assms(3) by simp
  have "filter (\<lambda>obj. GetNamespace obj = nn_Namespace nn \<and> contribution L r (nn_Name nn) obj \<noteq> []) objs =
      filter (\<lambda>obj. GetNamespace obj = nn_Namespace nn \<and> contribution L r (nn_Name nn) obj \<noteq> []) (Objects c)"
    using object(3)
    by (cases rule: object_change.cases) (use out in \<open>auto simp: enqueue_iff[OF assms(1)]\<close>)
  then show ?thesis using object by (intro cluster.equality) (simp_all add: relevant_def fun_eq_iff)
next
  case (usage_deleted nn')
  then have "nn' \<noteq> nn \<or> SecretUsages c nn = None"
    using assms(3,4) by (cases "SecretUsages c nn'") (auto simp: usage_adds_conv well_stored_def)
  then show ?thesis using usage_deleted by (auto simp: relevant_def put_usage_def fun_eq_iff)
next
  case (usage_created nn' su)
  then have "nn' \<noteq> nn" using assms(3) by (auto simp: usage_adds_conv)
  then show ?thesis using usage_created by (auto simp: relevant_def put_usage_def fun_eq_iff)
qed (use assms(3) in \<open>auto simp: relevant_def secret_object_key intro: filter_cong\<close>)

lemma activity_relevant:
  assumes "rules_agree r" "activity L r c q c' q'" "nn \<notin> q'" "well_stored c"
  shows "relevant L r nn c' = relevant L r nn c"
  using assms(2,3)
proof (induction rule: activity.induct)
  case (act c1 q1 c2 adds)
  then show ?case
    using others_relevant[OF assms(1) act.hyps(2)] activity_well_stored[OF act.hyps(1) assms(4)] by auto
next
  case (edit c1 q1 k old su)
  then have "k \<noteq> nn" by auto
  then have "relevant L r nn (put_usage k (Some su) c1) = relevant L r nn c1"
    by (auto simp: relevant_def put_usage_def fun_eq_iff)
  then show ?case using edit by simp
qed simp

lemma activity_keeps_up_to_date:
  assumes "rules_agree r" "activity L r c q c' q'" "nn \<notin> q'" "well_stored c"
  shows "up_to_date L r c' nn = up_to_date L r c nn"
  using activity_relevant[OF assms] up_to_date_relevant by metis

section \<open>Documented behaviour under interference\<close>

text \<open>
  \<open>s\<close> is the whole state, \<open>view\<close> and \<open>queue\<close> read it. A read answers from a cluster \<open>c\<close> that
  the activity of others leads to from the start of the call, and more activity leads from
  there to its end. A write has its effect at such a moment if its precondition holds then;
  in any case it touches only the SecretUsage of its name. An error leaves the effect open,
  except that an object that is there to be deleted is not reported as not found. A write may
  add names to the queue: those of the events it causes.

  The client reads from a cache, so \<open>view\<close> has the Secrets and objects that its informers have
  delivered (an informer calls the handlers once its cache is updated), and the SecretUsage
  objects that the server stores. A SecretUsage may be read from before the controller's own
  last write to it. \<open>fresh s nn\<close> says that the cache has caught up with it: then a read
  returns the stored object, and this stays so until the next write to it.
\<close>

definition reads_amid ::
    "'jp lib \<Rightarrow> 'jp reconciler \<Rightarrow> ('s \<Rightarrow> cluster) \<Rightarrow> ('s \<Rightarrow> namespacedName set) \<Rightarrow> 's \<Rightarrow> (goError + 'a) \<times> 's \<Rightarrow>
     (cluster \<Rightarrow> 'a \<Rightarrow> bool) \<Rightarrow> (cluster \<Rightarrow> bool) \<Rightarrow> bool" where
  "reads_amid L r view queue s out there missing \<longleftrightarrow>
     (\<exists>c q. activity L r (view s) (queue s) c q \<and>
        (case fst out of Inr a \<Rightarrow> there c a | Inl e \<Rightarrow> IsNotFound e \<longrightarrow> missing c) \<and>
        activity L r c q (view (snd out)) (queue (snd out)))"

definition writes_amid ::
    "'jp lib \<Rightarrow> 'jp reconciler \<Rightarrow> ('s \<Rightarrow> cluster) \<Rightarrow> ('s \<Rightarrow> namespacedName set) \<Rightarrow> 's \<Rightarrow> (goError + 'a) \<times> 's \<Rightarrow>
     namespacedName \<Rightarrow> (cluster \<Rightarrow> bool) \<Rightarrow> (goError \<Rightarrow> bool) \<Rightarrow> (cluster \<Rightarrow> 'a \<Rightarrow> cluster \<Rightarrow> bool) \<Rightarrow> bool" where
  "writes_amid L r view queue s out nn pre fails effect \<longleftrightarrow>
     (\<exists>c q c' q' su. activity L r (view s) (queue s) c q \<and>
        (pre c \<longrightarrow> (case fst out of Inr a \<Rightarrow> effect c a c' | Inl e \<Rightarrow> c' = c \<and> fails e \<or> (\<exists>a. effect c a c'))) \<and>
        c' = put_usage nn su c \<and> well_stored c' \<and> q \<subseteq> q' \<and>
        activity L r c' q' (view (snd out)) (queue (snd out)))"

definition stays_fresh :: "'s env \<Rightarrow> ('s \<Rightarrow> namespacedName set) \<Rightarrow> ('s \<Rightarrow> namespacedName \<Rightarrow> bool) \<Rightarrow> bool" where
  "stays_fresh E queue fresh \<longleftrightarrow>
     (\<forall>s nn gvk k. fresh s nn \<longrightarrow> nn \<notin> queue (snd (GetMetadata E gvk k s)) \<longrightarrow> fresh (snd (GetMetadata E gvk k s)) nn) \<and>
     (\<forall>s nn k. fresh s nn \<longrightarrow> nn \<notin> queue (snd (GetSecretUsage E k s)) \<longrightarrow> fresh (snd (GetSecretUsage E k s)) nn) \<and>
     (\<forall>s nn lk opts. fresh s nn \<longrightarrow> nn \<notin> queue (snd (ListObjects E lk opts s)) \<longrightarrow> fresh (snd (ListObjects E lk opts s)) nn) \<and>
     (\<forall>s nn v ls x. fresh s nn \<longrightarrow> fresh (SetLabelValues E v ls x s) nn)"

definition documented_amid ::
    "'jp lib \<Rightarrow> 'jp reconciler \<Rightarrow> 's env \<Rightarrow> ('s \<Rightarrow> cluster) \<Rightarrow> ('s \<Rightarrow> namespacedName set) \<Rightarrow>
     ('s \<Rightarrow> namespacedName \<Rightarrow> bool) \<Rightarrow> bool" where
  "documented_amid L r E view queue fresh \<longleftrightarrow>
     (\<forall>s. well_stored (view s)) \<and>
     (\<forall>s nn. reads_amid L r view queue s (GetMetadata E (secretGVK L) nn s)
        (\<lambda>c _. nn \<in> set (Secrets c)) (\<lambda>c. nn \<notin> set (Secrets c))) \<and>
     (\<forall>s nn. reads_amid L r view queue s (GetSecretUsage E nn s)
        (\<lambda>c su. usage_key su = nn \<and> (fresh s nn \<longrightarrow> SecretUsages c nn = Some su))
        (\<lambda>c. fresh s nn \<longrightarrow> SecretUsages c nn = None)) \<and>
     stays_fresh E queue fresh \<and>
     (\<forall>s lk ns n. indexed_list (Rules r) lk \<longrightarrow>
        reads_amid L r view queue s (ListObjects E lk [InNamespace ns, MatchingFields SecretNameIndexField n] s)
          (\<lambda>c xs. mset xs = mset (filter (matching L (Rules r) lk ns n) (Objects c))) (\<lambda>c. True)) \<and>
     (\<forall>s su. writes_amid L r view queue s (Create E su s) (usage_key su)
        (\<lambda>c. SecretUsages c (usage_key su) = None) (\<lambda>_. True) (created su) \<and>
        (\<forall>su'. fst (Create E su s) = Inr su' \<longrightarrow> usage_key su' = usage_key su)) \<and>
     (\<forall>s ls base. writes_amid L r view queue s (Patch E (set_labels ls base) base s) (usage_key base)
        (\<lambda>c. SecretUsages c (usage_key base) = Some (wire_usage base)) (\<lambda>_. True) (patched (set_labels ls base) base) \<and>
        (\<forall>su'. fst (Patch E (set_labels ls base) base s) = Inr su' \<longrightarrow> usage_key su' = usage_key base)) \<and>
     (\<forall>s su stored. usage_key stored = usage_key su \<longrightarrow>
        writes_amid L r view queue s (StatusUpdate E su s) (usage_key su)
        (\<lambda>c. may_update c su stored) (\<lambda>_. True) (status_written su stored)) \<and>
     (\<forall>s st base. writes_amid L r view queue s (StatusPatch E (base\<lparr>Status := st\<rparr>) base s) (usage_key base)
        (\<lambda>c. SecretUsages c (usage_key base) = Some (wire_usage base)) (\<lambda>_. True)
        (status_written (base\<lparr>Status := st\<rparr>) (wire_usage base))) \<and>
     (\<forall>s su. writes_amid L r view queue s (Delete E su s) (usage_key su)
        (\<lambda>c. SecretUsages c (usage_key su) \<noteq> None) (\<lambda>e. \<not> IsNotFound e) (deleted su)) \<and>
     (\<forall>s v ls x. view (SetLabelValues E v ls x s) =
        (view s)\<lparr>Series := (Series (view s))(v := (Series (view s) v)(ls \<mapsto> x))\<rparr> \<and>
        queue (SetLabelValues E v ls x s) = queue s) \<and>
     (\<forall>s v ls. view (DeleteLabelValues E v ls s) =
        (view s)\<lparr>Series := (Series (view s))(v := (Series (view s) v)(ls := None))\<rparr> \<and>
        queue (DeleteLabelValues E v ls s) = queue s)"

lemma amid_calls:
  assumes "documented_amid L r E view queue fresh"
  shows amid_well_stored: "well_stored (view s)"
    and amid_meta: "reads_amid L r view queue s (GetMetadata E (secretGVK L) nn s)
        (\<lambda>c _. nn \<in> set (Secrets c)) (\<lambda>c. nn \<notin> set (Secrets c))"
    and amid_get: "reads_amid L r view queue s (GetSecretUsage E nn s)
        (\<lambda>c su. usage_key su = nn \<and> (fresh s nn \<longrightarrow> SecretUsages c nn = Some su))
        (\<lambda>c. fresh s nn \<longrightarrow> SecretUsages c nn = None)"
    and amid_fresh: "stays_fresh E queue fresh"
    and amid_list: "indexed_list (Rules r) lk \<Longrightarrow>
        reads_amid L r view queue s (ListObjects E lk [InNamespace ns, MatchingFields SecretNameIndexField n] s)
          (\<lambda>c xs. mset xs = mset (filter (matching L (Rules r) lk ns n) (Objects c))) (\<lambda>c. True)"
    and amid_create: "writes_amid L r view queue s (Create E su s) (usage_key su)
        (\<lambda>c. SecretUsages c (usage_key su) = None) (\<lambda>_. True) (created su)"
    and amid_create_key: "fst (Create E su s) = Inr su' \<Longrightarrow> usage_key su' = usage_key su"
    and amid_patch: "writes_amid L r view queue s (Patch E (set_labels ls base) base s) (usage_key base)
        (\<lambda>c. SecretUsages c (usage_key base) = Some (wire_usage base)) (\<lambda>_. True) (patched (set_labels ls base) base)"
    and amid_patch_key: "fst (Patch E (set_labels ls base) base s) = Inr su' \<Longrightarrow> usage_key su' = usage_key base"
    and amid_status_update: "usage_key old = usage_key su \<Longrightarrow> writes_amid L r view queue s (StatusUpdate E su s) (usage_key su)
        (\<lambda>c. may_update c su old) (\<lambda>_. True) (status_written su old)"
    and amid_status_patch: "writes_amid L r view queue s (StatusPatch E (base\<lparr>Status := st\<rparr>) base s) (usage_key base)
        (\<lambda>c. SecretUsages c (usage_key base) = Some (wire_usage base)) (\<lambda>_. True)
        (status_written (base\<lparr>Status := st\<rparr>) (wire_usage base))"
    and amid_delete: "writes_amid L r view queue s (Delete E su s) (usage_key su)
        (\<lambda>c. SecretUsages c (usage_key su) \<noteq> None) (\<lambda>e. \<not> IsNotFound e) (deleted su)"
    and amid_set: "view (SetLabelValues E v vs x s) =
        (view s)\<lparr>Series := (Series (view s))(v := (Series (view s) v)(vs \<mapsto> x))\<rparr>"
      "queue (SetLabelValues E v vs x s) = queue s"
    and amid_unset: "view (DeleteLabelValues E v vs s) =
        (view s)\<lparr>Series := (Series (view s))(v := (Series (view s) v)(vs := None))\<rparr>"
      "queue (DeleteLabelValues E v vs s) = queue s"
  using assms by (simp_all add: documented_amid_def)

section \<open>The undisturbed client\<close>

text \<open>
  The client that a reconcile of \<open>nn\<close> cannot tell from \<open>E\<close> as long as \<open>nn\<close> is not queued: a call
  for another name, or one after which \<open>nn\<close> is queued, fails without effect, so does a read of
  its SecretUsage that need not be the stored one, and owned Pods
  that would be skipped are not listed.
\<close>

definition interrupted :: goError where
  "interrupted = APIError OtherReason ''interrupted''"

definition guard ::
    "('s \<Rightarrow> namespacedName set) \<Rightarrow> namespacedName \<Rightarrow> bool \<Rightarrow> 's \<Rightarrow> (goError + 'a) \<times> 's \<Rightarrow> (goError + 'a) \<times> 's" where
  "guard queue nn ok s out = (if ok \<and> nn \<notin> queue (snd out) then out else (Inl interrupted, s))"

definition undisturbed ::
    "'jp reconciler \<Rightarrow> ('s \<Rightarrow> namespacedName set) \<Rightarrow> ('s \<Rightarrow> namespacedName \<Rightarrow> bool) \<Rightarrow> namespacedName \<Rightarrow> 's env \<Rightarrow> 's env" where
  "undisturbed r queue fresh nn E =
     \<lparr>GetMetadata = (\<lambda>gvk k s. guard queue nn (k = nn) s (GetMetadata E gvk k s)),
      GetSecretUsage = (\<lambda>k s. guard queue nn (k = nn \<and> fresh s nn) s (GetSecretUsage E k s)),
      ListObjects = (\<lambda>lk opts s. guard queue nn (opts = indexedSecretListOptions (nn_Namespace nn) (nn_Name nn)) s
        (apfst (map_sum id (if lk = PodList then filter (\<lambda>obj. \<not> skipPod r obj) else id)) (ListObjects E lk opts s))),
      ListSecretUsages = (\<lambda>_ s. (Inl interrupted, s)),
      Create = (\<lambda>su s. guard queue nn (usage_key su = nn) s (Create E su s)),
      Patch = (\<lambda>su base s. guard queue nn (usage_key base = nn) s (Patch E su base s)),
      StatusUpdate = (\<lambda>su s. guard queue nn (usage_key su = nn) s (StatusUpdate E su s)),
      StatusPatch = (\<lambda>su base s. guard queue nn (usage_key base = nn) s (StatusPatch E su base s)),
      Delete = (\<lambda>su s. guard queue nn (usage_key su = nn) s (Delete E su s)),
      SetLabelValues = SetLabelValues E, DeleteLabelValues = DeleteLabelValues E, SetGauge = SetGauge E\<rparr>"

lemma not_NotFound_interrupted [simp]: "\<not> IsNotFound interrupted"
  by (simp add: interrupted_def IsNotFound_def)

lemma guarded_reads:
  assumes A: "rules_agree r" and ws: "well_stored (view s)"
    and R: "reads_amid L r view queue s out there missing"
    and ok: "\<And>c a. ok \<Longrightarrow> relevant L r nn c = relevant L r nn (view s) \<Longrightarrow> well_stored c \<Longrightarrow> there c a \<Longrightarrow> there' (f a)"
    and nf: "\<And>c. ok \<Longrightarrow> relevant L r nn c = relevant L r nn (view s) \<Longrightarrow> missing c \<Longrightarrow> missing'"
  shows "reads (\<lambda>s. relevant L r nn (view s)) s (guard queue nn ok s (apfst (map_sum id f) out)) there' missing'"
proof (cases "ok \<and> nn \<notin> queue (snd out)")
  case True
  obtain c q where c: "activity L r (view s) (queue s) c q"
    "case fst out of Inr a \<Rightarrow> there c a | Inl e \<Rightarrow> IsNotFound e \<longrightarrow> missing c"
    "activity L r c q (view (snd out)) (queue (snd out))"
    using R unfolding reads_amid_def by blast
  have q: "nn \<notin> q" using activity_queue[OF c(3)] True by blast
  have wc: "well_stored c" by (rule activity_well_stored[OF c(1) ws])
  have rc: "relevant L r nn c = relevant L r nn (view s)" by (rule activity_relevant[OF A c(1) q ws])
  moreover have "relevant L r nn (view (snd out)) = relevant L r nn c"
    using activity_relevant[OF A c(3) _ wc] True by blast
  ultimately show ?thesis
    using True c(2) ok[OF _ rc wc] nf[OF _ rc]
    by (cases "fst out") (auto simp: guard_def reads_def)
next
  case False
  then show ?thesis by (auto simp: guard_def reads_def)
qed

lemma guarded_writes:
  assumes A: "rules_agree r" and ws: "well_stored (view s)" and key: "ok \<Longrightarrow> key = nn"
    and W: "writes_amid L r view queue s out key pre fails effect"
    and pre: "\<And>c. ok \<Longrightarrow> relevant L r nn c = relevant L r nn (view s) \<Longrightarrow> pre c"
    and eff: "\<And>c a c'. ok \<Longrightarrow> relevant L r nn c = relevant L r nn (view s) \<Longrightarrow> effect c a c' \<Longrightarrow>
      effect' a (relevant L r nn c')"
  shows "writes (\<lambda>s. relevant L r nn (view s)) s (guard queue nn ok s out) effect'"
    and "fst (guard queue nn ok s out) = Inl e \<Longrightarrow> fails e \<or> e = interrupted \<or>
      (\<exists>a. effect' a (relevant L r nn (view (snd (guard queue nn ok s out)))))"
proof -
  have "writes (\<lambda>s. relevant L r nn (view s)) s out effect' \<and>
    (fst out = Inl e \<longrightarrow> fails e \<or> (\<exists>a. effect' a (relevant L r nn (view (snd out)))))"
    if ok: "ok" and out: "nn \<notin> queue (snd out)"
  proof -
    obtain c q c' q' su where c: "activity L r (view s) (queue s) c q"
      "pre c \<longrightarrow> (case fst out of Inr a \<Rightarrow> effect c a c' | Inl e \<Rightarrow> c' = c \<and> fails e \<or> (\<exists>a. effect c a c'))"
      "c' = put_usage nn su c" "well_stored c'" "q \<subseteq> q'"
      "activity L r c' q' (view (snd out)) (queue (snd out))"
      using W key[OF ok] unfolding writes_amid_def by blast
    have q: "nn \<notin> q'" "nn \<notin> q" using activity_queue[OF c(6)] c(5) out by blast+
    have rc: "relevant L r nn c = relevant L r nn (view s)" by (rule activity_relevant[OF A c(1) q(2) ws])
    have rc': "relevant L r nn (view (snd out)) = relevant L r nn c'"
      by (rule activity_relevant[OF A c(6) out c(4)])
    show ?thesis
      using c(2) pre[OF ok rc] eff[OF ok rc] rc rc'
      by (cases "fst out") (auto simp: writes_def)
  qed
  then show "writes (\<lambda>s. relevant L r nn (view s)) s (guard queue nn ok s out) effect'"
    and "fst (guard queue nn ok s out) = Inl e \<Longrightarrow> fails e \<or> e = interrupted \<or>
      (\<exists>a. effect' a (relevant L r nn (view (snd (guard queue nn ok s out)))))"
    by (auto simp: guard_def writes_def)
qed

lemma relevant_matching:
  "mset (filter (\<lambda>obj. \<not> (lk = PodList \<and> skipPod r obj)) (filter (matching L (Rules r) lk (nn_Namespace nn) (nn_Name nn)) xs)) =
   mset (filter (matching L (Rules r) lk (nn_Namespace nn) (nn_Name nn))
     (filter (\<lambda>obj. GetNamespace obj = nn_Namespace nn \<and> contribution L r (nn_Name nn) obj \<noteq> []) xs))"
proof -
  have "skipPod r obj \<Longrightarrow> listed_in obj = Some PodList" for obj by (cases obj) auto
  then show ?thesis
    unfolding filter_filter
    by (intro arg_cong[where f = mset] filter_cong refl) (auto simp: contribution_iff matching_def)
qed

lemma created_relevant:
  "usage_key su = nn \<Longrightarrow> created su c a c' \<Longrightarrow> relevant L r nn c = d \<Longrightarrow> created su d a (relevant L r nn c')"
  unfolding created_def by (auto simp: relevant_put)

lemma patched_relevant:
  "usage_key base = nn \<Longrightarrow> patched su base c a c' \<Longrightarrow> relevant L r nn c = d \<Longrightarrow> patched su base d a (relevant L r nn c')"
  unfolding patched_def by (auto simp: relevant_put)

lemma status_written_relevant:
  "usage_key old = nn \<Longrightarrow> status_written su old c a c' \<Longrightarrow> relevant L r nn c = d \<Longrightarrow>
     status_written su old d a (relevant L r nn c')"
  unfolding status_written_def by (auto simp: relevant_put)

lemma deleted_relevant:
  "usage_key su = nn \<Longrightarrow> deleted su c a c' \<Longrightarrow> relevant L r nn c = d \<Longrightarrow> deleted su d a (relevant L r nn c')"
  unfolding deleted_def by (auto simp: relevant_put)

lemma relevant_usages:
  "relevant L r nn c = relevant L r nn d \<Longrightarrow> SecretUsages c nn = SecretUsages d nn"
  by (metis relevant_simps(1))

lemma guard_other: "\<not> ok \<Longrightarrow> guard queue nn ok s out = (Inl interrupted, s)"
  by (simp add: guard_def)

lemma apfst_map_sum_id: "apfst (map_sum id id) out = out"
  by (cases out; cases "fst out") auto

lemma undisturbed_reads:
  assumes A: "rules_agree r" and D: "documented_amid L r E view queue fresh"
  shows "documented_reads L (Rules r) (undisturbed r queue fresh nn E) (\<lambda>s. relevant L r nn (view s))"
proof -
  let ?view = "\<lambda>s. relevant L r nn (view s)" and ?E = "undisturbed r queue fresh nn E"
  have ws: "well_stored (view s)" for s using D by (simp add: documented_amid_def)
  have meta: "reads ?view s (GetMetadata ?E (secretGVK L) k s)
      (\<lambda>_. k \<in> set (Secrets (?view s))) (k \<notin> set (Secrets (?view s)))" for s k
  proof -
    note R = amid_meta[OF D, of s k]
    have "reads ?view s (guard queue nn (k = nn) s (apfst (map_sum id id) (GetMetadata E (secretGVK L) k s)))
        (\<lambda>_. k \<in> set (Secrets (?view s))) (k \<notin> set (Secrets (?view s)))"
      by (rule guarded_reads[OF A ws R]) (metis relevant_simps(3))+
    then show ?thesis by (simp add: undisturbed_def apfst_map_sum_id)
  qed
  have get: "reads ?view s (GetSecretUsage ?E k s)
      (\<lambda>su. SecretUsages (?view s) k = Some su) (SecretUsages (?view s) k = None)" for s k
  proof -
    note R = amid_get[OF D, of s k]
    have "reads ?view s (guard queue nn (k = nn \<and> fresh s nn) s (apfst (map_sum id id) (GetSecretUsage E k s)))
      (\<lambda>su. SecretUsages (?view s) k = Some su) (SecretUsages (?view s) k = None)"
      by (rule guarded_reads[OF A ws R]) (metis id_apply relevant_simps(1), metis relevant_simps(1))
    then show ?thesis by (simp add: undisturbed_def apfst_map_sum_id)
  qed
  have lst: "reads ?view s (ListObjects ?E lk [InNamespace ns, MatchingFields SecretNameIndexField n] s)
      (\<lambda>xs. mset xs = mset (filter (matching L (Rules r) lk ns n) (Objects (?view s)))) True"
    if idx: "indexed_list (Rules r) lk" for s lk ns n
  proof -
    let ?ok = "[InNamespace ns, MatchingFields SecretNameIndexField n] = indexedSecretListOptions (nn_Namespace nn) (nn_Name nn)"
    let ?f = "if lk = PodList then filter (\<lambda>obj. \<not> skipPod r obj) else id"
    have f: "?f xs = filter (\<lambda>obj. \<not> (lk = PodList \<and> skipPod r obj)) xs" for xs by simp
    note R = amid_list[OF D idx, of s ns n]
    have "mset (?f xs) = mset (filter (matching L (Rules r) lk ns n) (Objects (?view s)))"
      if "?ok" "relevant L r nn c = ?view s" "mset xs = mset (filter (matching L (Rules r) lk ns n) (Objects c))" for c xs
    proof -
      have key: "ns = nn_Namespace nn" "n = nn_Name nn" using that(1) by (simp_all add: indexedSecretListOptions_def)
      have "mset (?f xs) = mset (filter (\<lambda>obj. \<not> (lk = PodList \<and> skipPod r obj))
          (filter (matching L (Rules r) lk ns n) (Objects c)))"
        unfolding f using that(3) by (metis mset_filter)
      also have "\<dots> = mset (filter (matching L (Rules r) lk ns n) (Objects (relevant L r nn c)))"
        unfolding key relevant_matching by (simp add: relevant_def)
      finally show ?thesis by (simp add: that(2))
    qed
    then have "reads ?view s (guard queue nn ?ok s (apfst (map_sum id ?f)
        (ListObjects E lk [InNamespace ns, MatchingFields SecretNameIndexField n] s)))
      (\<lambda>xs. mset xs = mset (filter (matching L (Rules r) lk ns n) (Objects (?view s)))) True"
      by (intro guarded_reads[OF A ws R]) blast+
    then show ?thesis by (simp add: undisturbed_def)
  qed
  have "SecretUsages (?view s) k = Some su \<Longrightarrow> wire_usage su = su \<and> usage_key su = k" for s k su
    using ws[of s] by (auto simp: well_stored_def relevant_def split: if_splits)
  moreover have "reads ?view s (ListSecretUsages ?E [] s)
        (\<lambda>xs. distinct (map usage_key xs) \<and> set xs = ran (SecretUsages (?view s))) True" for s
    by (simp add: undisturbed_def reads_def)
  ultimately show ?thesis
    unfolding documented_reads_def using meta get lst by blast
qed

lemma relevant_key:
  "SecretUsages (relevant L r nn c) k = Some su \<Longrightarrow> k = nn"
  by (auto simp: relevant_def split: if_splits)

lemma undisturbed_create:
  assumes A: "rules_agree r" and D: "documented_amid L r E view queue fresh"
    and none: "SecretUsages (relevant L r nn (view s)) (usage_key su) = None"
  shows "writes (\<lambda>s. relevant L r nn (view s)) s (Create (undisturbed r queue fresh nn E) su s)
    (created su (relevant L r nn (view s)))"
proof -
  note W = amid_create[OF D, of s su]
  show ?thesis
  proof (cases "usage_key su = nn")
    case key: True
    have "writes (\<lambda>s. relevant L r nn (view s)) s (guard queue nn True s (Create E su s))
      (created su (relevant L r nn (view s)))"
    proof (rule guarded_writes(1)[OF A amid_well_stored[OF D] key W])
      show "SecretUsages c (usage_key su) = None" if "relevant L r nn c = relevant L r nn (view s)" for c
        using none relevant_usages[OF that] key by simp
    qed (rule created_relevant[OF key])
    then show ?thesis by (simp add: undisturbed_def key)
  next
    case False
    then show ?thesis by (simp add: undisturbed_def guard_other writes_def)
  qed
qed

lemma undisturbed_patch:
  assumes A: "rules_agree r" and D: "documented_amid L r E view queue fresh"
    and base: "SecretUsages (relevant L r nn (view s)) (usage_key base) = Some (wire_usage base)"
  shows "writes (\<lambda>s. relevant L r nn (view s)) s (Patch (undisturbed r queue fresh nn E) (set_labels ls base) base s)
    (patched (set_labels ls base) base (relevant L r nn (view s)))"
proof -
  note W = amid_patch[OF D, of s ls base]
  have key: "usage_key base = nn" by (rule relevant_key[OF base])
  have "writes (\<lambda>s. relevant L r nn (view s)) s (guard queue nn True s (Patch E (set_labels ls base) base s))
    (patched (set_labels ls base) base (relevant L r nn (view s)))"
  proof (rule guarded_writes(1)[OF A amid_well_stored[OF D] key W])
    show "SecretUsages c (usage_key base) = Some (wire_usage base)"
      if "relevant L r nn c = relevant L r nn (view s)" for c
      using base relevant_usages[OF that] key by simp
  qed (rule patched_relevant[OF key])
  then show ?thesis by (simp add: undisturbed_def key)
qed

lemma undisturbed_status_update:
  assumes A: "rules_agree r" and D: "documented_amid L r E view queue fresh"
    and may: "may_update (relevant L r nn (view s)) su old"
  shows "writes (\<lambda>s. relevant L r nn (view s)) s (StatusUpdate (undisturbed r queue fresh nn E) su s)
    (status_written su old (relevant L r nn (view s)))"
proof -
  have st: "SecretUsages (relevant L r nn (view s)) (usage_key su) = Some old" using may by (simp add: may_update_def)
  have key: "usage_key su = nn" by (rule relevant_key[OF st])
  have old: "usage_key old = nn" using st key amid_well_stored[OF D, of s] by (simp add: well_stored_def)
  note W = amid_status_update[OF D old[unfolded key[symmetric]], of s]
  have "writes (\<lambda>s. relevant L r nn (view s)) s (guard queue nn True s (StatusUpdate E su s))
    (status_written su old (relevant L r nn (view s)))"
  proof (rule guarded_writes(1)[OF A amid_well_stored[OF D] key W])
    show "may_update c su old" if "relevant L r nn c = relevant L r nn (view s)" for c
      using may relevant_usages[OF that] key by (simp add: may_update_def)
  qed (rule status_written_relevant[OF old])
  then show ?thesis by (simp add: undisturbed_def key)
qed

lemma undisturbed_status_patch:
  assumes A: "rules_agree r" and D: "documented_amid L r E view queue fresh"
    and base: "SecretUsages (relevant L r nn (view s)) (usage_key base) = Some (wire_usage base)"
  shows "writes (\<lambda>s. relevant L r nn (view s)) s (StatusPatch (undisturbed r queue fresh nn E) (base\<lparr>Status := st\<rparr>) base s)
    (status_written (base\<lparr>Status := st\<rparr>) (wire_usage base) (relevant L r nn (view s)))"
proof -
  note W = amid_status_patch[OF D, of s st base]
  have key: "usage_key base = nn" by (rule relevant_key[OF base])
  have "writes (\<lambda>s. relevant L r nn (view s)) s (guard queue nn True s (StatusPatch E (base\<lparr>Status := st\<rparr>) base s))
    (status_written (base\<lparr>Status := st\<rparr>) (wire_usage base) (relevant L r nn (view s)))"
  proof (rule guarded_writes(1)[OF A amid_well_stored[OF D] key W])
    show "SecretUsages c (usage_key base) = Some (wire_usage base)"
      if "relevant L r nn c = relevant L r nn (view s)" for c
      using base relevant_usages[OF that] key by simp
  qed (rule status_written_relevant[of "wire_usage base"], simp add: key)
  then show ?thesis by (simp add: undisturbed_def key)
qed

lemma undisturbed_delete:
  assumes A: "rules_agree r" and D: "documented_amid L r E view queue fresh"
    and there: "SecretUsages (relevant L r nn (view s)) (usage_key su) \<noteq> None"
  defines "out \<equiv> Delete (undisturbed r queue fresh nn E) su s"
  shows "writes (\<lambda>s. relevant L r nn (view s)) s out (deleted su (relevant L r nn (view s))) \<and>
    (case out of (Inl e, s') \<Rightarrow> IsNotFound e \<longrightarrow> deleted su (relevant L r nn (view s)) () (relevant L r nn (view s'))
     | (Inr _, _) \<Rightarrow> True)"
proof -
  have key: "usage_key su = nn" using there relevant_key by blast
  note W = amid_delete[OF D, of s su]
  have pre: "SecretUsages c (usage_key su) \<noteq> None" if True "relevant L r nn c = relevant L r nn (view s)" for c
    using there relevant_usages[OF that(2)] key by simp
  have eff: "deleted su (relevant L r nn (view s)) a (relevant L r nn c')"
    if True "relevant L r nn c = relevant L r nn (view s)" "deleted su c a c'" for c a c'
    by (rule deleted_relevant[OF key that(3,2)])
  have out: "out = guard queue nn True s (Delete E su s)" by (simp add: out_def undisturbed_def key)
  have G1: "writes (\<lambda>s. relevant L r nn (view s)) s (guard queue nn True s (Delete E su s))
      (deleted su (relevant L r nn (view s)))"
    by (rule guarded_writes(1)[OF A amid_well_stored[OF D] key W]) (rule pre eff; assumption)+
  have G2: "\<not> IsNotFound e \<or> e = interrupted \<or> (\<exists>a. deleted su (relevant L r nn (view s)) a
      (relevant L r nn (view (snd (guard queue nn True s (Delete E su s))))))"
    if "fst (guard queue nn True s (Delete E su s)) = Inl e" for e
    by (rule guarded_writes(2)[OF A amid_well_stored[OF D] key W _ _ that]) (rule pre eff; assumption)+
  have missing: "deleted su (relevant L r nn (view s)) () (relevant L r nn (view (snd out)))"
    if err: "fst out = Inl e" "IsNotFound e" for e
  proof -
    have "fst (guard queue nn True s (Delete E su s)) = Inl e" using err(1) by (simp only: out)
    from G2[OF this] err(2) have "\<exists>a. deleted su (relevant L r nn (view s)) a (relevant L r nn (view (snd out)))"
      unfolding out by (metis not_NotFound_interrupted)
    then show ?thesis unfolding deleted_def by blast
  qed
  obtain res s' where run: "out = (res, s')" by force
  have "writes (\<lambda>s. relevant L r nn (view s)) s out (deleted su (relevant L r nn (view s)))"
    unfolding out by (rule G1)
  then show ?thesis using missing by (cases res) (simp_all add: run)
qed

lemma undisturbed_series:
  "SetLabelValues (undisturbed r queue fresh nn E) = SetLabelValues E"
  "DeleteLabelValues (undisturbed r queue fresh nn E) = DeleteLabelValues E"
  by (simp_all add: undisturbed_def)

lemma undisturbed_documented:
  assumes "rules_agree r" "documented_amid L r E view queue fresh"
  shows "documented L (Rules r) (undisturbed r queue fresh nn E) (\<lambda>s. relevant L r nn (view s))"
proof -
  have "documented_series (undisturbed r queue fresh nn E) (\<lambda>s. relevant L r nn (view s))"
    using assms(2)
    by (auto simp: documented_amid_def documented_series_def undisturbed_series relevant_def fun_eq_iff
        intro!: cluster.equality)
  moreover have "documented_writes (undisturbed r queue fresh nn E) (\<lambda>s. relevant L r nn (view s))"
    unfolding documented_writes_def
    by (intro conjI[OF _ conjI[OF _ conjI[OF _ conjI]]] allI impI undisturbed_create[OF assms] undisturbed_patch[OF assms]
        undisturbed_status_update[OF assms] undisturbed_status_patch[OF assms] undisturbed_delete[OF assms])
  ultimately show ?thesis by (simp add: documented_def undisturbed_reads[OF assms])
qed

end
