(* ===== verification/Simulation.thy ===== *)
theory Simulation
  imports ReconcileSpec
begin

text \<open>
  Two clients that a reconcile of one name cannot tell apart: every call the code makes has
  equal results in related states and leaves related states. \<open>R\<close> relates states as long as the
  reconcile reads, \<open>T\<close> from its first write on. The reconcile then returns the same in both.
  With the two clients equal this is what a reconcile keeps of the state (\<open>keeps\<close>).
\<close>

definition same :: "('s \<Rightarrow> 't \<Rightarrow> bool) \<Rightarrow> 'a \<times> 's \<Rightarrow> 'a \<times> 't \<Rightarrow> bool" where
  "same R out out' \<longleftrightarrow> fst out = fst out' \<and> R (snd out) (snd out')"

lemma sameE:
  assumes "same R out out'"
  obtains res s t where "out = (res, s)" "out' = (res, t)" "R s t"
  using assms by (cases out; cases out') (auto simp: same_def)

locale simulation =
  fixes L :: "'jp lib" and r :: "'jp reconciler" and nn :: namespacedName
    and R T :: "'s \<Rightarrow> 't \<Rightarrow> bool" and E :: "'s env" and F :: "'t env"
  assumes reading: "R s t \<Longrightarrow> T s t"
    and meta: "R s t \<Longrightarrow> same R (GetMetadata E (secretGVK L) nn s) (GetMetadata F (secretGVK L) nn t)"
    and get: "R s t \<Longrightarrow> same R (GetSecretUsage E nn s) (GetSecretUsage F nn t)"
    and get_key: "fst (GetSecretUsage E nn s) = Inr su \<Longrightarrow> usage_key su = nn"
    and list_call: "indexed_list (Rules r) lk \<Longrightarrow> R s t \<Longrightarrow>
      same R (ListObjects E lk (indexedSecretListOptions (nn_Namespace nn) (nn_Name nn)) s)
        (ListObjects F lk (indexedSecretListOptions (nn_Namespace nn) (nn_Name nn)) t)"
    and create: "usage_key su = nn \<Longrightarrow> T s t \<Longrightarrow> same T (Create E su s) (Create F su t)"
    and create_key: "usage_key su = nn \<Longrightarrow> fst (Create E su s) = Inr su' \<Longrightarrow> usage_key su' = nn"
    and patch: "usage_key su = nn \<Longrightarrow> T s t \<Longrightarrow> same T (Patch E (set_labels ls su) su s) (Patch F (set_labels ls su) su t)"
    and patch_key: "usage_key su = nn \<Longrightarrow> fst (Patch E (set_labels ls su) su s) = Inr su' \<Longrightarrow> usage_key su' = nn"
    and status_update: "usage_key su = nn \<Longrightarrow> T s t \<Longrightarrow> same T (StatusUpdate E su s) (StatusUpdate F su t)"
    and status_patch: "usage_key su = nn \<Longrightarrow> T s t \<Longrightarrow>
      same T (StatusPatch E (su\<lparr>Status := st\<rparr>) su s) (StatusPatch F (su\<lparr>Status := st\<rparr>) su t)"
    and delete_call: "usage_key su = nn \<Longrightarrow> T s t \<Longrightarrow> same T (Delete E su s) (Delete F su t)"
    and set_series: "R s t \<Longrightarrow> R (SetLabelValues E v [nn_Namespace nn, nn_Name nn] x s)
      (SetLabelValues F v [nn_Namespace nn, nn_Name nn] x t)"
    and unset_series: "T s t \<Longrightarrow> T (DeleteLabelValues E v [nn_Namespace nn, nn_Name nn] s)
      (DeleteLabelValues F v [nn_Namespace nn, nn_Name nn] t)"
begin

section \<open>Reading\<close>

lemma sim_secretExists:
  assumes "R s t"
  shows "same R (secretExists L E nn s) (secretExists L F nn t)"
  by (rule sameE[OF meta[OF assms]]) (simp add: secretExists_def same_def split: sum.split)

lemma sim_collect_list:
  assumes "R s t" "indexed_list (Rules r) lk"
  shows "same R (collect_list lk L E (nn_Namespace nn) (nn_Name nn) s) (collect_list lk L F (nn_Namespace nn) (nn_Name nn) t)"
  by (rule sameE[OF list_call[OF assms(2,1)]]) (simp add: collect_list_def same_def split: sum.split)

lemma sim_collectPodUsages:
  assumes "R s t"
  shows "same R (collectPodUsages L r E (nn_Namespace nn) (nn_Name nn) s) (collectPodUsages L r F (nn_Namespace nn) (nn_Name nn) t)"
  by (rule sameE[OF list_call[OF _ assms, of PodList]])
    (simp_all add: collectPodUsages_def same_def split: sum.split)

lemma sim_collect_rules:
  assumes "R s t" "set rs \<subseteq> set (Rules r)"
  shows "same R (collect_rules L E (nn_Namespace nn) (nn_Name nn) rs acc s) (collect_rules L F (nn_Namespace nn) (nn_Name nn) rs acc t)"
  using assms
proof (induction rs arbitrary: acc s t)
  case Nil
  then show ?case by (simp add: same_def)
next
  case (Cons rule rs)
  have "indexed_list (Rules r) (UnstructuredList (GVK rule))" using Cons.prems(2) by auto
  then show ?case
  proof (rule sameE[OF list_call[OF _ Cons.prems(1), of "UnstructuredList (GVK rule)"]])
    fix res s1 t1
    assume call: "ListObjects E (UnstructuredList (GVK rule)) (indexedSecretListOptions (nn_Namespace nn) (nn_Name nn)) s = (res, s1)"
      "ListObjects F (UnstructuredList (GVK rule)) (indexedSecretListOptions (nn_Namespace nn) (nn_Name nn)) t = (res, t1)" "R s1 t1"
    have "same R (collect_rules L E (nn_Namespace nn) (nn_Name nn) rs acc' s1)
        (collect_rules L F (nn_Namespace nn) (nn_Name nn) rs acc' t1)" for acc'
      using Cons.IH[OF call(3)] Cons.prems(2) by simp
    then show ?case using call(3) by (cases res) (simp_all add: call(1,2) same_def Let_def)
  qed
qed

lemma sim_collect_loop:
  assumes "list_all2 (\<lambda>c d. \<forall>s t. R s t \<longrightarrow> same R (c ns n s) (d ns n t)) cs ds" "R s t"
  shows "same R (collect_loop cs ns n acc s) (collect_loop ds ns n acc t)"
  using assms
proof (induction cs ds arbitrary: acc s t rule: list_all2_induct)
  case Nil
  then show ?case by (simp add: same_def)
next
  case (Cons c cs d ds)
  have "same R (c ns n s) (d ns n t)" using Cons.hyps(1) Cons.prems by blast
  then show ?case using Cons.IH by (elim sameE) (simp add: same_def split: sum.split)
qed

lemma sim_collectors:
  "list_all2 (\<lambda>c d. \<forall>s t. R s t \<longrightarrow> same R (c (nn_Namespace nn) (nn_Name nn) s) (d (nn_Namespace nn) (nn_Name nn) t))
    (collectors L r E) (collectors L r F)"
proof -
  have "R s t \<Longrightarrow> same R (collectCustomResourceUsages L r E (nn_Namespace nn) (nn_Name nn) s)
      (collectCustomResourceUsages L r F (nn_Namespace nn) (nn_Name nn) t)" for s t
    using sim_collect_rules[OF _ subset_refl] by (cases "Rules r = []") (simp_all add: collectCustomResourceUsages_def same_def)
  then show ?thesis
    using sim_collectPodUsages sim_collect_list
    by (simp add: collectors_def collectDeploymentUsages_def collectStatefulSetUsages_def
        collectDaemonSetUsages_def collectJobUsages_def collectCronJobUsages_def collectReplicaSetUsages_def
        collectReplicationControllerUsages_def collectServiceAccountUsages_def collectIngressUsages_def)
qed

lemma sim_collectUsages:
  assumes "R s t"
  shows "same R (collectUsages L r E (nn_Namespace nn) (nn_Name nn) s) (collectUsages L r F (nn_Namespace nn) (nn_Name nn) t)"
  by (rule sameE[OF sim_collect_loop[OF sim_collectors assms, of "Slice []"]])
    (simp add: collectUsages_def same_def split: sum.split)

section \<open>Writing\<close>

lemma sim_return_error: "same T out out' \<Longrightarrow> same T (return_error out) (return_error out')"
  by (elim sameE) (simp add: return_error_def same_def split: sum.split)

lemma sim_delete_if_present:
  assumes "R s t"
  shows "same T (deleteSecretUsageIfPresent E nn s) (deleteSecretUsageIfPresent F nn t)"
proof (rule sameE[OF get[OF assms]])
  fix res s1 t1
  assume got: "GetSecretUsage E nn s = (res, s1)" "GetSecretUsage F nn t = (res, t1)" "R s1 t1"
  show ?thesis
  proof (cases res)
    case (Inl e)
    then show ?thesis using reading[OF got(3)] by (simp add: deleteSecretUsageIfPresent_def got(1,2) same_def)
  next
    case (Inr su)
    have "usage_key su = nn" by (rule get_key[of s]) (simp add: got Inr)
    from delete_call[OF this reading[OF got(3)]] show ?thesis
      by (elim sameE) (simp add: deleteSecretUsageIfPresent_def got(1,2) Inr same_def split: sum.split)
  qed
qed

lemma sim_update_usage:
  assumes "T s t" and "usage_key su = nn"
  shows "same T (update_usage E su ls st s) (update_usage F su ls st t)"
proof -
  have status: "same T (return_error (StatusPatch E (su\<lparr>Status := st\<rparr>) su s)) (return_error (StatusPatch F (su\<lparr>Status := st\<rparr>) su t))"
    if "T s t" "usage_key su = nn" for s t su
    by (rule sim_return_error[OF status_patch[OF that(2,1)]])
  show ?thesis
  proof (cases "Labels (ObjectMeta su) = ls")
    case True
    then show ?thesis
      using status[OF assms] assms(1) by (cases "Status su = st") (simp_all add: update_usage_def same_def)
  next
    case False
    show ?thesis
    proof (rule sameE[OF patch[OF assms(2,1), of ls]])
      fix res s1 t1
      assume out: "Patch E (set_labels ls su) su s = (res, s1)" "Patch F (set_labels ls su) su t = (res, t1)" "T s1 t1"
      show ?thesis
      proof (cases res)
        case (Inr su')
        have "usage_key su' = nn" by (rule patch_key[OF assms(2), of ls s]) (simp add: out Inr)
        then show ?thesis
          using status[OF out(3), of su'] False out Inr
          by (cases "Status su' = st") (simp_all add: update_usage_def set_labels_def same_def)
      qed (use False out in \<open>simp add: update_usage_def set_labels_def same_def\<close>)
    qed
  qed
qed

lemma sim_create_usage:
  assumes "T s t"
  shows "same T (create_usage E nn ls st s) (create_usage F nn ls st t)"
proof -
  define su where "su = \<lparr>ObjectMeta = zero_meta\<lparr>Namespace := nn_Namespace nn, Name := nn_Name nn, Labels := ls\<rparr>,
     Status = zero_status\<rparr>"
  note unfold = create_usage_def su_def[symmetric]
  have key: "usage_key su = nn" by (simp add: su_def usage_key_def)
  show ?thesis
  proof (rule sameE[OF create[OF key assms]])
    fix res s1 t1
    assume out: "Create E su s = (res, s1)" "Create F su t = (res, t1)" "T s1 t1"
    show ?thesis
    proof (cases res)
      case (Inr su')
      have "usage_key su' = nn" by (rule create_key[OF key, of s]) (simp add: out Inr)
      then have "usage_key (su'\<lparr>Status := st\<rparr>) = nn" by (simp add: usage_key_def)
      from sim_return_error[OF status_update[OF this out(3)]]
      show ?thesis by (simp add: unfold out(1,2) Inr)
    qed (use out in \<open>simp add: unfold same_def\<close>)
  qed
qed

lemma sim_write_usage:
  assumes "R s t"
  shows "same T (write_usage E nn ls st s) (write_usage F nn ls st t)"
proof (rule sameE[OF get[OF assms]])
  fix res s1 t1
  assume got: "GetSecretUsage E nn s = (res, s1)" "GetSecretUsage F nn t = (res, t1)" "R s1 t1"
  note T = reading[OF got(3)]
  show ?thesis
  proof (cases res)
    case (Inl e)
    then show ?thesis
      using sim_create_usage[OF T, of ls st] T by (cases "IsNotFound e") (simp_all add: write_usage_def got(1,2) same_def)
  next
    case (Inr su)
    have "usage_key su = nn" by (rule get_key[of s]) (simp add: got Inr)
    from sim_update_usage[OF T this] show ?thesis by (simp add: write_usage_def got(1,2) Inr)
  qed
qed

lemma sim_record:
  assumes "R s t"
  shows "R (recordSecretMetrics r' E (nn_Namespace nn) (nn_Name nn) b tot trunc s)
    (recordSecretMetrics r' F (nn_Namespace nn) (nn_Name nn) b tot trunc t)"
  using assms by (simp add: recordSecretMetrics_def set_series)

lemma sim_clear:
  assumes "T s t"
  shows "T (clearSecretMetrics r' E (nn_Namespace nn) (nn_Name nn) s) (clearSecretMetrics r' F (nn_Namespace nn) (nn_Name nn) t)"
  using assms by (simp add: clearSecretMetrics_def unset_series)

section \<open>The whole reconcile\<close>

lemma sim_Reconcile:
  assumes "R s t"
  shows "same T (Reconcile L r E nn s) (Reconcile L r F nn t)"
proof (rule sameE[OF sim_secretExists[OF assms]])
  fix ex s1 t1
  assume ex: "secretExists L E nn s = (ex, s1)" "secretExists L F nn t = (ex, t1)" "R s1 t1"
  show ?thesis
  proof (rule sameE[OF sim_collectUsages[OF ex(3)]])
    fix col s2 t2
    assume col: "collectUsages L r E (nn_Namespace nn) (nn_Name nn) s1 = (col, s2)"
      "collectUsages L r F (nn_Namespace nn) (nn_Name nn) t1 = (col, t2)" "R s2 t2"
    show ?thesis
    proof (cases "isl ex \<or> isl col")
      case True
      then show ?thesis
        using reading[OF ex(3)] reading[OF col(3)]
        by (cases ex; cases col) (simp_all add: Reconcile_def ex(1,2) col(1,2) same_def)
    next
      case False
      then obtain b us where Inr: "ex = Inr b" "col = Inr us" by (metis sum.collapse(2))
      obtain usages tot trunc where tr: "truncateUsages r us = (usages, tot, trunc)" by (metis prod_cases3)
      show ?thesis
      proof (cases "tot = 0 \<and> \<not> (b \<and> TrackUnusedSecrets r)")
        case del: True
        show ?thesis
          unfolding Reconcile_def ex(1,2) col(1,2) Inr tr Let_def prod.case sum.case if_P[OF del]
        proof (rule sameE[OF sim_delete_if_present[OF col(3)]])
          fix res s3 t3
          assume out: "deleteSecretUsageIfPresent E nn s2 = (res, s3)" "deleteSecretUsageIfPresent F nn t2 = (res, t3)" "T s3 t3"
          show "same T
              (case deleteSecretUsageIfPresent E nn s2 of (Some err, w) \<Rightarrow> (Some err, w)
               | (None, w) \<Rightarrow> (None, clearSecretMetrics r E (nn_Namespace nn) (nn_Name nn) w))
              (case deleteSecretUsageIfPresent F nn t2 of (Some err, w) \<Rightarrow> (Some err, w)
               | (None, w) \<Rightarrow> (None, clearSecretMetrics r F (nn_Namespace nn) (nn_Name nn) w))"
            unfolding out(1,2) using out(3) sim_clear[OF out(3)] by (cases res) (simp_all add: same_def)
        qed
      next
        case False
        show ?thesis
          unfolding Reconcile_def ex(1,2) col(1,2) Inr tr Let_def prod.case sum.case if_not_P[OF False]
          by (rule sim_write_usage[OF sim_record[OF col(3)]])
      qed
    qed
  qed
qed

end

end
