(* ===== verification/Kept.thy ===== *)
theory Kept
  imports Simulation
begin

text \<open>
  A predicate on the state that every call of a reconcile of one name keeps is kept by the
  whole reconcile, whatever the calls return: the case of \<open>simulation\<close> with one client. The
  calls are those the code makes: for the Secret and the SecretUsage of that name, and lists
  by its index.
\<close>

definition keeps ::
    "'jp lib \<Rightarrow> 'jp reconciler \<Rightarrow> namespacedName \<Rightarrow> 's env \<Rightarrow> ('s \<Rightarrow> bool) \<Rightarrow> bool" where
  "keeps L r nn E I \<longleftrightarrow> simulation L r nn (\<lambda>s t. s = t \<and> I s) (\<lambda>s t. s = t \<and> I s) E E"

lemma keepsI:
  assumes "\<And>s. I s \<Longrightarrow> I (snd (GetMetadata E (secretGVK L) nn s))"
    and "\<And>s. I s \<Longrightarrow> I (snd (GetSecretUsage E nn s))"
    and "\<And>s lk. indexed_list (Rules r) lk \<Longrightarrow> I s \<Longrightarrow>
      I (snd (ListObjects E lk (indexedSecretListOptions (nn_Namespace nn) (nn_Name nn)) s))"
    and "\<And>s su. usage_key su = nn \<Longrightarrow> I s \<Longrightarrow> I (snd (Create E su s))"
    and "\<And>s ls su. usage_key su = nn \<Longrightarrow> I s \<Longrightarrow> I (snd (Patch E (set_labels ls su) su s))"
    and "\<And>s su. usage_key su = nn \<Longrightarrow> I s \<Longrightarrow> I (snd (StatusUpdate E su s))"
    and "\<And>s st su. usage_key su = nn \<Longrightarrow> I s \<Longrightarrow> I (snd (StatusPatch E (su\<lparr>Status := st\<rparr>) su s))"
    and "\<And>s su. usage_key su = nn \<Longrightarrow> I s \<Longrightarrow> I (snd (Delete E su s))"
    and "\<And>s v x. I s \<Longrightarrow> I (SetLabelValues E v [nn_Namespace nn, nn_Name nn] x s)"
    and "\<And>s v. I s \<Longrightarrow> I (DeleteLabelValues E v [nn_Namespace nn, nn_Name nn] s)"
    and get: "\<And>s su. fst (GetSecretUsage E nn s) = Inr su \<Longrightarrow> usage_key su = nn"
    and create: "\<And>s su su'. usage_key su = nn \<Longrightarrow> fst (Create E su s) = Inr su' \<Longrightarrow> usage_key su' = nn"
    and patch: "\<And>s ls su su'. usage_key su = nn \<Longrightarrow> fst (Patch E (set_labels ls su) su s) = Inr su' \<Longrightarrow> usage_key su' = nn"
  shows "keeps L r nn E I"
  unfolding keeps_def
proof
  show "usage_key su = nn" if "fst (GetSecretUsage E nn s) = Inr su" for s su by (rule get[OF that])
  show "usage_key su' = nn" if "usage_key su = nn" "fst (Create E su s) = Inr su'" for s su su' by (rule create[OF that])
  show "usage_key su' = nn" if "usage_key su = nn" "fst (Patch E (set_labels ls su) su s) = Inr su'" for s ls su su'
    by (rule patch[OF that])
qed (simp_all add: same_def assms(1-10))

lemma keeps_simulation:
  "keeps L r nn E I \<Longrightarrow> simulation L r nn (\<lambda>s t. s = t \<and> I s) (\<lambda>s t. s = t \<and> I s) E E"
  by (simp add: keeps_def)

lemma keeps_calls:
  assumes "keeps L r nn E I"
  shows keeps_get: "I s \<Longrightarrow> I (snd (GetSecretUsage E nn s))"
    and keeps_get_key: "fst (GetSecretUsage E nn s) = Inr su \<Longrightarrow> usage_key su = nn"
    and keeps_list: "indexed_list (Rules r) lk \<Longrightarrow> I s \<Longrightarrow>
      I (snd (ListObjects E lk (indexedSecretListOptions (nn_Namespace nn) (nn_Name nn)) s))"
    and keeps_create_key: "usage_key su = nn \<Longrightarrow> fst (Create E su s) = Inr su' \<Longrightarrow> usage_key su' = nn"
    and keeps_patch_key: "usage_key su = nn \<Longrightarrow> fst (Patch E (set_labels ls su) su s) = Inr su' \<Longrightarrow> usage_key su' = nn"
    and keeps_status_update: "usage_key su = nn \<Longrightarrow> I s \<Longrightarrow> I (snd (StatusUpdate E su s))"
    and keeps_delete_call: "usage_key su = nn \<Longrightarrow> I s \<Longrightarrow> I (snd (Delete E su s))"
proof -
  note S = keeps_simulation[OF assms]
  show "I s \<Longrightarrow> I (snd (GetSecretUsage E nn s))" using simulation.get[OF S, of s s] by (simp add: same_def)
  show "fst (GetSecretUsage E nn s) = Inr su \<Longrightarrow> usage_key su = nn" by (rule simulation.get_key[OF S])
  show "indexed_list (Rules r) lk \<Longrightarrow> I s \<Longrightarrow>
      I (snd (ListObjects E lk (indexedSecretListOptions (nn_Namespace nn) (nn_Name nn)) s))"
    using simulation.list_call[OF S, of lk s s] by (simp add: same_def)
  show "usage_key su = nn \<Longrightarrow> fst (Create E su s) = Inr su' \<Longrightarrow> usage_key su' = nn" by (rule simulation.create_key[OF S])
  show "usage_key su = nn \<Longrightarrow> fst (Patch E (set_labels ls su) su s) = Inr su' \<Longrightarrow> usage_key su' = nn"
    by (rule simulation.patch_key[OF S])
  show "usage_key su = nn \<Longrightarrow> I s \<Longrightarrow> I (snd (StatusUpdate E su s))"
    using simulation.status_update[OF S, of su s s] by (simp add: same_def)
  show "usage_key su = nn \<Longrightarrow> I s \<Longrightarrow> I (snd (Delete E su s))"
    using simulation.delete_call[OF S, of su s s] by (simp add: same_def)
qed

lemma same_keeps: "same (\<lambda>s t. s = t \<and> I s) out out \<Longrightarrow> I (snd out)"
  by (simp add: same_def)

lemma keeps_stages:
  assumes "keeps L r nn E I" and I: "I s"
  shows keeps_secretExists: "I (snd (secretExists L E nn s))"
    and keeps_collectUsages: "I (snd (collectUsages L r E (nn_Namespace nn) (nn_Name nn) s))"
    and keeps_collect_rules: "set rs \<subseteq> set (Rules r) \<Longrightarrow> I (snd (collect_rules L E (nn_Namespace nn) (nn_Name nn) rs acc s))"
    and keeps_delete: "I (snd (deleteSecretUsageIfPresent E nn s))"
    and keeps_status_patch: "usage_key su = nn \<Longrightarrow> I (snd (return_error (StatusPatch E (su\<lparr>Status := st\<rparr>) su s)))"
    and keeps_update_usage: "usage_key su = nn \<Longrightarrow> I (snd (update_usage E su ls st s))"
    and keeps_create_usage: "I (snd (create_usage E nn ls st s))"
    and keeps_write_usage: "I (snd (write_usage E nn ls st s))"
    and keeps_metrics: "I (recordSecretMetrics r' E (nn_Namespace nn) (nn_Name nn) b tot trunc s)"
      "I (clearSecretMetrics r' E (nn_Namespace nn) (nn_Name nn) s)"
    and keeps_Reconcile: "I (snd (Reconcile L r E nn s))"
proof -
  note S = keeps_simulation[OF assms(1)]
  have s: "s = s \<and> I s" using I by simp
  show "I (snd (secretExists L E nn s))"
    "I (snd (collectUsages L r E (nn_Namespace nn) (nn_Name nn) s))"
    "I (snd (deleteSecretUsageIfPresent E nn s))"
    "I (snd (create_usage E nn ls st s))" "I (snd (write_usage E nn ls st s))" "I (snd (Reconcile L r E nn s))"
    by (rule same_keeps, rule simulation.sim_secretExists[OF S] simulation.sim_collectUsages[OF S]
        simulation.sim_delete_if_present[OF S] simulation.sim_create_usage[OF S]
        simulation.sim_write_usage[OF S] simulation.sim_Reconcile[OF S], rule s)+
  show "set rs \<subseteq> set (Rules r) \<Longrightarrow> I (snd (collect_rules L E (nn_Namespace nn) (nn_Name nn) rs acc s))"
    by (rule same_keeps, rule simulation.sim_collect_rules[OF S s])
  show "I (snd (return_error (StatusPatch E (su\<lparr>Status := st\<rparr>) su s)))" if "usage_key su = nn"
    by (rule same_keeps, rule simulation.sim_return_error[OF S simulation.status_patch[OF S that s]])
  show "I (snd (update_usage E su ls st s))" if "usage_key su = nn"
    by (rule same_keeps, rule simulation.sim_update_usage[OF S s that])
  show "I (recordSecretMetrics r' E (nn_Namespace nn) (nn_Name nn) b tot trunc s)"
    using simulation.sim_record[OF S s] by blast
  show "I (clearSecretMetrics r' E (nn_Namespace nn) (nn_Name nn) s)"
    using simulation.sim_clear[OF S s] by blast
qed

lemma keeps_collect_loop:
  assumes "list_all (\<lambda>c. \<forall>s. I s \<longrightarrow> I (snd (c ns n s))) cs" "I s"
  shows "I (snd (collect_loop cs ns n acc s))"
  using assms
proof (induction cs arbitrary: acc s)
  case (Cons c cs)
  obtain res s' where call: "c ns n s = (res, s')" by force
  have "I (snd (c ns n s))" using Cons.prems by simp
  then have "I s'" by (simp add: call)
  then have "I (snd (collect_loop cs ns n acc' s'))" for acc' using Cons.IH Cons.prems(1) by simp
  then show ?case using \<open>I s'\<close> by (cases res) (simp_all add: call)
qed simp

lemma keeps_collectors:
  assumes "keeps L r nn E I"
  shows "list_all (\<lambda>c. \<forall>s. I s \<longrightarrow> I (snd (c (nn_Namespace nn) (nn_Name nn) s))) (collectors L r E)"
  using simulation.sim_collectors[OF keeps_simulation[OF assms]]
  by (auto simp: list_all2_same list_all_iff dest!: same_keeps bspec)

end
