(* ===== verification/UndisturbedRun.thy ===== *)
theory UndisturbedRun
  imports Interleaving Kept
begin

text \<open>
  A reconcile during which its own name is not queued makes the same run with the undisturbed
  client: every call of it behaves alike in the two, and the owned Pods that one of them does
  not list are those the collector skips.
\<close>

section \<open>While nothing is written\<close>

text \<open>
  Up to its first write a reconcile of a name that is not queued leaves the cached SecretUsage as
  fresh as it was.
\<close>

lemma fresh_reading:
  assumes "keeps L r nn E (\<lambda>s. nn \<in> queue s)" and F: "stays_fresh E queue fresh"
  shows "simulation L r nn (\<lambda>s t. s = t \<and> (fresh s nn \<or> nn \<in> queue s)) (=) E E"
proof -
  note K = keeps_simulation[OF assms(1)]
  note kept = simulation.meta[OF K] simulation.get[OF K] simulation.list_call[OF K] simulation.set_series[OF K]
  show ?thesis
  proof
    show "same (\<lambda>s t. s = t \<and> (fresh s nn \<or> nn \<in> queue s)) (GetMetadata E (secretGVK L) nn s) (GetMetadata E (secretGVK L) nn t)"
      if "s = t \<and> (fresh s nn \<or> nn \<in> queue s)" for s t
      using that kept(1)[of s t] F unfolding stays_fresh_def same_def by metis
    show "same (\<lambda>s t. s = t \<and> (fresh s nn \<or> nn \<in> queue s)) (GetSecretUsage E nn s) (GetSecretUsage E nn t)"
      if "s = t \<and> (fresh s nn \<or> nn \<in> queue s)" for s t
      using that kept(2)[of s t] F unfolding stays_fresh_def same_def by metis
    show "same (\<lambda>s t. s = t \<and> (fresh s nn \<or> nn \<in> queue s))
        (ListObjects E lk (indexedSecretListOptions (nn_Namespace nn) (nn_Name nn)) s)
        (ListObjects E lk (indexedSecretListOptions (nn_Namespace nn) (nn_Name nn)) t)"
      if "indexed_list (Rules r) lk" "s = t \<and> (fresh s nn \<or> nn \<in> queue s)" for lk s t
      using that kept(3)[of lk s t] F unfolding stays_fresh_def same_def by metis
    show "SetLabelValues E v [nn_Namespace nn, nn_Name nn] x s = SetLabelValues E v [nn_Namespace nn, nn_Name nn] x t \<and>
        (fresh (SetLabelValues E v [nn_Namespace nn, nn_Name nn] x s) nn \<or>
         nn \<in> queue (SetLabelValues E v [nn_Namespace nn, nn_Name nn] x s))"
      if "s = t \<and> (fresh s nn \<or> nn \<in> queue s)" for s t v x
      using that kept(4)[of s t v x] F unfolding stays_fresh_def by metis
    show "usage_key su = nn" if "fst (GetSecretUsage E nn s) = Inr su" for s su
      by (rule simulation.get_key[OF K that])
    show "usage_key su' = nn" if "usage_key su = nn" "fst (Create E su s) = Inr su'" for s su su'
      by (rule simulation.create_key[OF K that])
    show "usage_key su' = nn" if "usage_key su = nn" "fst (Patch E (set_labels ls su) su s) = Inr su'" for s ls su su'
      by (rule simulation.patch_key[OF K that])
  qed (simp_all add: same_def)
qed

section \<open>A run that is not interrupted\<close>

lemma undisturbed_calls:
  "nn \<notin> queue (snd (GetMetadata E gvk nn s)) \<Longrightarrow> GetMetadata (undisturbed r queue fresh nn E) gvk nn s = GetMetadata E gvk nn s"
  "nn \<notin> queue (snd (GetSecretUsage E nn s)) \<Longrightarrow> fresh s nn \<Longrightarrow> GetSecretUsage (undisturbed r queue fresh nn E) nn s = GetSecretUsage E nn s"
  "nn \<notin> queue (snd (ListObjects E lk opts s)) \<Longrightarrow> opts = indexedSecretListOptions (nn_Namespace nn) (nn_Name nn) \<Longrightarrow>
     ListObjects (undisturbed r queue fresh nn E) lk opts s =
       apfst (map_sum id (if lk = PodList then filter (\<lambda>obj. \<not> skipPod r obj) else id)) (ListObjects E lk opts s)"
  "nn \<notin> queue (snd (Create E su s)) \<Longrightarrow> usage_key su = nn \<Longrightarrow> Create (undisturbed r queue fresh nn E) su s = Create E su s"
  "nn \<notin> queue (snd (Patch E su base s)) \<Longrightarrow> usage_key base = nn \<Longrightarrow>
     Patch (undisturbed r queue fresh nn E) su base s = Patch E su base s"
  "nn \<notin> queue (snd (StatusUpdate E su s)) \<Longrightarrow> usage_key su = nn \<Longrightarrow>
     StatusUpdate (undisturbed r queue fresh nn E) su s = StatusUpdate E su s"
  "nn \<notin> queue (snd (StatusPatch E su base s)) \<Longrightarrow> usage_key base = nn \<Longrightarrow>
     StatusPatch (undisturbed r queue fresh nn E) su base s = StatusPatch E su base s"
  "nn \<notin> queue (snd (Delete E su s)) \<Longrightarrow> usage_key su = nn \<Longrightarrow> Delete (undisturbed r queue fresh nn E) su s = Delete E su s"
  by (auto simp: undisturbed_def guard_def apfst_def map_prod_def split: prod.split)

lemma undisturbed_list:
  assumes "ListObjects E lk (indexedSecretListOptions (nn_Namespace nn) (nn_Name nn)) s = (res, s')" "nn \<notin> queue s'"
  shows "ListObjects (undisturbed r queue fresh nn E) lk (indexedSecretListOptions (nn_Namespace nn) (nn_Name nn)) s =
    (map_sum id (if lk = PodList then filter (\<lambda>obj. \<not> skipPod r obj) else id) res, s')"
  using undisturbed_calls(3)[of nn queue E lk "indexedSecretListOptions (nn_Namespace nn) (nn_Name nn)" s r] assms
  by simp

lemma undisturbed_secretExists:
  assumes "nn \<notin> queue (snd (secretExists L E nn s))"
  shows "secretExists L (undisturbed r queue fresh nn E) nn s = secretExists L E nn s"
proof -
  obtain res s' where call: "GetMetadata E (secretGVK L) nn s = (res, s')" by force
  have "snd (secretExists L E nn s) = s'" by (simp add: secretExists_def call split: sum.split)
  then have "GetMetadata (undisturbed r queue fresh nn E) (secretGVK L) nn s = (res, s')"
    using undisturbed_calls(1)[of nn queue E "secretGVK L" s r] assms call by simp
  then show ?thesis by (simp add: secretExists_def call)
qed

lemma fold_skip: "(\<And>x a. x \<in> set xs \<Longrightarrow> P x \<Longrightarrow> f x a = a) \<Longrightarrow> fold f (filter (\<lambda>x. \<not> P x) xs) a = fold f xs a"
  by (induction xs arbitrary: a) simp_all

lemma undisturbed_collectPodUsages:
  assumes "nn \<notin> queue (snd (collectPodUsages L r E (nn_Namespace nn) (nn_Name nn) s))"
  shows "collectPodUsages L r (undisturbed r queue fresh nn E) (nn_Namespace nn) (nn_Name nn) s =
    collectPodUsages L r E (nn_Namespace nn) (nn_Name nn) s"
proof -
  obtain res s' where call: "ListObjects E PodList (indexedSecretListOptions (nn_Namespace nn) (nn_Name nn)) s = (res, s')"
    by force
  have "snd (collectPodUsages L r E (nn_Namespace nn) (nn_Name nn) s) = s'"
    by (simp add: collectPodUsages_def call split: sum.split)
  then have free: "nn \<notin> queue s'" using assms by simp
  show ?thesis
    using undisturbed_list[where queue = queue and fresh = fresh and r = r, OF call free]
    by (cases res) (simp_all add: collectPodUsages_def call fold_skip)
qed

lemma undisturbed_collect_list:
  assumes "nn \<notin> queue (snd (collect_list lk L E (nn_Namespace nn) (nn_Name nn) s))" "lk \<noteq> PodList"
  shows "collect_list lk L (undisturbed r queue fresh nn E) (nn_Namespace nn) (nn_Name nn) s =
    collect_list lk L E (nn_Namespace nn) (nn_Name nn) s"
proof -
  obtain res s' where call: "ListObjects E lk (indexedSecretListOptions (nn_Namespace nn) (nn_Name nn)) s = (res, s')"
    by force
  have "snd (collect_list lk L E (nn_Namespace nn) (nn_Name nn) s) = s'"
    by (simp add: collect_list_def call split: sum.split)
  then have free: "nn \<notin> queue s'" using assms by simp
  show ?thesis
    using undisturbed_list[where queue = queue and fresh = fresh and r = r, OF call free] assms(2)
    by (cases res) (simp_all add: collect_list_def call)
qed

lemma undisturbed_collect_rules:
  assumes K: "keeps L r nn E (\<lambda>s. nn \<in> queue s)" and "set rs \<subseteq> set (Rules r)"
    and "nn \<notin> queue (snd (collect_rules L E (nn_Namespace nn) (nn_Name nn) rs acc s))"
  shows "collect_rules L (undisturbed r queue fresh nn E) (nn_Namespace nn) (nn_Name nn) rs acc s =
    collect_rules L E (nn_Namespace nn) (nn_Name nn) rs acc s"
  using assms(2,3)
proof (induction rs arbitrary: acc s)
  case (Cons rule rs)
  obtain res s' where call: "ListObjects E (UnstructuredList (GVK rule))
      (indexedSecretListOptions (nn_Namespace nn) (nn_Name nn)) s = (res, s')" by force
  have later: "nn \<in> queue s' \<Longrightarrow> nn \<in> queue (snd (collect_rules L E (nn_Namespace nn) (nn_Name nn) rs acc' s'))" for acc'
    using keeps_collect_rules[OF K] Cons.prems(1) by simp
  have free: "nn \<notin> queue s'"
  proof
    assume "nn \<in> queue s'"
    then show False using later Cons.prems(2) by (cases res) (simp_all add: call Let_def)
  qed
  show ?case
    using undisturbed_list[where queue = queue and fresh = fresh and r = r, OF call free] Cons.IH Cons.prems by (cases res) (simp_all add: call Let_def)
qed simp

lemma undisturbed_collect_loop:
  assumes "list_all2 (\<lambda>c c'. \<forall>s. nn \<notin> queue (snd (c ns n s)) \<longrightarrow> c' ns n s = c ns n s) cs cs'"
    and "list_all (\<lambda>c. \<forall>s. nn \<in> queue s \<longrightarrow> nn \<in> queue (snd (c ns n s))) cs"
    and "nn \<notin> queue (snd (collect_loop cs ns n acc s))"
  shows "collect_loop cs' ns n acc s = collect_loop cs ns n acc s"
  using assms
proof (induction cs cs' arbitrary: acc s rule: list_all2_induct)
  case (Cons c cs c' cs')
  obtain res s' where call: "c ns n s = (res, s')" by force
  have later: "nn \<in> queue s' \<Longrightarrow> nn \<in> queue (snd (collect_loop cs ns n acc' s'))" for acc'
    using keeps_collect_loop[of "\<lambda>s. nn \<in> queue s" ns n cs] Cons.prems(1) by simp
  have "nn \<notin> queue s'"
  proof
    assume "nn \<in> queue s'"
    then show False using later Cons.prems(2) by (cases res) (simp_all add: call)
  qed
  then have "c' ns n s = (res, s')" using Cons.hyps(1) call by (metis snd_conv)
  then show ?case using Cons.IH Cons.prems by (cases res) (simp_all add: call)
qed simp

lemma snd_collectUsages: "snd (collectUsages L r E ns n s) = snd (collect_loop (collectors L r E) ns n (Slice []) s)"
proof -
  obtain res s' where "collect_loop (collectors L r E) ns n (Slice []) s = (res, s')" by force
  then show ?thesis by (cases res) (simp_all add: collectUsages_def)
qed

lemma undisturbed_collectUsages:
  assumes K: "keeps L r nn E (\<lambda>s. nn \<in> queue s)"
    and "nn \<notin> queue (snd (collectUsages L r E (nn_Namespace nn) (nn_Name nn) s))"
  shows "collectUsages L r (undisturbed r queue fresh nn E) (nn_Namespace nn) (nn_Name nn) s =
    collectUsages L r E (nn_Namespace nn) (nn_Name nn) s"
proof -
  let ?ns = "nn_Namespace nn" and ?n = "nn_Name nn" and ?E = "undisturbed r queue fresh nn E"
  have custom: "nn \<notin> queue (snd (collectCustomResourceUsages L r E ?ns ?n s)) \<Longrightarrow>
      collectCustomResourceUsages L r ?E ?ns ?n s = collectCustomResourceUsages L r E ?ns ?n s" for s
    using undisturbed_collect_rules[OF K subset_refl] by (cases "Rules r = []") (simp_all add: collectCustomResourceUsages_def)
  have "list_all2 (\<lambda>c c'. \<forall>s. nn \<notin> queue (snd (c ?ns ?n s)) \<longrightarrow> c' ?ns ?n s = c ?ns ?n s)
      (collectors L r E) (collectors L r ?E)"
    by (simp add: collectors_def undisturbed_collectPodUsages undisturbed_collect_list custom
        collectDeploymentUsages_def collectStatefulSetUsages_def
        collectDaemonSetUsages_def collectJobUsages_def collectCronJobUsages_def collectReplicaSetUsages_def
        collectReplicationControllerUsages_def collectServiceAccountUsages_def collectIngressUsages_def)
  moreover have "nn \<notin> queue (snd (collect_loop (collectors L r E) ?ns ?n (Slice []) s))"
    using assms(2) by (simp add: snd_collectUsages)
  ultimately have "collect_loop (collectors L r ?E) ?ns ?n (Slice []) s = collect_loop (collectors L r E) ?ns ?n (Slice []) s"
    using undisturbed_collect_loop[where queue = queue, OF _ keeps_collectors[OF K]] by blast
  then show ?thesis by (simp add: collectUsages_def)
qed

lemma undisturbed_delete_if_present:
  assumes K: "keeps L r nn E (\<lambda>s. nn \<in> queue s)" and fresh: "fresh s nn"
    and out: "nn \<notin> queue (snd (deleteSecretUsageIfPresent E nn s))"
  shows "deleteSecretUsageIfPresent (undisturbed r queue fresh nn E) nn s = deleteSecretUsageIfPresent E nn s"
proof -
  obtain got s1 where got: "GetSecretUsage E nn s = (got, s1)" by force
  show ?thesis
  proof (cases got)
    case (Inl e)
    then have "nn \<notin> queue s1" using out by (simp add: deleteSecretUsageIfPresent_def got)
    then show ?thesis
      using undisturbed_calls(2)[of nn queue E s fresh r] fresh got by (simp add: deleteSecretUsageIfPresent_def Inl)
  next
    case (Inr su)
    have key: "usage_key su = nn" using keeps_get_key[OF K, of s su] got Inr by simp
    obtain res s2 where del: "Delete E su s1 = (res, s2)" by force
    have s2: "nn \<notin> queue s2"
      using out by (auto simp: deleteSecretUsageIfPresent_def got Inr del split: sum.splits)
    moreover have s1: "nn \<notin> queue s1" using keeps_delete_call[OF K key, of s1] del s2 by auto
    ultimately show ?thesis
      using undisturbed_calls(2)[of nn queue E s fresh r] fresh undisturbed_calls(8)[of nn queue E su s1 r fresh] got del key
      by (simp add: deleteSecretUsageIfPresent_def Inr)
  qed
qed

lemma undisturbed_status_call:
  assumes "nn \<notin> queue (snd (return_error (StatusPatch E (su\<lparr>Status := st\<rparr>) su s)))" "usage_key su = nn"
  shows "StatusPatch (undisturbed r queue fresh nn E) (su\<lparr>Status := st\<rparr>) su s = StatusPatch E (su\<lparr>Status := st\<rparr>) su s"
proof -
  have "snd (return_error (StatusPatch E (su\<lparr>Status := st\<rparr>) su s)) = snd (StatusPatch E (su\<lparr>Status := st\<rparr>) su s)"
    by (simp add: return_error_def split: prod.split sum.split)
  then show ?thesis using assms undisturbed_calls(7) by metis
qed

lemma undisturbed_update_usage:
  assumes K: "keeps L r nn E (\<lambda>s. nn \<in> queue s)" and key: "usage_key su = nn"
    and out: "nn \<notin> queue (snd (update_usage E su ls st s))"
  shows "update_usage (undisturbed r queue fresh nn E) su ls st s = update_usage E su ls st s"
proof (cases "Labels (ObjectMeta su) = ls")
  case True
  show ?thesis
  proof (cases "Status su = st")
    case False
    then have "nn \<notin> queue (snd (return_error (StatusPatch E (su\<lparr>Status := st\<rparr>) su s)))"
      using out True by (simp add: update_usage_def)
    note undisturbed_status_call[where queue = queue and fresh = fresh and r = r, OF this key]
    then show ?thesis using True False by (simp add: update_usage_def)
  qed (use True in \<open>simp add: update_usage_def\<close>)
next
  case False
  obtain res s1 where call: "Patch E (set_labels ls su) su s = (res, s1)" by force
  have first: "nn \<notin> queue s1 \<Longrightarrow> Patch (undisturbed r queue fresh nn E) (set_labels ls su) su s = (res, s1)"
    using undisturbed_calls(5)[of nn queue E "set_labels ls su" su s r] call key by simp
  show ?thesis
  proof (cases res)
    case (Inl e)
    then have "nn \<notin> queue s1" using out False call by (simp add: update_usage_def set_labels_def)
    from first[OF this] show ?thesis using False call Inl by (simp add: update_usage_def set_labels_def)
  next
    case (Inr su')
    have key': "usage_key su' = nn" using keeps_patch_key[OF K key, of ls s su'] call Inr by simp
    show ?thesis
    proof (cases "Status su' = st")
      case True
      then have "nn \<notin> queue s1" using out False call Inr by (simp add: update_usage_def set_labels_def)
      from first[OF this] show ?thesis using False call Inr True by (simp add: update_usage_def set_labels_def)
    next
      case upd: False
      have s2: "nn \<notin> queue (snd (return_error (StatusPatch E (su'\<lparr>Status := st\<rparr>) su' s1)))"
        using out False call Inr upd by (simp add: update_usage_def set_labels_def)
      have "nn \<notin> queue s1" using keeps_status_patch[OF K _ key'] s2 by blast
      from first[OF this] undisturbed_status_call[where queue = queue and fresh = fresh and r = r, OF s2 key'] show ?thesis
        using False call Inr upd by (simp add: update_usage_def set_labels_def)
    qed
  qed
qed

lemma undisturbed_create_usage:
  assumes K: "keeps L r nn E (\<lambda>s. nn \<in> queue s)" and out: "nn \<notin> queue (snd (create_usage E nn ls st s))"
  shows "create_usage (undisturbed r queue fresh nn E) nn ls st s = create_usage E nn ls st s"
proof -
  define su where "su = \<lparr>ObjectMeta = zero_meta\<lparr>Namespace := nn_Namespace nn, Name := nn_Name nn, Labels := ls\<rparr>,
     Status = zero_status\<rparr>"
  note unfold = create_usage_def su_def[symmetric]
  have key: "usage_key su = nn" by (simp add: su_def usage_key_def)
  obtain res s1 where call: "Create E su s = (res, s1)" by force
  have first: "nn \<notin> queue s1 \<Longrightarrow> Create (undisturbed r queue fresh nn E) su s = (res, s1)"
    using undisturbed_calls(4)[of nn queue E su s r] call key by simp
  show ?thesis
  proof (cases res)
    case (Inl e)
    then have "nn \<notin> queue s1" using out call by (simp add: unfold)
    from first[OF this] show ?thesis using call Inl by (simp add: unfold)
  next
    case (Inr su')
    have key': "usage_key (su'\<lparr>Status := st\<rparr>) = nn"
    proof -
      have "usage_key su' = nn" using keeps_create_key[OF K key, of s su'] call Inr by simp
      then show ?thesis by (simp add: usage_key_def)
    qed
    obtain res2 s2 where upd: "StatusUpdate E (su'\<lparr>Status := st\<rparr>) s1 = (res2, s2)" by force
    have s2: "nn \<notin> queue s2" using out call Inr upd by (simp add: unfold return_error_def split: sum.splits)
    have "nn \<notin> queue s1" using keeps_status_update[OF K key', of s1] upd s2 by auto
    from first[OF this] show ?thesis
      using undisturbed_calls(6)[of nn queue E "su'\<lparr>Status := st\<rparr>" s1 r] s2 upd call Inr key' by (simp add: unfold)
  qed
qed

lemma undisturbed_write_usage:
  assumes K: "keeps L r nn E (\<lambda>s. nn \<in> queue s)" and fresh: "fresh s nn"
    and out: "nn \<notin> queue (snd (write_usage E nn ls st s))"
  shows "write_usage (undisturbed r queue fresh nn E) nn ls st s = write_usage E nn ls st s"
proof -
  obtain got s1 where got: "GetSecretUsage E nn s = (got, s1)" by force
  have first: "nn \<notin> queue s1 \<Longrightarrow> GetSecretUsage (undisturbed r queue fresh nn E) nn s = (got, s1)"
    using undisturbed_calls(2)[of nn queue E s fresh r] fresh got by simp
  show ?thesis
  proof (cases got)
    case (Inl e)
    show ?thesis
    proof (cases "IsNotFound e")
      case True
      then have s2: "nn \<notin> queue (snd (create_usage E nn ls st s1))" using out by (simp add: write_usage_def got Inl)
      then have "nn \<notin> queue s1" using keeps_create_usage[OF K] by blast
      from first[OF this] undisturbed_create_usage[where queue = queue and fresh = fresh, OF K s2] show ?thesis by (simp add: write_usage_def got Inl True)
    next
      case False
      then have "nn \<notin> queue s1" using out by (simp add: write_usage_def got Inl)
      from first[OF this] show ?thesis by (simp add: write_usage_def got Inl False)
    qed
  next
    case (Inr su)
    have key: "usage_key su = nn" using keeps_get_key[OF K, of s su] got Inr by simp
    have s2: "nn \<notin> queue (snd (update_usage E su ls st s1))" using out by (simp add: write_usage_def got Inr)
    then have "nn \<notin> queue s1" using keeps_update_usage[OF K _ key] by blast
    from first[OF this] undisturbed_update_usage[where queue = queue and fresh = fresh, OF K key s2] show ?thesis by (simp add: write_usage_def got Inr)
  qed
qed

lemma undisturbed_run:
  assumes K: "keeps L r nn E (\<lambda>s. nn \<in> queue s)" and F: "stays_fresh E queue fresh" and fresh: "fresh s nn"
    and out: "nn \<notin> queue (snd (Reconcile L r E nn s))"
  shows "Reconcile L r (undisturbed r queue fresh nn E) nn s = Reconcile L r E nn s"
proof -
  let ?E = "undisturbed r queue fresh nn E"
  note S = fresh_reading[OF K F]
  obtain ex s1 where ex: "secretExists L E nn s = (ex, s1)" by force
  have ex': "secretExists L ?E nn s = (ex, s1)" if "nn \<notin> queue s1"
    using undisturbed_secretExists[where queue = queue and fresh = fresh and r = r and E = E] ex that by (metis snd_conv)
  show ?thesis
  proof (cases ex)
    case (Inl e)
    then have "nn \<notin> queue s1" using out by (simp add: Reconcile_def ex)
    from ex'[OF this] show ?thesis by (simp add: Reconcile_def ex Inl)
  next
    case exists: (Inr b)
    obtain col s2 where col: "collectUsages L r E (nn_Namespace nn) (nn_Name nn) s1 = (col, s2)" by force
    have fresh2: "fresh s2 nn" if "nn \<notin> queue s2"
    proof -
      have "same (\<lambda>s t. s = t \<and> (fresh s nn \<or> nn \<in> queue s)) (secretExists L E nn s) (secretExists L E nn s)"
        by (rule simulation.sim_secretExists[OF S]) (simp add: fresh)
      then have "fresh s1 nn \<or> nn \<in> queue s1" by (simp add: same_def ex)
      then have "same (\<lambda>s t. s = t \<and> (fresh s nn \<or> nn \<in> queue s))
          (collectUsages L r E (nn_Namespace nn) (nn_Name nn) s1) (collectUsages L r E (nn_Namespace nn) (nn_Name nn) s1)"
        by (intro simulation.sim_collectUsages[OF S]) simp
      then show ?thesis using that by (simp add: same_def col)
    qed
    have upto: "secretExists L ?E nn s = (ex, s1) \<and> collectUsages L r ?E (nn_Namespace nn) (nn_Name nn) s1 = (col, s2)"
      if s2: "nn \<notin> queue s2"
    proof -
      have "nn \<notin> queue s1" using keeps_collectUsages[OF K, of s1] col s2 by auto
      moreover have "collectUsages L r ?E (nn_Namespace nn) (nn_Name nn) s1 = (col, s2)"
        using undisturbed_collectUsages[where queue = queue and fresh = fresh, OF K, of s1] col s2 by simp
      ultimately show ?thesis using ex' by blast
    qed
    show ?thesis
    proof (cases col)
      case (Inl e)
      then have "nn \<notin> queue s2" using out by (simp add: Reconcile_def ex exists col)
      from upto[OF this] show ?thesis by (simp add: Reconcile_def ex exists col Inl)
    next
      case (Inr us)
      obtain usages tot trunc where tr: "truncateUsages r us = (usages, tot, trunc)" by (metis prod_cases3)
      show ?thesis
      proof (cases "tot = 0 \<and> \<not> (b \<and> TrackUnusedSecrets r)")
        case True
        obtain res s3 where del: "deleteSecretUsageIfPresent E nn s2 = (res, s3)" by force
        have run: "Reconcile L r F nn s = (case deleteSecretUsageIfPresent F nn s2 of
            (Some err, w) \<Rightarrow> (Some err, w)
          | (None, w) \<Rightarrow> (None, clearSecretMetrics r F (nn_Namespace nn) (nn_Name nn) w))"
          if "secretExists L F nn s = (ex, s1)" "collectUsages L r F (nn_Namespace nn) (nn_Name nn) s1 = (col, s2)" for F
          unfolding Reconcile_def that exists Inr tr Let_def prod.case sum.case if_P[OF True] ..
        have clear: "clearSecretMetrics r ?E = clearSecretMetrics r E"
          by (simp add: clearSecretMetrics_def undisturbed_series fun_eq_iff)
        have "nn \<notin> queue s3"
        proof (cases res)
          case None
          then show ?thesis using out keeps_metrics(2)[OF K, of s3 r] unfolding run[OF ex col] del by auto
        next
          case (Some e)
          then show ?thesis using out unfolding run[OF ex col] del by simp
        qed
        then have s3: "nn \<notin> queue (snd (deleteSecretUsageIfPresent E nn s2))" by (simp add: del)
        then have "nn \<notin> queue s2" using keeps_delete[OF K] by blast
        note u = upto[OF this, THEN conjunct1] upto[OF this, THEN conjunct2] and f = fresh2[OF this]
        show ?thesis
          unfolding run[OF ex col] run[OF u] clear undisturbed_delete_if_present[where queue = queue and fresh = fresh, OF K f s3] ..
      next
        case False
        have run: "\<exists>ls st. \<forall>F. secretExists L F nn s = (ex, s1) \<longrightarrow>
            collectUsages L r F (nn_Namespace nn) (nn_Name nn) s1 = (col, s2) \<longrightarrow>
            Reconcile L r F nn s = write_usage F nn ls st
              (recordSecretMetrics r F (nn_Namespace nn) (nn_Name nn) b tot trunc s2)"
          unfolding Reconcile_def exists Inr using False
          by (intro exI allI impI) (simp only: tr Let_def prod.case sum.case if_False)
        then obtain ls st where run: "secretExists L F nn s = (ex, s1) \<Longrightarrow>
            collectUsages L r F (nn_Namespace nn) (nn_Name nn) s1 = (col, s2) \<Longrightarrow>
            Reconcile L r F nn s = write_usage F nn ls st
              (recordSecretMetrics r F (nn_Namespace nn) (nn_Name nn) b tot trunc s2)" for F by blast
        have rec: "recordSecretMetrics r ?E = recordSecretMetrics r E"
          by (simp add: recordSecretMetrics_def undisturbed_series fun_eq_iff)
        note w = out[unfolded run[OF ex col]]
        have "nn \<notin> queue s2" using keeps_write_usage[OF K] keeps_metrics(1)[OF K] w by blast
        note u = upto[OF this, THEN conjunct1] upto[OF this, THEN conjunct2] and f = fresh2[OF this]
        have "fresh (recordSecretMetrics r E (nn_Namespace nn) (nn_Name nn) b tot trunc s2) nn"
          using f F by (simp add: recordSecretMetrics_def stays_fresh_def)
        note f = this
        show ?thesis
          unfolding run[OF ex col] run[OF u] rec by (rule undisturbed_write_usage[where queue = queue and fresh = fresh, OF K f w])
      qed
    qed
  qed
qed

end
