(* ===== verification/CacheLag.thy ===== *)
theory CacheLag
  imports System Simulation
begin

text \<open>
  The one assumption on the client that a cached client does not meet: a read of a SecretUsage
  right after a write of the controller may still return the object from before. Here reads
  of SecretUsage objects come from a cache that catches up with the server later, and the
  handlers see the events then; all else is as in \<open>System\<close>. The handler of SecretUsage objects
  ignores updates, so the controller can end in a wrong state that nothing repairs.
\<close>

section \<open>A client with a cache\<close>

text \<open>The server is the example cluster, for any library and rules; the cache holds copies of its objects.\<close>

record lagged =
  l_world :: world
  l_cache :: "secretUsage list"

definition cache_world :: "lagged \<Rightarrow> world" where
  "cache_world s = (l_world s)\<lparr>w_usages := l_cache s\<rparr>"

definition server :: "lagged \<Rightarrow> cluster" where
  "server s = world_view (l_world s)"

definition cached :: "lagged \<Rightarrow> cluster" where
  "cached s = world_view (cache_world s)"

definition at_cache :: "(world, 'a) call \<Rightarrow> (lagged, 'a) call" where
  "at_cache call s = (fst (call (cache_world s)), s)"

definition at_server :: "(world, 'a) call \<Rightarrow> (lagged, 'a) call" where
  "at_server call s = (let (res, w) = call (l_world s) in (res, s\<lparr>l_world := w\<rparr>))"

definition lag_env :: "'jp lib \<Rightarrow> 'jp compiledRule list \<Rightarrow> lagged env" where
  "lag_env L rs = (let E = world_env L rs in
     \<lparr>GetMetadata = (\<lambda>gvk nn. at_cache (GetMetadata E gvk nn)),
      GetSecretUsage = (\<lambda>nn. at_cache (GetSecretUsage E nn)),
      ListObjects = (\<lambda>lk opts. at_cache (ListObjects E lk opts)),
      ListSecretUsages = (\<lambda>opts. at_cache (ListSecretUsages E opts)),
      Create = (\<lambda>su. at_server (Create E su)),
      Patch = (\<lambda>su base. at_server (Patch E su base)),
      StatusUpdate = (\<lambda>su. at_server (StatusUpdate E su)),
      StatusPatch = (\<lambda>su base. at_server (StatusPatch E su base)),
      Delete = (\<lambda>su. at_server (Delete E su)),
      SetLabelValues = (\<lambda>v ls x s. s\<lparr>l_world := SetLabelValues E v ls x (l_world s)\<rparr>),
      DeleteLabelValues = (\<lambda>v ls s. s\<lparr>l_world := DeleteLabelValues E v ls (l_world s)\<rparr>),
      SetGauge = (\<lambda>g x s. s\<lparr>l_world := SetGauge E g x (l_world s)\<rparr>)\<rparr>)"

lemma lag_calls [simp]:
  "GetMetadata (lag_env L rs) gvk nn = at_cache (GetMetadata (world_env L rs) gvk nn)"
  "GetSecretUsage (lag_env L rs) nn = at_cache (GetSecretUsage (world_env L rs) nn)"
  "ListObjects (lag_env L rs) lk opts = at_cache (ListObjects (world_env L rs) lk opts)"
  "ListSecretUsages (lag_env L rs) opts = at_cache (ListSecretUsages (world_env L rs) opts)"
  "Create (lag_env L rs) su = at_server (Create (world_env L rs) su)"
  "Patch (lag_env L rs) su base = at_server (Patch (world_env L rs) su base)"
  "StatusUpdate (lag_env L rs) su = at_server (StatusUpdate (world_env L rs) su)"
  "StatusPatch (lag_env L rs) su base = at_server (StatusPatch (world_env L rs) su base)"
  "Delete (lag_env L rs) su = at_server (Delete (world_env L rs) su)"
  "SetLabelValues (lag_env L rs) v ls x s = s\<lparr>l_world := SetLabelValues (world_env L rs) v ls x (l_world s)\<rparr>"
  "DeleteLabelValues (lag_env L rs) v ls s = s\<lparr>l_world := DeleteLabelValues (world_env L rs) v ls (l_world s)\<rparr>"
  by (simp_all add: lag_env_def Let_def)

section \<open>Steps\<close>

text \<open>When the cache catches up, every object that changed at the server is an event.\<close>

inductive lag_step ::
    "'jp lib \<Rightarrow> 'jp reconciler \<Rightarrow> lagged \<times> namespacedName set \<Rightarrow> lagged \<times> namespacedName set \<Rightarrow> bool"
  for L :: "'jp lib" and r :: "'jp reconciler" where
  lag_others: "others L r (server s) (server s') adds \<Longrightarrow> w_usages (l_world s') = w_usages (l_world s) \<Longrightarrow>
     l_cache s' = l_cache s \<Longrightarrow> lag_step L r (s, q) (s', q \<union> adds)"
| lag_reconcile: "nn \<in> q \<Longrightarrow> Reconcile L r (lag_env L (Rules r)) nn s = (res, s') \<Longrightarrow>
     lag_step L r (s, q) (s', (q - {nn}) \<union> (if res = None then {} else {nn}))"
| catch_up: "lag_step L r (s, q) (s\<lparr>l_cache := w_usages (l_world s)\<rparr>,
     q \<union> (\<Union>k. usage_adds (SecretUsages (cached s) k) (SecretUsages (server s) k)))"

section \<open>Runs of the client with a cache\<close>

lemma cache_world_simps [simp]:
  "w_cluster (cache_world s) = w_cluster (l_world s)" "w_usages (cache_world s) = l_cache s"
  by (simp_all add: cache_world_def)

lemma world_reads_only:
  "snd (GetMetadata (world_env L rs) gvk nn w) = w" "snd (GetSecretUsage (world_env L rs) nn w) = w"
  "snd (ListObjects (world_env L rs) lk (indexedSecretListOptions ns n) w) = w"
  "snd (ListSecretUsages (world_env L rs) opts w) = w"
  by (simp_all add: world_env_def indexedSecretListOptions_def)

lemma world_get_key: "fst (GetSecretUsage (world_env L rs) nn w) = Inr su \<Longrightarrow> usage_key su = nn"
  using stored_key by (auto simp: world_env_def split: option.splits)

lemma world_series:
  "cache_world (s\<lparr>l_world := SetLabelValues (world_env L rs) v ls x (l_world s)\<rparr>) = SetLabelValues (world_env L rs) v ls x (cache_world s)"
  "cache_world (s\<lparr>l_world := DeleteLabelValues (world_env L rs) v ls (l_world s)\<rparr>) = DeleteLabelValues (world_env L rs) v ls (cache_world s)"
  "w_usages (SetLabelValues (world_env L rs) v ls x w) = w_usages w"
  "w_usages (DeleteLabelValues (world_env L rs) v ls w) = w_usages w"
  by (simp_all add: cache_world_def world_env_def)

lemma world_create_key: "fst (Create (world_env L rs) su w) = Inr su' \<Longrightarrow> usage_key su' = usage_key su"
  by (auto simp: world_env_def Let_def) (simp add: usage_key_def wire_usage_def)

lemma world_patch_key: "fst (Patch (world_env L rs) su base w) = Inr su' \<Longrightarrow> usage_key su' = usage_key su"
  by (auto simp: world_env_def Let_def)

text \<open>While the cache is as the server, a reconcile is that of the server's own client.\<close>

interpretation in_sync: simulation L r nn
  "\<lambda>s w. l_world s = w \<and> cache_world s = w \<and> l_cache s = ch" "\<lambda>s w. l_world s = w \<and> l_cache s = ch"
  "lag_env L (Rules r)" "world_env L (Rules r)"
proof
  show "usage_key su = nn" if "fst (GetSecretUsage (lag_env L (Rules r)) nn s) = Inr su" for s su
    using that world_get_key by (simp add: at_cache_def)
  show "usage_key su' = nn" if "usage_key su = nn" "fst (Create (lag_env L (Rules r)) su s) = Inr su'" for s su su'
    using that world_create_key[of L "Rules r" su "l_world s" su'] by (auto simp: at_server_def split: prod.splits)
  show "usage_key su' = nn" if "usage_key su = nn" "fst (Patch (lag_env L (Rules r)) (set_labels ls su) su s) = Inr su'" for s ls su su'
    using that world_patch_key[of L "Rules r" "set_labels ls su" su "l_world s" su'] by (auto simp: at_server_def split: prod.splits)
qed (auto simp: at_cache_def at_server_def same_def world_reads_only world_series split: prod.split)

text \<open>A reconcile that finds the cached object up to date, whatever the server holds, writes nothing.\<close>

definition refuse :: "'s env" where
  "refuse = \<lparr>GetMetadata = \<lambda>_ _ s. (Inl conflict, s), GetSecretUsage = \<lambda>_ s. (Inl conflict, s),
     ListObjects = \<lambda>_ _ s. (Inl conflict, s), ListSecretUsages = \<lambda>_ s. (Inl conflict, s),
     Create = \<lambda>_ s. (Inl conflict, s), Patch = \<lambda>_ _ s. (Inl conflict, s), StatusUpdate = \<lambda>_ s. (Inl conflict, s),
     StatusPatch = \<lambda>_ _ s. (Inl conflict, s), Delete = \<lambda>_ s. (Inl conflict, s),
     SetLabelValues = \<lambda>_ _ _ s. s, DeleteLabelValues = \<lambda>_ _ s. s, SetGauge = \<lambda>_ _ s. s\<rparr>"

lemma refuse_writes [simp]:
  "Create (with_writes E refuse) su s = (Inl conflict, s)" "Patch (with_writes E refuse) su base s = (Inl conflict, s)"
  "StatusUpdate (with_writes E refuse) su s = (Inl conflict, s)" "StatusPatch (with_writes E refuse) su base s = (Inl conflict, s)"
  "Delete (with_writes E refuse) su s = (Inl conflict, s)"
  by (simp_all add: with_writes_def refuse_def)

interpretation behind: simulation L r nn
  "\<lambda>s w. cache_world s = w \<and> l_cache s = ch \<and> w_usages (l_world s) = us"
  "\<lambda>s w. cache_world s = w \<and> l_cache s = ch \<and> w_usages (l_world s) = us"
  "with_writes (lag_env L (Rules r)) refuse" "with_writes (world_env L (Rules r)) refuse"
proof
  show "usage_key su = nn" if "fst (GetSecretUsage (with_writes (lag_env L (Rules r)) refuse) nn s) = Inr su" for s su
    using that world_get_key by (simp add: at_cache_def)
qed (auto simp: at_cache_def same_def world_reads_only world_series)

lemma read_at_cache:
  "reads world_view (cache_world s) (call (cache_world s)) there missing \<Longrightarrow>
     reads (\<lambda>s. world_view (cache_world s)) s (at_cache call s) there missing"
  by (simp add: reads_def at_cache_def)

lemma lag_reads: "documented_reads L rs (lag_env L rs) cached"
proof -
  have c: "cached = (\<lambda>s. world_view (cache_world s))" by (simp add: fun_eq_iff cached_def)
  note W = world_reads[of L rs, unfolded documented_reads_def]
  show ?thesis
    unfolding documented_reads_def lag_calls c
    by (intro conjI allI impI) ((rule read_at_cache)?, use W in blast)+
qed

lemma lag_series: "documented_series (lag_env L rs) cached"
proof -
  have "documented_series (world_env L rs) world_view" using world_documented[of L rs] by (simp add: documented_def)
  then show ?thesis by (simp add: documented_series_def cached_def world_series)
qed

lemma run_in_sync:
  assumes "l_cache s = w_usages (l_world s)"
  obtains s' where "Reconcile L r (lag_env L (Rules r)) nn s = (None, s')" "l_cache s' = l_cache s"
    "Reconcile L r (world_env L (Rules r)) nn (l_world s) = (None, l_world s')"
proof -
  have "cache_world s = l_world s" by (simp add: cache_world_def assms)
  then have "same (\<lambda>s' w. l_world s' = w \<and> l_cache s' = l_cache s)
      (Reconcile L r (lag_env L (Rules r)) nn s) (Reconcile L r (world_env L (Rules r)) nn (l_world s))"
    by (intro in_sync.sim_Reconcile) simp
  moreover have "fst (Reconcile L r (world_env L (Rules r)) nn (l_world s)) = None"
    by (rule Reconcile_succeeds[OF world_documented world_available])
  ultimately show ?thesis using that by (elim sameE) auto
qed

lemma run_behind:
  assumes G: "distinct (map GVK (Rules r))"
    and up: "up_to_date L r (cached s) nn" "survives_encoding (desired L r (cached s) nn)"
  obtains s' where "Reconcile L r (lag_env L (Rules r)) nn s = (None, s')"
    "l_cache s' = l_cache s" "w_usages (l_world s') = w_usages (l_world s)"
    "Secrets (server s') = Secrets (server s)" "Objects (server s') = Objects (server s)"
proof -
  let ?E = "lag_env L (Rules r)" and ?F = "world_env L (Rules r)"
  have F: "documented L (Rules r) ?F world_view" by (rule world_documented)
  have e: "Reconcile L r (with_writes ?E refuse) nn s = Reconcile L r ?E nn s"
    using no_write_run[OF lag_reads lag_series G up] by blast
  have f: "Reconcile L r (with_writes ?F refuse) nn (cache_world s) = Reconcile L r ?F nn (cache_world s)"
    using no_write_run[of L r ?F world_view "cache_world s" nn refuse] F G up
    by (simp add: documented_def cached_def)
  have "same (\<lambda>s' w. cache_world s' = w \<and> l_cache s' = l_cache s \<and> w_usages (l_world s') = w_usages (l_world s))
      (Reconcile L r (with_writes ?E refuse) nn s) (Reconcile L r (with_writes ?F refuse) nn (cache_world s))"
    by (intro behind.sim_Reconcile) simp
  then obtain res s' where run: "Reconcile L r ?E nn s = (res, s')" "Reconcile L r ?F nn (cache_world s) = (res, cache_world s')"
    and s': "l_cache s' = l_cache s" "w_usages (l_world s') = w_usages (l_world s)"
    unfolding e f by (elim sameE) auto
  have "res = None" using Reconcile_succeeds[OF F world_available, of nn "cache_world s"] run(2) by simp
  moreover have "same_elsewhere nn (world_view (cache_world s)) (world_view (cache_world s'))"
    using Reconcile_run[OF F G run(2)] by blast
  ultimately show ?thesis using that run(1) s' by (simp add: same_elsewhere_def server_def)
qed

section \<open>A Secret that is replaced\<close>

definition set_secrets :: "namespacedName list \<Rightarrow> lagged \<Rightarrow> lagged" where
  "set_secrets ns s = s\<lparr>l_world := (l_world s)\<lparr>w_cluster := (w_cluster (l_world s))\<lparr>Secrets := ns\<rparr>\<rparr>\<rparr>"

lemma set_secrets_simps [simp]:
  "server (set_secrets ns s) = (server s)\<lparr>Secrets := ns\<rparr>" "cached (set_secrets ns s) = (cached s)\<lparr>Secrets := ns\<rparr>"
  "l_cache (set_secrets ns s) = l_cache s" "w_usages (l_world (set_secrets ns s)) = w_usages (l_world s)"
  by (simp_all add: server_def cached_def set_secrets_def cache_world_def world_view_def stored_def fun_eq_iff)

lemma lag_secret:
  assumes "ns = nn # Secrets (server s) \<or> ns = filter (\<lambda>x. x \<noteq> nn) (Secrets (server s))"
  shows "lag_step L r (s, {}) (set_secrets ns s, {nn})"
proof -
  have "others L r (server s) (server (set_secrets ns s)) (set (enqueueOwnKey (Some (secret_object L nn))))"
    using assms others.secret_created[of L r "server s" nn] others.secret_deleted[of L r "server s" nn] by auto
  from lag_step.lag_others[OF this, of "{}"] show ?thesis by (simp add: secret_object_key)
qed

lemma lag_reconciled: "Reconcile L r (lag_env L (Rules r)) nn s = (None, s') \<Longrightarrow> lag_step L r (s, {nn}) (s', {})"
  using lag_step.lag_reconcile[of nn "{nn}" L r s None s'] by simp

lemma desired_in_use:
  assumes "usages_in L r c nn \<noteq> []" "IsValidLabelValue L (nn_Name nn) = []"
  obtains ls st where "desired L r c nn = Some (ls, st)" "Exists st \<longleftrightarrow> nn \<in> set (Secrets c)"
    "survives_encoding (Some (ls, st))"
proof -
  have pos: "maxUsages r > 0" by (simp add: maxUsages_def DefaultMaxUsages_def)
  have "length (take (nat (maxUsages r)) (sort_Slice usageReferenceLess (usages_in L r c nn))) > 0"
    using assms(1) pos by simp
  then have us: "take (nat (maxUsages r)) (sort_Slice usageReferenceLess (usages_in L r c nn)) \<noteq> []" by blast
  have ls: "desiredLabelsFor L (nn_Name nn) b tot \<noteq> empty_gomap" for b tot
    using assms(2) by (auto simp: desiredLabelsFor_def Let_def lookup_empty dest: arg_cong[where f = "\<lambda>m. gomap_lookup m SecretNameLabel"])
  obtain ls st where want: "desired L r c nn = Some (ls, st)" using assms(1) by (simp add: desired_def Let_def)
  then show ?thesis
    using that assms(1) us ls by (auto simp: desired_def Let_def survives_encoding_def simp del: take_eq_Nil)
qed

text \<open>The two halves: the deletion reconciled in sync, and the creation reconciled behind.\<close>

lemma deletion_reconciled:
  assumes G: "distinct (map GVK (Rules r))" and sync: "l_cache s = w_usages (l_world s)"
    and used: "usages_in L r (server s) nn \<noteq> []" and valid: "IsValidLabelValue L (nn_Name nn) = []"
  obtains s2 su where "(lag_step L r)\<^sup>*\<^sup>* (s, {}) (s2, {})" "l_cache s2 = w_usages (l_world s)"
    "Objects (server s2) = Objects (server s)" "Secrets (server s2) = filter (\<lambda>x. x \<noteq> nn) (Secrets (server s))"
    "\<And>k. k \<noteq> nn \<Longrightarrow> SecretUsages (server s2) k = SecretUsages (server s) k"
    "SecretUsages (server s2) nn = Some su" "\<not> Exists (Status su)"
proof -
  define s1 where "s1 = set_secrets (filter (\<lambda>x. x \<noteq> nn) (Secrets (server s))) s"
  have step: "lag_step L r (s, {}) (s1, {nn})" unfolding s1_def by (rule lag_secret) simp
  obtain s2 where run: "Reconcile L r (lag_env L (Rules r)) nn s1 = (None, s2)" "l_cache s2 = l_cache s1"
    and w: "Reconcile L r (world_env L (Rules r)) nn (l_world s1) = (None, l_world s2)"
    by (rule run_in_sync[of s1]) (simp add: s1_def sync)
  have R: "same_elsewhere nn (server s1) (server s2)" "up_to_date L r (server s2) nn"
    using Reconcile_run[OF world_documented G w] by (simp_all add: server_def)
  have obj: "Objects (server s2) = Objects (server s)" "Secrets (server s2) = filter (\<lambda>x. x \<noteq> nn) (Secrets (server s))"
    using R(1) by (simp_all add: same_elsewhere_def s1_def)
  have used2: "usages_in L r (server s2) nn \<noteq> []" using used usages_in_cong[OF obj(1)] by metis
  obtain ls st where "desired L r (server s2) nn = Some (ls, st)" "\<not> Exists st"
    by (rule desired_in_use[OF used2 valid]) (use obj in auto)
  then obtain su where "SecretUsages (server s2) nn = Some su" "\<not> Exists (Status su)"
    using R(2) by (auto simp: up_to_date_def holds_def wire_status_def split: option.splits)
  moreover have "SecretUsages (server s2) k = SecretUsages (server s) k" if "k \<noteq> nn" for k
    using R(1) that by (simp add: same_elsewhere_def s1_def)
  moreover have "(lag_step L r)\<^sup>*\<^sup>* (s, {}) (s2, {})"
    using step lag_reconciled[OF run(1)] by (meson rtranclp.rtrancl_refl rtranclp.rtrancl_into_rtrancl)
  ultimately show ?thesis using that obj run(2) sync by (simp add: s1_def)
qed

lemma creation_reconciled:
  assumes G: "distinct (map GVK (Rules r))"
    and up: "up_to_date L r ((cached s)\<lparr>Secrets := nn # Secrets (server s)\<rparr>) nn"
    and kept: "survives_encoding (desired L r ((cached s)\<lparr>Secrets := nn # Secrets (server s)\<rparr>) nn)"
  obtains s4 where "(lag_step L r)\<^sup>*\<^sup>* (s, {}) (s4, {})" "l_cache s4 = l_cache s" "w_usages (l_world s4) = w_usages (l_world s)"
    "Secrets (server s4) = nn # Secrets (server s)" "Objects (server s4) = Objects (server s)"
proof -
  define s3 where "s3 = set_secrets (nn # Secrets (server s)) s"
  have step: "lag_step L r (s, {}) (s3, {nn})" unfolding s3_def by (rule lag_secret) simp
  obtain s4 where run: "Reconcile L r (lag_env L (Rules r)) nn s3 = (None, s4)"
    and s4: "l_cache s4 = l_cache s3" "w_usages (l_world s4) = w_usages (l_world s3)"
      "Secrets (server s4) = Secrets (server s3)" "Objects (server s4) = Objects (server s3)"
    by (rule run_behind[OF G, of L s3 nn]) (use up kept in \<open>simp_all add: s3_def\<close>)
  have "(lag_step L r)\<^sup>*\<^sup>* (s, {}) (s4, {})"
    using step lag_reconciled[OF run] by (meson rtranclp.rtrancl_refl rtranclp.rtrancl_into_rtrancl)
  then show ?thesis using that s4 by (simp add: s3_def)
qed

lemma usage_views:
  "SecretUsages (server s) = stored (l_world s)" "SecretUsages (cached s) = stored (cache_world s)"
  "Objects (cached s) = Objects (server s)" "Secrets (cached s) = Secrets (server s)"
  by (simp_all add: server_def cached_def)

lemma stored_usages: "w_usages w = w_usages w' \<Longrightarrow> stored w = stored w'"
  by (simp add: stored_def fun_eq_iff)

text \<open>
  C16: a Secret that is replaced can stay recorded as missing. Take a Secret in use that is recorded
  rightly, with a cache that is up to date and an empty queue. It is deleted, the deletion is
  reconciled, it is created again, and that is reconciled before the cache has the first
  reconcile's write; then the cache catches up. Now the queue is empty and the cache is as
  the server, the Secret exists, and its SecretUsage says that it does not.
\<close>
theorem replaced_secret_stays_missing:
  assumes "rules_agree r" and sync: "l_cache s = w_usages (l_world s)"
    and secret: "nn \<in> set (Secrets (server s))" and used: "usages_in L r (server s) nn \<noteq> []"
    and valid: "IsValidLabelValue L (nn_Name nn) = []" and up: "up_to_date L r (server s) nn"
  shows "\<exists>s'. (lag_step L r)\<^sup>*\<^sup>* (s, {}) (s', {}) \<and> l_cache s' = w_usages (l_world s') \<and>
    Objects (server s') = Objects (server s) \<and> set (Secrets (server s')) = set (Secrets (server s)) \<and>
    (\<exists>su. SecretUsages (server s') nn = Some su \<and> \<not> Exists (Status su)) \<and> \<not> up_to_date L r (server s') nn"
proof -
  have G: "distinct (map GVK (Rules r))" using assms(1) by (simp add: rules_agree_def)
  obtain s2 su where steps2: "(lag_step L r)\<^sup>*\<^sup>* (s, {}) (s2, {})" "l_cache s2 = w_usages (l_world s)"
    and s2: "Objects (server s2) = Objects (server s)" "Secrets (server s2) = filter (\<lambda>x. x \<noteq> nn) (Secrets (server s))"
      "\<And>k. k \<noteq> nn \<Longrightarrow> SecretUsages (server s2) k = SecretUsages (server s) k"
    and su: "SecretUsages (server s2) nn = Some su" "\<not> Exists (Status su)"
    using deletion_reconciled[OF G sync used valid] by blast
  obtain ls st where want: "desired L r (server s) nn = Some (ls, st)" "Exists st" "survives_encoding (Some (ls, st))"
    by (rule desired_in_use[OF used valid]) (use secret in auto)
  have des: "desired L r c nn = Some (ls, st)" if "Objects c = Objects (server s)" "nn \<in> set (Secrets c)" for c
    using want(1) that(2) secret by (simp add: desired_def usages_in_cong[OF that(1)])
  have old: "SecretUsages (cached s2) = SecretUsages (server s)"
    unfolding usage_views by (rule stored_usages) (simp add: steps2(2))
  let ?c = "(cached s2)\<lparr>Secrets := nn # Secrets (server s2)\<rparr>"
  have des2: "desired L r ?c nn = Some (ls, st)" by (rule des) (simp_all add: usage_views s2)
  obtain s4 where steps4: "(lag_step L r)\<^sup>*\<^sup>* (s2, {}) (s4, {})"
    and s4: "l_cache s4 = l_cache s2" "w_usages (l_world s4) = w_usages (l_world s2)"
      "Secrets (server s4) = nn # Secrets (server s2)" "Objects (server s4) = Objects (server s2)"
    by (rule creation_reconciled[OF G, where L = L and s = s2 and nn = nn]) (use up want des2 old in \<open>simp_all add: up_to_date_def\<close>)
  define s5 where "s5 = s4\<lparr>l_cache := w_usages (l_world s4)\<rparr>"
  have cached4: "SecretUsages (cached s4) = SecretUsages (server s)"
    unfolding old[symmetric] unfolding usage_views by (rule stored_usages) (simp add: s4)
  have server4: "SecretUsages (server s4) = SecretUsages (server s2)"
    unfolding usage_views by (rule stored_usages) (rule s4(2))
  have "usage_adds (SecretUsages (cached s4) k) (SecretUsages (server s4) k) = {}" for k
  proof (cases "k = nn")
    case True
    then show ?thesis using up want(1) su(1) by (auto simp: cached4 server4 usage_adds_conv up_to_date_def split: option.splits)
  next
    case False
    then show ?thesis using s2(3) by (simp add: cached4 server4 usage_adds_conv split: option.split)
  qed
  then have "lag_step L r (s4, {}) (s5, {})" using lag_step.catch_up[of L r s4 "{}"] by (simp add: s5_def)
  with steps2(1) steps4 have "(lag_step L r)\<^sup>*\<^sup>* (s, {}) (s5, {})"
    by (meson rtranclp.rtrancl_into_rtrancl rtranclp_trans)
  moreover have srv: "server s5 = server s4" by (simp add: s5_def server_def)
  moreover have "\<not> up_to_date L r (server s4) nn"
    using des[of "server s4"] want(2) su by (simp add: up_to_date_def s4 s2 server4 holds_def wire_status_def) auto
  ultimately show ?thesis
    using s4 s2 su server4 secret by (intro exI[of _ s5]) (auto simp: s5_def)
qed

section \<open>An example\<close>

text \<open>The Secret \<open>db\<close> exists, the example Pod uses it, and this has been recorded.\<close>

definition lag_before :: world where
  "lag_before = example_world\<lparr>w_cluster := (w_cluster example_world)\<lparr>Secrets := [example_key ''db'']\<rparr>\<rparr>"

definition lag_synced :: lagged where
  "lag_synced = (let w = snd (Reconcile example_lib example_reconciler example_env (example_key ''db'') lag_before)
     in \<lparr>l_world = w, l_cache = w_usages w\<rparr>)"

lemma lag_synced_server:
  "same_elsewhere (example_key ''db'') (world_view lag_before) (server lag_synced)"
  "up_to_date example_lib example_reconciler (server lag_synced) (example_key ''db'')"
proof -
  have D: "documented example_lib (Rules example_reconciler) example_env world_view" by (simp add: example_documented)
  have "Reconcile example_lib example_reconciler example_env (example_key ''db'') lag_before = (None, l_world lag_synced)"
    using Reconcile_succeeds[OF D, of "example_key ''db''" lag_before] example_available
    by (simp add: lag_synced_def Let_def prod_eq_iff)
  from Reconcile_run[OF D _ this]
  show "same_elsewhere (example_key ''db'') (world_view lag_before) (server lag_synced)"
    "up_to_date example_lib example_reconciler (server lag_synced) (example_key ''db'')"
    by (simp_all add: server_def)
qed

theorem replaced_secret_stays_missing_witness:
  "\<exists>s'. (lag_step example_lib example_reconciler)\<^sup>*\<^sup>* (lag_synced, {}) (s', {}) \<and>
     example_key ''db'' \<in> set (Secrets (server s')) \<and>
     (\<exists>su. SecretUsages (server s') (example_key ''db'') = Some su \<and> \<not> Exists (Status su))"
proof -
  have secrets: "Secrets (server lag_synced) = [example_key ''db'']" and objs: "Objects (server lag_synced) = Objects (world_view example_world)"
    using lag_synced_server(1) by (simp_all add: same_elsewhere_def lag_before_def)
  have "usages_in example_lib example_reconciler (world_view example_world) (example_key ''db'') \<noteq> []" by code_simp
  then have used: "usages_in example_lib example_reconciler (server lag_synced) (example_key ''db'') \<noteq> []"
    using usages_in_cong[OF objs] by metis
  have valid: "IsValidLabelValue example_lib (nn_Name (example_key ''db'')) = []" by code_simp
  have sync: "l_cache lag_synced = w_usages (l_world lag_synced)" by (simp add: lag_synced_def Let_def)
  have mem: "example_key ''db'' \<in> set (Secrets (server lag_synced))" by (simp add: secrets)
  from replaced_secret_stays_missing[OF example_agree sync mem used valid lag_synced_server(2)] mem
  show ?thesis by metis
qed

end
