(* ===== verification/Concurrent.thy ===== *)
theory Concurrent
  imports UndisturbedRun CacheLag
begin

text \<open>
  The running system with interference: activity of others, and reconciles of queued names
  amid it. In every state that can be reached, a name that is neither queued nor in doubt is up
  to date; in doubt are the names of SecretUsage objects that others edited or that a reconcile
  may have read from before its last write.
\<close>

section \<open>What a reconcile keeps of other names\<close>

text \<open>
  A predicate on cluster and queue that the activity of others, a change of the SecretUsage
  of \<open>nn\<close> and a change of the series keep is kept by every call of a reconcile of \<open>nn\<close>.
\<close>

lemma reads_amid_keep:
  assumes "reads_amid L r view queue s out there missing" "well_stored (view s)" "J (view s) (queue s)"
    and act: "\<And>c q c' q'. J c q \<Longrightarrow> well_stored c \<Longrightarrow> activity L r c q c' q' \<Longrightarrow> J c' q'"
  shows "J (view (snd out)) (queue (snd out))"
proof -
  obtain c q where c: "activity L r (view s) (queue s) c q" "activity L r c q (view (snd out)) (queue (snd out))"
    using assms(1) unfolding reads_amid_def by blast
  have "well_stored c" by (rule activity_well_stored[OF c(1) assms(2)])
  then show ?thesis using act[OF act[OF assms(3,2) c(1)] _ c(2)] by blast
qed

lemma writes_amid_keep:
  assumes "writes_amid L r view queue s out nn pre fails effect" "well_stored (view s)" "J (view s) (queue s)"
    and act: "\<And>c q c' q'. J c q \<Longrightarrow> well_stored c \<Longrightarrow> activity L r c q c' q' \<Longrightarrow> J c' q'"
    and put: "\<And>c q q' su. J c q \<Longrightarrow> q \<subseteq> q' \<Longrightarrow> J (put_usage nn su c) q'"
  shows "J (view (snd out)) (queue (snd out))"
proof -
  obtain c q q' su where c: "activity L r (view s) (queue s) c q" "well_stored (put_usage nn su c)" "q \<subseteq> q'"
      "activity L r (put_usage nn su c) q' (view (snd out)) (queue (snd out))"
    using assms(1) unfolding writes_amid_def by blast
  show ?thesis by (rule act[OF put[OF act[OF assms(3,2) c(1)] c(3)] c(2,4)])
qed

lemma amid_keeps:
  assumes D: "documented_amid L r E view queue fresh"
    and act: "\<And>c q c' q'. J c q \<Longrightarrow> well_stored c \<Longrightarrow> activity L r c q c' q' \<Longrightarrow> J c' q'"
    and put: "\<And>c q q' su. J c q \<Longrightarrow> q \<subseteq> q' \<Longrightarrow> J (put_usage nn su c) q'"
    and ser: "\<And>c q x. J c q \<Longrightarrow> J (c\<lparr>Series := x\<rparr>) q"
  shows "keeps L r nn E (\<lambda>s. J (view s) (queue s))"
proof -
  note reads = reads_amid_keep[where view = view and queue = queue and J = J and L = L and r = r,
      OF _ amid_well_stored[OF D] _ act]
  note writes = writes_amid_keep[where view = view and queue = queue and J = J and nn = nn and L = L and r = r,
      OF _ amid_well_stored[OF D] _ act put]
  have "usage_key su = nn" if got: "fst (GetSecretUsage E nn s) = Inr su" for s su
    using amid_get[OF D, of s nn] unfolding reads_amid_def got sum.case by blast
  note get_key = this
  note read_calls = reads[OF amid_meta[OF D]] reads[OF amid_get[OF D]]
    reads[OF amid_list[OF D, folded indexedSecretListOptions_def]]
  have keys: "usage_key su = nn \<Longrightarrow> fst (Create E su s) = Inr su' \<Longrightarrow> usage_key su' = nn"
    "usage_key su = nn \<Longrightarrow> fst (Patch E (set_labels ls su) su s) = Inr su' \<Longrightarrow> usage_key su' = nn" for s ls su su'
    using amid_create_key[OF D] amid_patch_key[OF D] by metis+
  have create: "J (view (snd (Create E su s))) (queue (snd (Create E su s)))"
    if key: "usage_key su = nn" and "J (view s) (queue s)" for s su
    by (rule writes[OF amid_create[OF D, of s su, unfolded key] that(2)])
  have patch: "J (view (snd (Patch E (set_labels ls su) su s))) (queue (snd (Patch E (set_labels ls su) su s)))"
    if key: "usage_key su = nn" and "J (view s) (queue s)" for s ls su
    by (rule writes[OF amid_patch[OF D, of s ls su, unfolded key] that(2)])
  have status_update: "J (view (snd (StatusUpdate E su s))) (queue (snd (StatusUpdate E su s)))"
    if key: "usage_key su = nn" and "J (view s) (queue s)" for s su
    by (rule writes[OF amid_status_update[OF D refl, of s su, unfolded key] that(2)])
  have status_patch: "J (view (snd (StatusPatch E (su\<lparr>Status := st\<rparr>) su s))) (queue (snd (StatusPatch E (su\<lparr>Status := st\<rparr>) su s)))"
    if key: "usage_key su = nn" and "J (view s) (queue s)" for s st su
    by (rule writes[OF amid_status_patch[OF D, of s st su, unfolded key] that(2)])
  have delete: "J (view (snd (Delete E su s))) (queue (snd (Delete E su s)))"
    if key: "usage_key su = nn" and "J (view s) (queue s)" for s su
    by (rule writes[OF amid_delete[OF D, of s su, unfolded key] that(2)])
  have series: "J (view (SetLabelValues E v ls x s)) (queue (SetLabelValues E v ls x s))"
    if "J (view s) (queue s)" for v ls x s
    unfolding amid_set[OF D] by (rule ser[OF that])
  have unset: "J (view (DeleteLabelValues E v ls s)) (queue (DeleteLabelValues E v ls s))"
    if "J (view s) (queue s)" for v ls s
    unfolding amid_unset[OF D] by (rule ser[OF that])
  note calls = read_calls get_key keys create patch status_update status_patch delete series unset
  show ?thesis by (rule keepsI) (rule calls; assumption)+
qed

section \<open>The system\<close>

text \<open>
  A worker takes a name off the queue, reconciles it, and puts it back if that returned an
  error. Others act between and during reconciles. An informer changes its cache before it
  calls the handlers, so \<open>queue\<close> stands for the names that wait or whose event is on its way:
  a name that is taken may be in it still. Updates of SecretUsage objects cause no event the
  handlers react to. What others edit in one, and what a reconcile does that may have read one
  from before its last write, leaves the name in \<open>doubt\<close> until it is reconciled again.
\<close>

inductive interferes ::
    "'jp lib \<Rightarrow> 'jp reconciler \<Rightarrow> cluster \<Rightarrow> namespacedName set \<Rightarrow> namespacedName set \<Rightarrow>
     cluster \<Rightarrow> namespacedName set \<Rightarrow> namespacedName set \<Rightarrow> bool"
  for L :: "'jp lib" and r :: "'jp reconciler" and c :: cluster and q d :: "namespacedName set" where
  still: "interferes L r c q d c q d"
| acts: "interferes L r c q d c1 q1 d1 \<Longrightarrow> others L r c1 c2 adds \<Longrightarrow> interferes L r c q d c2 (q1 \<union> adds) d1"
| edits: "interferes L r c q d c1 q1 d1 \<Longrightarrow> SecretUsages c1 nn = Some old \<Longrightarrow> usage_key su = nn \<Longrightarrow> wire_usage su = su \<Longrightarrow>
     interferes L r c q d (put_usage nn (Some su) c1) q1 (insert nn d1)"

lemma interferes_activity: "interferes L r c q d c' q' d' \<Longrightarrow> activity L r c (q \<union> d) c' (q' \<union> d')"
proof (induction rule: interferes.induct)
  case (acts c1 q1 d1 c2 adds)
  from activity.act[OF acts.IH acts.hyps(2)] show ?case by (simp add: Un_ac)
next
  case (edits c1 q1 d1 nn old su)
  from activity.edit[OF edits.IH edits.hyps(2-4)] show ?case by simp
qed (rule idle)

inductive live_step ::
    "'jp lib \<Rightarrow> 'jp reconciler \<Rightarrow> 's env \<Rightarrow> ('s \<Rightarrow> cluster) \<Rightarrow> ('s \<Rightarrow> namespacedName set) \<Rightarrow> ('s \<Rightarrow> namespacedName set) \<Rightarrow>
     ('s \<Rightarrow> namespacedName \<Rightarrow> bool) \<Rightarrow> 's \<Rightarrow> 's \<Rightarrow> bool"
  for L :: "'jp lib" and r :: "'jp reconciler" and E :: "'s env" and view :: "'s \<Rightarrow> cluster"
    and queue doubt :: "'s \<Rightarrow> namespacedName set" and fresh :: "'s \<Rightarrow> namespacedName \<Rightarrow> bool" where
  interference: "interferes L r (view s) (queue s) (doubt s) (view s') (queue s') (doubt s') \<Longrightarrow>
     live_step L r E view queue doubt fresh s s'"
| reconciling: "nn \<in> queue s \<Longrightarrow> view s1 = view s \<Longrightarrow> queue s - {nn} \<subseteq> queue s1 \<Longrightarrow> doubt s - {nn} \<subseteq> doubt s1 \<Longrightarrow>
     Reconcile L r E nn s1 = (res, s2) \<Longrightarrow>
     view s' = view s2 \<Longrightarrow> queue s' = queue s2 \<union> (if res = None then {} else {nn}) \<Longrightarrow>
     doubt s' = doubt s2 \<union> (if fresh s1 nn then {} else {nn}) \<Longrightarrow>
     live_step L r E view queue doubt fresh s s'"

inductive live ::
    "'jp lib \<Rightarrow> 'jp reconciler \<Rightarrow> 's env \<Rightarrow> ('s \<Rightarrow> cluster) \<Rightarrow> ('s \<Rightarrow> namespacedName set) \<Rightarrow> ('s \<Rightarrow> namespacedName set) \<Rightarrow>
     ('s \<Rightarrow> namespacedName \<Rightarrow> bool) \<Rightarrow> 's \<Rightarrow> bool"
  for L :: "'jp lib" and r :: "'jp reconciler" and E :: "'s env" and view :: "'s \<Rightarrow> cluster"
    and queue doubt :: "'s \<Rightarrow> namespacedName set" and fresh :: "'s \<Rightarrow> namespacedName \<Rightarrow> bool" where
  live_start: "queue s = start_queue L r (view s) \<Longrightarrow> doubt s = {} \<Longrightarrow> live L r E view queue doubt fresh s"
| live_more: "live L r E view queue doubt fresh s \<Longrightarrow> live_step L r E view queue doubt fresh s s' \<Longrightarrow>
     live L r E view queue doubt fresh s'"

lemma reconciled_up_to_date:
  assumes A: "rules_agree r" and D: "documented_amid L r E view queue fresh"
    and run: "Reconcile L r E nn s = (None, s')" and fresh: "fresh s nn" and out: "nn \<notin> queue s'"
  shows "up_to_date L r (view s') nn"
proof -
  have "keeps L r nn E (\<lambda>s. nn \<in> queue s)"
    by (rule amid_keeps[OF D, where J = "\<lambda>c q. nn \<in> q"]) (use activity_queue in blast)+
  from undisturbed_run[where queue = queue and fresh = fresh, OF this amid_fresh[OF D] fresh]
  have "Reconcile L r (undisturbed r queue fresh nn E) nn s = (None, s')" using run out by simp
  from Reconcile_run[OF undisturbed_documented[OF A D] A[unfolded rules_agree_def, THEN conjunct1] this]
  show ?thesis by simp
qed

lemma elsewhere_kept:
  assumes A: "rules_agree r" and D: "documented_amid L r E view queue fresh"
    and run: "Reconcile L r E nn s = (res, s')"
    and before: "\<forall>k. k \<noteq> nn \<longrightarrow> k \<notin> queue s \<longrightarrow> up_to_date L r (view s) k"
  shows "\<forall>k. k \<noteq> nn \<longrightarrow> k \<notin> queue s' \<longrightarrow> up_to_date L r (view s') k"
proof -
  let ?J = "\<lambda>c q. \<forall>k. k \<noteq> nn \<longrightarrow> k \<notin> q \<longrightarrow> up_to_date L r c k"
  have "keeps L r nn E (\<lambda>s. ?J (view s) (queue s))"
  proof (rule amid_keeps[OF D, where J = ?J])
    show "?J c' q'" if "?J c q" "well_stored c" "activity L r c q c' q'" for c q c' q'
      using that activity_keeps_up_to_date[OF A that(3) _ that(2)] activity_queue[OF that(3)] by blast
    show "?J (put_usage nn su c) q'" if "?J c q" "q \<subseteq> q'" for c q q' su
    proof -
      have "up_to_date L r (put_usage nn su c) k = up_to_date L r c k" if "k \<noteq> nn" for k
        using that by (intro up_to_date_cong) (auto simp: desired_def usages_in_def put_usage_def)
      then show ?thesis using that by blast
    qed
    show "?J (c\<lparr>Series := x\<rparr>) q" if "?J c q" for c q x
    proof -
      have "up_to_date L r (c\<lparr>Series := x\<rparr>) k = up_to_date L r c k" for k
        by (intro up_to_date_cong) (auto simp: desired_def usages_in_def)
      then show ?thesis using that by simp
    qed
  qed
  from keeps_Reconcile[OF this before] show ?thesis by (simp add: run)
qed

lemma live_settled:
  assumes A: "rules_agree r" and D: "documented_amid L r E view (\<lambda>s. queue s \<union> doubt s) fresh"
    and "live L r E view queue doubt fresh s"
  shows "\<forall>nn. nn \<notin> queue s \<union> doubt s \<longrightarrow> up_to_date L r (view s) nn"
  using assms(3)
proof (induction rule: live.induct)
  case (live_start s)
  then show ?case
    using start_queue_covers[OF A, of "view s"] amid_well_stored[OF D, of s] by (simp add: well_stored_def)
next
  case (live_more s s')
  show ?case using live_more.hyps(2)
  proof (cases rule: live_step.cases)
    case interference
    note act = interferes_activity[OF interference]
    show ?thesis
      using live_more.IH activity_keeps_up_to_date[OF A act _ amid_well_stored[OF D]] activity_queue[OF act] by blast
  next
    case (reconciling nn s1 res s2)
    have "\<forall>k. k \<noteq> nn \<longrightarrow> k \<notin> queue s1 \<union> doubt s1 \<longrightarrow> up_to_date L r (view s1) k"
      using live_more.IH reconciling(2-4) by auto
    from elsewhere_kept[OF A D reconciling(5) this]
    have "up_to_date L r (view s') k" if "k \<noteq> nn" "k \<notin> queue s' \<union> doubt s'" for k
      using that reconciling(6-8) by simp
    moreover have "up_to_date L r (view s') nn" if "nn \<notin> queue s' \<union> doubt s'"
      using that reconciled_up_to_date[OF A D, of nn s1 s2] reconciling(5-8) by (simp split: if_splits)
    ultimately show ?thesis by metis
  qed
qed

text \<open>
  C2: while others change Secrets, objects and SecretUsage objects, even in the middle of
  a reconcile, and calls fail, every name that is neither queued nor in doubt is up to date: its
  SecretUsage is there, with the status and labels that the Secret and the objects of the
  namespace call for, exactly when the Secret is referenced or is an unused one to be tracked.
  In doubt is a name whose SecretUsage others edited, or of which the last reconcile started
  before the cache had caught up with the controller's own writes to it.
\<close>
theorem live_up_to_date:
  assumes "rules_agree r" and "documented_amid L r E view (\<lambda>s. queue s \<union> doubt s) fresh"
    and "live L r E view queue doubt fresh s" and "nn \<notin> queue s" and "nn \<notin> doubt s"
  shows "up_to_date L r (view s) nn"
  using live_settled[OF assms(1-3)] assms(4,5) by blast

section \<open>An example\<close>

text \<open>
  The client with a cache of \<open>CacheLag\<close>, beside a queue and the names in doubt. A name is fresh
  when the cache holds what the server stores.
\<close>

record amid =
  a_lag :: lagged
  a_queue :: "namespacedName set"
  a_doubt :: "namespacedName set"

abbreviation amid_view :: "amid \<Rightarrow> cluster" where
  "amid_view s \<equiv> server (a_lag s)"

abbreviation amid_pending :: "amid \<Rightarrow> namespacedName set" where
  "amid_pending s \<equiv> a_queue s \<union> a_doubt s"

definition in_sync_at :: "amid \<Rightarrow> namespacedName \<Rightarrow> bool" where
  "in_sync_at s nn \<longleftrightarrow> stored (cache_world (a_lag s)) nn = stored (l_world (a_lag s)) nn"

definition amid_call :: "(lagged, 'a) call \<Rightarrow> (amid, 'a) call" where
  "amid_call call s = (let (res, l) = call (a_lag s) in (res, s\<lparr>a_lag := l\<rparr>))"

definition amid_env :: "'jp lib \<Rightarrow> 'jp compiledRule list \<Rightarrow> amid env" where
  "amid_env L rs = (let E = lag_env L rs in
     \<lparr>GetMetadata = (\<lambda>gvk nn. amid_call (GetMetadata E gvk nn)),
      GetSecretUsage = (\<lambda>nn. amid_call (GetSecretUsage E nn)),
      ListObjects = (\<lambda>lk opts. amid_call (ListObjects E lk opts)),
      ListSecretUsages = (\<lambda>opts. amid_call (ListSecretUsages E opts)),
      Create = (\<lambda>su. amid_call (Create E su)),
      Patch = (\<lambda>su base. amid_call (Patch E su base)),
      StatusUpdate = (\<lambda>su. amid_call (StatusUpdate E su)),
      StatusPatch = (\<lambda>su base. amid_call (StatusPatch E su base)),
      Delete = (\<lambda>su. amid_call (Delete E su)),
      SetLabelValues = (\<lambda>v ls x s. s\<lparr>a_lag := SetLabelValues E v ls x (a_lag s)\<rparr>),
      DeleteLabelValues = (\<lambda>v ls s. s\<lparr>a_lag := DeleteLabelValues E v ls (a_lag s)\<rparr>),
      SetGauge = (\<lambda>g x s. s\<lparr>a_lag := SetGauge E g x (a_lag s)\<rparr>)\<rparr>)"

lemma amid_env_calls:
  "GetMetadata (amid_env L rs) gvk nn = amid_call (at_cache (GetMetadata (world_env L rs) gvk nn))"
  "GetSecretUsage (amid_env L rs) nn = amid_call (at_cache (GetSecretUsage (world_env L rs) nn))"
  "ListObjects (amid_env L rs) lk opts = amid_call (at_cache (ListObjects (world_env L rs) lk opts))"
  "Create (amid_env L rs) su = amid_call (at_server (Create (world_env L rs) su))"
  "Patch (amid_env L rs) su base = amid_call (at_server (Patch (world_env L rs) su base))"
  "StatusUpdate (amid_env L rs) su = amid_call (at_server (world_status su))"
  "StatusPatch (amid_env L rs) su base = amid_call (at_server (world_status su))"
  "Delete (amid_env L rs) su = amid_call (at_server (Delete (world_env L rs) su))"
  "SetLabelValues (amid_env L rs) v ls x s = s\<lparr>a_lag := (a_lag s)\<lparr>l_world := SetLabelValues (world_env L rs) v ls x (l_world (a_lag s))\<rparr>\<rparr>"
  "DeleteLabelValues (amid_env L rs) v ls s = s\<lparr>a_lag := (a_lag s)\<lparr>l_world := DeleteLabelValues (world_env L rs) v ls (l_world (a_lag s))\<rparr>\<rparr>"
  by (simp_all add: amid_env_def Let_def world_env_status fun_eq_iff)

lemma amid_at_cache [simp]: "amid_call (at_cache call) s = (fst (call (cache_world (a_lag s))), s)"
  by (simp add: amid_call_def at_cache_def)

lemma amid_at_server [simp]:
  "amid_call (at_server call) s =
     (fst (call (l_world (a_lag s))), s\<lparr>a_lag := (a_lag s)\<lparr>l_world := snd (call (l_world (a_lag s)))\<rparr>\<rparr>)"
  by (simp add: amid_call_def at_server_def split: prod.split)

lemma server_world [simp]: "server l = world_view (l_world l)"
  by (simp add: server_def)

lemma world_well_stored: "well_stored (world_view w)"
  using stored_key by (auto simp: well_stored_def)

lemma reads_amid_cache:
  assumes "case fst (call (cache_world (a_lag s))) of Inr a \<Rightarrow> there (amid_view s) a
      | Inl e \<Rightarrow> IsNotFound e \<longrightarrow> missing (amid_view s)"
  shows "reads_amid L r amid_view amid_pending s (amid_call (at_cache call) s) there missing"
  unfolding reads_amid_def amid_at_cache fst_conv snd_conv using assms idle by blast

lemma writes_amid_world:
  assumes "pre (world_view (l_world (a_lag s))) \<Longrightarrow>
      writes world_view (l_world (a_lag s)) (call (l_world (a_lag s))) (effect (world_view (l_world (a_lag s))))"
    and "world_view (snd (call (l_world (a_lag s)))) = put_usage nn su (world_view (l_world (a_lag s)))"
    and "\<And>e. fst (call (l_world (a_lag s))) = Inl e \<Longrightarrow> fails e"
  shows "writes_amid L r amid_view amid_pending s (amid_call (at_server call) s) nn pre fails effect"
proof -
  let ?w = "l_world (a_lag s)" and ?out = "amid_call (at_server call) s"
  let ?c = "world_view ?w" and ?c' = "world_view (snd (call ?w))"
  have out: "fst ?out = fst (call ?w)" "amid_view (snd ?out) = ?c'" "amid_pending (snd ?out) = amid_pending s" by simp_all
  have act: "activity L r ?c (amid_pending s) ?c (amid_pending s)" "activity L r ?c' (amid_pending s) ?c' (amid_pending s)"
    by (rule idle)+
  have eff: "pre ?c \<longrightarrow> (case fst ?out of Inr a \<Rightarrow> effect ?c a ?c'
      | Inl e \<Rightarrow> ?c' = ?c \<and> fails e \<or> (\<exists>a. effect ?c a ?c'))"
    unfolding out using assms(1,3) by (auto simp: writes_def split: sum.splits)
  show ?thesis
    unfolding writes_amid_def server_world[symmetric] out(3)
    unfolding server_world out(2)[unfolded server_world]
    by (intro exI[of _ ?c] exI[of _ "amid_pending s"] exI[of _ ?c'] exI[of _ su] conjI
        act eff assms(2) world_well_stored order_refl)
qed

lemma put_same: "put_usage nn (SecretUsages c nn) c = c"
  by (rule cluster.equality) (simp_all add: put_usage_def)

lemma world_status_put:
  "\<exists>new. world_view (snd (world_status su w)) = put_usage (usage_key su) new (world_view w)"
proof (cases "stored w (usage_key su)")
  case None
  then show ?thesis
    using put_same[of "usage_key su" "world_view w"] by (intro exI[of _ None]) (simp add: world_status_def)
next
  case (Some old)
  show ?thesis
  proof (cases "ResourceVersion (ObjectMeta su) = ResourceVersion (ObjectMeta old)")
    case True
    then show ?thesis
      using stored_key[OF Some] by (auto simp: world_status_def Some Let_def view_store)
  next
    case False
    then show ?thesis
      using put_same[of "usage_key su" "world_view w"] Some
      by (intro exI[of _ "Some old"]) (simp add: world_status_def)
  qed
qed

lemma amid_stays_fresh: "stays_fresh (amid_env L rs) queue in_sync_at"
  by (simp add: stays_fresh_def amid_env_calls in_sync_at_def) (simp add: world_env_def stored_def)

lemma amid_documented: "documented_amid L r (amid_env L (Rules r)) amid_view amid_pending in_sync_at"
proof -
  let ?E = "world_env L (Rules r)" and ?A = "amid_env L (Rules r)"
  have R: "documented_reads L (Rules r) ?E world_view" by (rule world_reads)
  have meta: "reads_amid L r amid_view amid_pending s (GetMetadata ?A (secretGVK L) nn s)
      (\<lambda>c _. nn \<in> set (Secrets c)) (\<lambda>c. nn \<notin> set (Secrets c))" for s nn
  proof -
    have "reads world_view w (GetMetadata ?E (secretGVK L) nn w) (\<lambda>_. nn \<in> set (Secrets (world_view w)))
        (nn \<notin> set (Secrets (world_view w)))" for w
      using R by (simp only: documented_reads_def)
    from this[of "cache_world (a_lag s)"] show ?thesis
      unfolding amid_env_calls by (intro reads_amid_cache) (simp add: reads_def split: sum.splits)
  qed
  have get: "reads_amid L r amid_view amid_pending s (GetSecretUsage ?A nn s)
      (\<lambda>c su. usage_key su = nn \<and> (in_sync_at s nn \<longrightarrow> SecretUsages c nn = Some su))
      (\<lambda>c. in_sync_at s nn \<longrightarrow> SecretUsages c nn = None)" for s nn
  proof -
    have "reads world_view w (GetSecretUsage ?E nn w) (\<lambda>su. SecretUsages (world_view w) nn = Some su)
        (SecretUsages (world_view w) nn = None)" for w
      using R by (simp only: documented_reads_def)
    from this[of "cache_world (a_lag s)"] stored_key[of "cache_world (a_lag s)" nn] show ?thesis
      unfolding amid_env_calls
      by (intro reads_amid_cache) (auto simp: reads_def in_sync_at_def split: sum.splits)
  qed
  have lst: "reads_amid L r amid_view amid_pending s (ListObjects ?A lk [InNamespace ns, MatchingFields SecretNameIndexField n] s)
      (\<lambda>c xs. mset xs = mset (filter (matching L (Rules r) lk ns n) (Objects c))) (\<lambda>c. True)"
    if "indexed_list (Rules r) lk" for s lk ns n
  proof -
    have "reads world_view w (ListObjects ?E lk [InNamespace ns, MatchingFields SecretNameIndexField n] w)
        (\<lambda>xs. mset xs = mset (filter (matching L (Rules r) lk ns n) (Objects (world_view w)))) True" for w
      using R that by (simp only: documented_reads_def)
    from this[of "cache_world (a_lag s)"] show ?thesis
      unfolding amid_env_calls by (intro reads_amid_cache) (simp add: reads_def split: sum.splits)
  qed
  have create: "writes_amid L r amid_view amid_pending s (Create ?A su s) (usage_key su)
      (\<lambda>c. SecretUsages c (usage_key su) = None) (\<lambda>_. True) (created su)" for s su
    unfolding amid_env_calls
    by (rule writes_amid_world, rule world_create)
      (simp_all add: world_env_def Let_def view_store, simp add: usage_key_def wire_usage_def)
  have patch: "writes_amid L r amid_view amid_pending s (Patch ?A (set_labels ls base) base s) (usage_key base)
      (\<lambda>c. SecretUsages c (usage_key base) = Some (wire_usage base)) (\<lambda>_. True) (patched (set_labels ls base) base)" for s ls base
    unfolding amid_env_calls set_labels_key
    by (rule writes_amid_world, rule world_patch) (simp_all add: world_env_def Let_def view_store)
  have update: "writes_amid L r amid_view amid_pending s (StatusUpdate ?A su s) (usage_key su)
      (\<lambda>c. may_update c su old) (\<lambda>_. True) (status_written su old)" for s su old
  proof -
    obtain new where "world_view (snd (world_status su (l_world (a_lag s)))) =
        put_usage (usage_key su) new (world_view (l_world (a_lag s)))"
      using world_status_put by blast
    then show ?thesis
      unfolding amid_env_calls by (intro writes_amid_world) (rule world_status_update(1), simp_all)
  qed
  have spatch: "writes_amid L r amid_view amid_pending s (StatusPatch ?A (base\<lparr>Status := st\<rparr>) base s) (usage_key base)
      (\<lambda>c. SecretUsages c (usage_key base) = Some (wire_usage base)) (\<lambda>_. True)
      (status_written (base\<lparr>Status := st\<rparr>) (wire_usage base))" for s st base
  proof -
    obtain new where "world_view (snd (world_status (base\<lparr>Status := st\<rparr>) (l_world (a_lag s)))) =
        put_usage (usage_key base) new (world_view (l_world (a_lag s)))"
      using world_status_put[of "base\<lparr>Status := st\<rparr>" "l_world (a_lag s)"] by auto
    then show ?thesis
      unfolding amid_env_calls status_key by (intro writes_amid_world) (rule world_status_patch(1), simp_all)
  qed
  have delete: "writes_amid L r amid_view amid_pending s (Delete ?A su s) (usage_key su)
      (\<lambda>c. SecretUsages c (usage_key su) \<noteq> None) (\<lambda>e. \<not> IsNotFound e) (deleted su)" for s su
    unfolding amid_env_calls
    by (rule writes_amid_world[where su = None]) (simp_all add: world_delete writes_def deleted_def view_drop)
  have keys: "fst (Create ?A su s) = Inr su' \<Longrightarrow> usage_key su' = usage_key su"
    "fst (Patch ?A (set_labels ls base) base s) = Inr su' \<Longrightarrow> usage_key su' = usage_key base" for su su' s ls base
    using world_create_key[of L "Rules r" su _ su'] world_patch_key[of L "Rules r" "set_labels ls base" base _ su']
    unfolding amid_env_calls by simp_all
  have ws: "well_stored (amid_view s)" for s by (simp add: world_well_stored)
  have "documented_series ?E world_view" using world_documented[of L "Rules r"] by (simp add: documented_def)
  then have series: "amid_view (SetLabelValues ?A v ls x s) =
      (amid_view s)\<lparr>Series := (Series (amid_view s))(v := (Series (amid_view s) v)(ls \<mapsto> x))\<rparr>"
    "amid_view (DeleteLabelValues ?A v ls s) =
      (amid_view s)\<lparr>Series := (Series (amid_view s))(v := (Series (amid_view s) v)(ls := None))\<rparr>"
    "amid_pending (SetLabelValues ?A v ls x s) = amid_pending s" "amid_pending (DeleteLabelValues ?A v ls s) = amid_pending s"
    for v ls x s
    by (simp_all add: amid_env_calls documented_series_def)
  show ?thesis
    unfolding documented_amid_def
    by (intro conjI allI impI) (rule ws meta get amid_stays_fresh create patch update spatch delete series | erule keys lst)+
qed

text \<open>A reconcile leaves what stands beside the cached client alone.\<close>

interpretation beside: simulation L r nn
  "\<lambda>s l. a_lag s = l \<and> a_queue s = q \<and> a_doubt s = d" "\<lambda>s l. a_lag s = l \<and> a_queue s = q \<and> a_doubt s = d"
  "amid_env L (Rules r)" "lag_env L (Rules r)"
proof
  show "usage_key su = nn" if "fst (GetSecretUsage (amid_env L (Rules r)) nn s) = Inr su" for s su
    using that world_get_key by (simp add: amid_env_calls)
  show "usage_key su' = nn" if "usage_key su = nn" "fst (Create (amid_env L (Rules r)) su s) = Inr su'" for s su su'
    using that world_create_key[of L "Rules r" su "l_world (a_lag s)" su'] by (simp add: amid_env_calls)
  show "usage_key su' = nn" if "usage_key su = nn" "fst (Patch (amid_env L (Rules r)) (set_labels ls su) su s) = Inr su'" for s ls su su'
    using that world_patch_key[of L "Rules r" "set_labels ls su" su "l_world (a_lag s)" su'] by (simp add: amid_env_calls)
qed (auto simp: amid_env_def amid_call_def Let_def same_def split: prod.split)

lemma amid_reconciled:
  assumes "nn \<in> a_queue s" and "l_cache (a_lag s) = w_usages (l_world (a_lag s))" and "rules_agree r"
  obtains s' where "live_step L r (amid_env L (Rules r)) amid_view a_queue a_doubt in_sync_at s s'"
    "a_queue s' = a_queue s - {nn}" "a_doubt s' = a_doubt s - {nn}" "Objects (amid_view s') = Objects (amid_view s)"
    "Secrets (amid_view s') = Secrets (amid_view s)"
proof -
  let ?s1 = "s\<lparr>a_queue := a_queue s - {nn}, a_doubt := a_doubt s - {nn}\<rparr>"
  obtain l where l: "Reconcile L r (lag_env L (Rules r)) nn (a_lag s) = (None, l)"
    "Reconcile L r (world_env L (Rules r)) nn (l_world (a_lag s)) = (None, l_world l)"
    using run_in_sync[OF assms(2)] by metis
  have "same (\<lambda>s' l. a_lag s' = l \<and> a_queue s' = a_queue s - {nn} \<and> a_doubt s' = a_doubt s - {nn})
      (Reconcile L r (amid_env L (Rules r)) nn ?s1) (Reconcile L r (lag_env L (Rules r)) nn (a_lag s))"
    by (rule beside.sim_Reconcile) simp
  then obtain s' where run: "Reconcile L r (amid_env L (Rules r)) nn ?s1 = (None, s')"
    and s': "a_lag s' = l" "a_queue s' = a_queue s - {nn}" "a_doubt s' = a_doubt s - {nn}"
    unfolding l(1) by (elim sameE) auto
  have "in_sync_at ?s1 nn" by (simp add: in_sync_at_def stored_def assms(2))
  with run s' have "live_step L r (amid_env L (Rules r)) amid_view a_queue a_doubt in_sync_at s s'"
    using live_step.reconciling[of nn a_queue s amid_view ?s1 a_doubt L r "amid_env L (Rules r)" None s' s' in_sync_at] assms(1)
    by simp
  moreover have "Secrets (amid_view s') = Secrets (amid_view s) \<and> Objects (amid_view s') = Objects (amid_view s)"
    using Reconcile_run[OF world_documented assms(3)[unfolded rules_agree_def, THEN conjunct1] l(2)] s'(1)
    by (simp add: same_elsewhere_def)
  ultimately show ?thesis using that s' by blast
qed

text \<open>At the start the Secret \<open>db\<close>, which a Pod references, has no SecretUsage.\<close>

definition amid_start :: "'jp lib \<Rightarrow> 'jp reconciler \<Rightarrow> amid" where
  "amid_start L r = \<lparr>a_lag = \<lparr>l_world = example_world, l_cache = []\<rparr>,
     a_queue = start_queue L r (world_view example_world), a_doubt = {}\<rparr>"

lemma amid_started:
  assumes "rules_agree r" and "nn \<in> start_queue L r (world_view example_world)"
  obtains s where "live L r (amid_env L (Rules r)) amid_view a_queue a_doubt in_sync_at s"
    "a_queue s = start_queue L r (world_view example_world) - {nn}" "a_doubt s = {}"
    "desired L r (amid_view s) nn = desired L r (world_view example_world) nn"
proof -
  have "nn \<in> a_queue (amid_start L r)" "l_cache (a_lag (amid_start L r)) = w_usages (l_world (a_lag (amid_start L r)))"
    using assms(2) by (simp_all add: amid_start_def example_world_def)
  from amid_reconciled[OF this assms(1), of L] obtain s where
    step: "live_step L r (amid_env L (Rules r)) amid_view a_queue a_doubt in_sync_at (amid_start L r) s"
    and s: "a_queue s = a_queue (amid_start L r) - {nn}" "a_doubt s = a_doubt (amid_start L r) - {nn}"
      "Objects (amid_view s) = Objects (amid_view (amid_start L r))" "Secrets (amid_view s) = Secrets (amid_view (amid_start L r))"
    by metis
  have "live L r (amid_env L (Rules r)) amid_view a_queue a_doubt in_sync_at (amid_start L r)"
    by (rule live_start) (simp_all add: amid_start_def)
  from live_more[OF this step] show ?thesis
    using that s desired_cong[of "amid_view s" "world_view example_world" L r nn] by (simp add: amid_start_def)
qed

theorem live_up_to_date_witness:
  "SecretUsages (world_view example_world) (example_key ''db'') = None \<and>
   (\<exists>s su. live example_lib example_reconciler (amid_env example_lib []) amid_view a_queue a_doubt in_sync_at s \<and>
      SecretUsages (amid_view s) (example_key ''db'') = Some su \<and> UsageCount (Status su) = 2)"
proof -
  obtain s where live: "live example_lib example_reconciler (amid_env example_lib (Rules example_reconciler)) amid_view a_queue a_doubt in_sync_at s"
    and q: "example_key ''db'' \<notin> a_queue s" "example_key ''db'' \<notin> a_doubt s"
    and want: "desired example_lib example_reconciler (amid_view s) (example_key ''db'') =
      desired example_lib example_reconciler (world_view example_world) (example_key ''db'')"
    by (rule amid_started[OF example_agree, of "example_key ''db''" example_lib])
      (simp_all add: example_start_queue[unfolded example_start_def, simplified])
  from live_up_to_date[OF example_agree amid_documented live q]
  have up: "up_to_date example_lib example_reconciler (amid_view s) (example_key ''db'')" .
  have "case desired example_lib example_reconciler (world_view example_world) (example_key ''db'') of
      None \<Rightarrow> False | Some (ls, st) \<Rightarrow> UsageCount st = 2"
    by code_simp
  with want obtain ls st where d: "desired example_lib example_reconciler (amid_view s) (example_key ''db'') = Some (ls, st)"
    and "UsageCount st = 2" by (auto split: option.splits)
  moreover from up d obtain su where "SecretUsages (amid_view s) (example_key ''db'') = Some su" "holds (ls, st) su"
    unfolding up_to_date_def d option.case by (auto split: option.splits)
  ultimately have "SecretUsages (amid_view s) (example_key ''db'') = Some su \<and> UsageCount (Status su) = 2"
    by (simp add: holds_def wire_status_def)
  moreover have "Rules example_reconciler = []" by (simp add: example_reconciler_def)
  moreover have "SecretUsages (world_view example_world) (example_key ''db'') = None"
    by (simp add: example_world_def stored_def)
  ultimately show ?thesis using live by metis
qed

end
