(* ===== verification/Memory.thy ===== *)
theory Memory
  imports UsageApi
begin

text \<open>
  A memory for the generated copy functions of \<open>api/v1alpha1\<close>, the one place of the program
  where sharing is the point: cells at addresses, structs that hold pointers and slice
  headers, and what it means for a function to copy a struct deeply (\<open>deep_copier\<close>). Everywhere
  else the development takes objects as values, as the code may because of these copies.
\<close>

section \<open>Cells\<close>

type_synonym addr = nat

text \<open>A slice that is not nil: a window of a backing array.\<close>

record sliceHeader =
  base :: addr
  offset :: nat
  len :: nat

record mem_reference =
  r_APIVersion :: string
  r_Kind :: string
  r_Namespace :: string
  r_Name :: string
  r_UID :: string
  r_FieldPath :: string
  r_Container :: string
  r_Key :: string
  r_Optional :: "addr option"

record mem_status =
  ms_SecretName :: string
  ms_Exists :: bool
  ms_UsageCount :: int32
  ms_Truncated :: bool
  ms_Usages :: "sliceHeader option"

record typeMeta =
  tm_Kind :: string
  tm_APIVersion :: string

text \<open>
  \<open>'m\<close> and \<open>'l\<close> are the structs \<open>metav1.ObjectMeta\<close> and \<open>metav1.ListMeta\<close>, and \<open>'x\<close> is what
  the library keeps in memory for them. The empty struct \<open>SecretUsageSpec\<close> is \<open>unit\<close>.
\<close>

record 'm mem_usage =
  mu_TypeMeta :: typeMeta
  mu_ObjectMeta :: 'm
  mu_Spec :: unit
  mu_Status :: mem_status

record 'l mem_list =
  ml_TypeMeta :: typeMeta
  ml_ListMeta :: 'l
  ml_Items :: "sliceHeader option"

text \<open>A variable of struct type is an array of one element; \<open>&xs[i]\<close> points to an element.\<close>

datatype ('m, 'l, 'x) cell =
    BoolCell bool
  | ReferencesCell "mem_reference list"
  | StatusesCell "mem_status list"
  | SpecsCell "unit list"
  | UsagesCell "'m mem_usage list"
  | ListsCell "'l mem_list list"
  | LibCell 'x

record ('m, 'l, 'x) memory =
  store :: "addr \<Rightarrow> ('m, 'l, 'x) cell option"
  limit :: addr

type_synonym ptr = "addr \<times> nat"

fun references_of :: "('m, 'l, 'x) cell \<Rightarrow> mem_reference list" where
  "references_of (ReferencesCell xs) = xs" | "references_of _ = []"

fun statuses_of :: "('m, 'l, 'x) cell \<Rightarrow> mem_status list" where
  "statuses_of (StatusesCell xs) = xs" | "statuses_of _ = []"

fun specs_of :: "('m, 'l, 'x) cell \<Rightarrow> unit list" where
  "specs_of (SpecsCell xs) = xs" | "specs_of _ = []"

fun usages_of :: "('m, 'l, 'x) cell \<Rightarrow> 'm mem_usage list" where
  "usages_of (UsagesCell xs) = xs" | "usages_of _ = []"

fun lists_of :: "('m, 'l, 'x) cell \<Rightarrow> 'l mem_list list" where
  "lists_of (ListsCell xs) = xs" | "lists_of _ = []"

text \<open>Allocation at a fresh address, and writing a cell.\<close>

definition alloc :: "('m, 'l, 'x) cell \<Rightarrow> ('m, 'l, 'x) memory \<Rightarrow> addr \<times> ('m, 'l, 'x) memory" where
  "alloc c h = (limit h, h\<lparr>store := (store h)(limit h \<mapsto> c), limit := Suc (limit h)\<rparr>)"

definition put_cell :: "addr \<Rightarrow> ('m, 'l, 'x) cell \<Rightarrow> ('m, 'l, 'x) memory \<Rightarrow> ('m, 'l, 'x) memory" where
  "put_cell a c h = h\<lparr>store := (store h)(a \<mapsto> c)\<rparr>"

text \<open>Reading. Go's pointers always lead somewhere; the other cases only make these total.\<close>

definition load_bool :: "addr \<Rightarrow> ('m, 'l, 'x) memory \<Rightarrow> bool" where
  "load_bool a h = (case store h a of Some (BoolCell b) \<Rightarrow> b | _ \<Rightarrow> False)"

definition array_at :: "(('m, 'l, 'x) cell \<Rightarrow> 'e list) \<Rightarrow> addr \<Rightarrow> ('m, 'l, 'x) memory \<Rightarrow> 'e list" where
  "array_at elts a h = (case store h a of Some c \<Rightarrow> elts c | None \<Rightarrow> [])"

definition load :: "(('m, 'l, 'x) cell \<Rightarrow> 'e list) \<Rightarrow> ptr \<Rightarrow> ('m, 'l, 'x) memory \<Rightarrow> 'e" where
  "load elts p h = array_at elts (fst p) h ! snd p"

definition put ::
    "('e list \<Rightarrow> ('m, 'l, 'x) cell) \<Rightarrow> (('m, 'l, 'x) cell \<Rightarrow> 'e list) \<Rightarrow> ptr \<Rightarrow> 'e \<Rightarrow>
     ('m, 'l, 'x) memory \<Rightarrow> ('m, 'l, 'x) memory" where
  "put wrap elts p v h = put_cell (fst p) (wrap ((array_at elts (fst p) h)[snd p := v])) h"

lemma alloc_simps [simp]:
  "fst (alloc c h) = limit h" "limit (snd (alloc c h)) = Suc (limit h)"
  "store (snd (alloc c h)) = (store h)(limit h \<mapsto> c)"
  by (simp_all add: alloc_def)

lemma put_cell_simps [simp]:
  "limit (put_cell a c h) = limit h" "store (put_cell a c h) = (store h)(a \<mapsto> c)"
  by (simp_all add: put_cell_def)

section \<open>Deep copies\<close>

definition agree :: "addr set \<Rightarrow> ('m, 'l, 'x) memory \<Rightarrow> ('m, 'l, 'x) memory \<Rightarrow> bool" where
  "agree S h h' \<longleftrightarrow> limit h \<le> limit h' \<and> (\<forall>a \<in> S. store h' a = store h a)"

lemma agree_refl [simp]: "agree S h h"
  by (simp add: agree_def)

lemma agree_trans: "agree S h h' \<Longrightarrow> agree S h' h'' \<Longrightarrow> agree S h h''"
  by (auto simp: agree_def)

lemma agree_mono: "agree S h h' \<Longrightarrow> T \<subseteq> S \<Longrightarrow> agree T h h'"
  by (auto simp: agree_def)

lemma agree_Un: "agree (S \<union> T) h h' \<longleftrightarrow> agree S h h' \<and> agree T h h'"
  by (auto simp: agree_def)

lemma agree_put: "a \<notin> S \<Longrightarrow> agree S h (put_cell a c h)"
  by (auto simp: agree_def)

lemma agree_alloc: "S \<subseteq> {..<limit h} \<Longrightarrow> agree S h (snd (alloc c h))"
  by (auto simp: agree_def)

lemma agree_array: "agree S h h' \<Longrightarrow> a \<in> S \<Longrightarrow> array_at elts a h' = array_at elts a h"
  by (simp add: agree_def array_at_def)

text \<open>
  The contract of a \<open>DeepCopyInto\<close>. The struct that \<open>in\<close> points to is the argument, and the
  struct written through \<open>out\<close> the result (no caller passes structs that overlap). \<open>cells\<close>
  are the addresses reachable from a struct. A copy reads the same, writes to no cell that
  existed, and reaches only new cells.
\<close>

locale deep_copier =
  fixes valid :: "('m, 'l, 'x) memory \<Rightarrow> 's \<Rightarrow> bool"
    and reading :: "('m, 'l, 'x) memory \<Rightarrow> 's \<Rightarrow> 'v"
    and cells :: "('m, 'l, 'x) memory \<Rightarrow> 's \<Rightarrow> addr set"
    and copy :: "'s \<Rightarrow> ('m, 'l, 'x) memory \<Rightarrow> 's \<times> ('m, 'l, 'x) memory"
  assumes allocated: "valid h v \<Longrightarrow> cells h v \<subseteq> {..<limit h}"
    and depends: "valid h v \<Longrightarrow> agree (cells h v) h h' \<Longrightarrow>
      valid h' v \<and> reading h' v = reading h v \<and> cells h' v = cells h v"
    and copied: "valid h v \<Longrightarrow> copy v h = (v', h') \<Longrightarrow>
      agree {..<limit h} h h' \<and> valid h' v' \<and> reading h' v' = reading h v \<and> cells h' v' \<subseteq> {limit h..<limit h'}"
begin

lemma depends_below:
  assumes "valid h v" "agree {..<limit h} h h'"
  shows "valid h' v \<and> reading h' v = reading h v \<and> cells h' v = cells h v"
  by (rule depends[OF assms(1) agree_mono[OF assms(2) allocated[OF assms(1)]]])

text \<open>Whatever happens to older memory, the copy stays; whatever happens to newer, the original does.\<close>

lemma independent:
  assumes "valid h v" "copy v h = (v', h')"
  shows "agree {limit h..<limit h'} h' h'' \<Longrightarrow> reading h'' v' = reading h v"
    and "agree {..<limit h} h' h'' \<Longrightarrow> reading h'' v = reading h v"
proof -
  note c = copied[OF assms]
  show "reading h'' v' = reading h v" if "agree {limit h..<limit h'} h' h''"
    using depends[of h' v' h''] agree_mono[OF that, of "cells h' v'"] c by simp
  show "reading h'' v = reading h v" if "agree {..<limit h} h' h''"
    using depends_below[OF assms(1) agree_trans[OF _ that]] c by simp
qed

end

section \<open>Slices of structs\<close>

text \<open>
  The copy of a slice, as the generated code writes it: a new array of zero values, and a loop
  that copies each element into its place. A window of one element is a pointer.
\<close>

definition copy_slice ::
    "('e list \<Rightarrow> ('m, 'l, 'x) cell) \<Rightarrow> (('m, 'l, 'x) cell \<Rightarrow> 'e list) \<Rightarrow> 'e \<Rightarrow>
     ('e \<Rightarrow> ('m, 'l, 'x) memory \<Rightarrow> 'e \<times> ('m, 'l, 'x) memory) \<Rightarrow>
     sliceHeader \<Rightarrow> ('m, 'l, 'x) memory \<Rightarrow> sliceHeader \<times> ('m, 'l, 'x) memory" where
  "copy_slice wrap elts zero copy s h =
     (let (a, h) = alloc (wrap (replicate (len s) zero)) h;
          h = fold (\<lambda>i h. let (v, h) = copy (load elts (base s, offset s + i) h) h in put wrap elts (a, i) v h)
                [0..<len s] h
      in (\<lparr>base = a, offset = 0, len = len s\<rparr>, h))"

definition element :: "(('m, 'l, 'x) cell \<Rightarrow> 'e list) \<Rightarrow> sliceHeader \<Rightarrow> ('m, 'l, 'x) memory \<Rightarrow> nat \<Rightarrow> 'e" where
  "element elts s h i = load elts (base s, offset s + i) h"

definition valid_slice ::
    "('e list \<Rightarrow> ('m, 'l, 'x) cell) \<Rightarrow> (('m, 'l, 'x) cell \<Rightarrow> 'e list) \<Rightarrow> (('m, 'l, 'x) memory \<Rightarrow> 'e \<Rightarrow> bool) \<Rightarrow>
     ('m, 'l, 'x) memory \<Rightarrow> sliceHeader \<Rightarrow> bool" where
  "valid_slice wrap elts valid h s \<longleftrightarrow> base s < limit h \<and>
     (\<exists>xs. store h (base s) = Some (wrap xs) \<and> offset s + len s \<le> length xs) \<and>
     (\<forall>i<len s. valid h (element elts s h i))"

definition read_slice ::
    "(('m, 'l, 'x) cell \<Rightarrow> 'e list) \<Rightarrow> (('m, 'l, 'x) memory \<Rightarrow> 'e \<Rightarrow> 'v) \<Rightarrow> ('m, 'l, 'x) memory \<Rightarrow> sliceHeader \<Rightarrow> 'v list" where
  "read_slice elts reading h s = map (\<lambda>i. reading h (element elts s h i)) [0..<len s]"

definition slice_cells ::
    "(('m, 'l, 'x) cell \<Rightarrow> 'e list) \<Rightarrow> (('m, 'l, 'x) memory \<Rightarrow> 'e \<Rightarrow> addr set) \<Rightarrow> ('m, 'l, 'x) memory \<Rightarrow> sliceHeader \<Rightarrow> addr set" where
  "slice_cells elts cells h s = insert (base s) (\<Union>i<len s. cells h (element elts s h i))"

locale slice_copier = deep_copier valid reading cells copy
  for valid :: "('m, 'l, 'x) memory \<Rightarrow> 'e \<Rightarrow> bool" and reading :: "('m, 'l, 'x) memory \<Rightarrow> 'e \<Rightarrow> 'v"
    and cells and copy :: "'e \<Rightarrow> ('m, 'l, 'x) memory \<Rightarrow> 'e \<times> ('m, 'l, 'x) memory" +
  fixes wrap :: "'e list \<Rightarrow> ('m, 'l, 'x) cell" and elts :: "('m, 'l, 'x) cell \<Rightarrow> 'e list" and zero :: 'e
  assumes elts_wrap: "elts (wrap xs) = xs"
begin

lemma array_wrap: "store h a = Some (wrap xs) \<Longrightarrow> array_at elts a h = xs"
  by (simp add: array_at_def elts_wrap)

definition copying :: "sliceHeader \<Rightarrow> addr \<Rightarrow> nat \<Rightarrow> ('m, 'l, 'x) memory \<Rightarrow> ('m, 'l, 'x) memory" where
  "copying s a i h = (let (v, h) = copy (load elts (base s, offset s + i) h) h in put wrap elts (a, i) v h)"

definition copied_upto :: "sliceHeader \<Rightarrow> ('m, 'l, 'x) memory \<Rightarrow> nat \<Rightarrow> ('m, 'l, 'x) memory \<Rightarrow> bool" where
  "copied_upto s h n h' \<longleftrightarrow> agree {..<limit h} h h' \<and> limit h < limit h' \<and>
     (\<exists>ys. store h' (limit h) = Some (wrap ys) \<and> length ys = len s \<and>
        (\<forall>i<n. valid h' (ys ! i) \<and> reading h' (ys ! i) = reading h (element elts s h i) \<and>
           cells h' (ys ! i) \<subseteq> {Suc (limit h)..<limit h'}))"

lemma copying_step:
  assumes s: "valid_slice wrap elts valid h s" and up: "copied_upto s h n h1" and n: "n < len s"
  shows "copied_upto s h (Suc n) (copying s (limit h) n h1)"
proof -
  let ?a = "limit h" and ?x = "element elts s h n"
  obtain ys where old: "agree {..<?a} h h1" "?a < limit h1" and ys: "store h1 ?a = Some (wrap ys)" "length ys = len s"
    and each_done: "\<And>i. i < n \<Longrightarrow> valid h1 (ys ! i) \<and> reading h1 (ys ! i) = reading h (element elts s h i) \<and>
      cells h1 (ys ! i) \<subseteq> {Suc ?a..<limit h1}"
    using up unfolding copied_upto_def by blast
  have src: "load elts (base s, offset s + n) h1 = ?x"
    using agree_array[OF old(1), of "base s" elts] s by (simp add: load_def element_def valid_slice_def)
  have x: "valid h1 ?x" "reading h1 ?x = reading h ?x"
    using depends_below[OF _ old(1)] s n by (simp_all add: valid_slice_def)
  obtain v h2 where copy: "copy ?x h1 = (v, h2)" by force
  note c = copied[OF x(1) copy]
  let ?h = "put_cell ?a (wrap (ys[n := v])) h2"
  have a2: "array_at elts ?a h2 = ys"
    using agree_array[of "{..<limit h1}" h1 h2 ?a elts] c old(2) array_wrap[OF ys(1)] by simp
  then have run: "copying s ?a n h1 = ?h" by (simp add: copying_def src copy put_def)
  have keep: "valid ?h w \<and> reading ?h w = reading h2 w \<and> cells ?h w = cells h2 w" if "valid h2 w" "?a \<notin> cells h2 w" for w
    by (rule depends[OF that(1) agree_put[OF that(2)]])
  have "agree {..<?a} h ?h"
  proof -
    have "agree {..<?a} h1 h2" by (rule agree_mono[of "{..<limit h1}"]) (use c old(2) in auto)
    then show ?thesis using old(1) by (meson agree_trans agree_put lessThan_iff less_irrefl)
  qed
  moreover have "limit h < limit ?h" using old(2) c by (simp add: agree_def)
  moreover have "valid ?h (ys[n := v] ! i) \<and> reading ?h (ys[n := v] ! i) = reading h (element elts s h i) \<and>
      cells ?h (ys[n := v] ! i) \<subseteq> {Suc ?a..<limit ?h}" if "i < Suc n" for i
  proof (cases "i = n")
    case True
    have "?a \<notin> cells h2 v" using c old(2) by auto
    then show ?thesis using keep[of v] c x(2) True n ys(2) old(2) by (auto simp: subset_iff)
  next
    case False
    then have i: "i < n" using that by simp
    have d: "valid h2 (ys ! i) \<and> reading h2 (ys ! i) = reading h1 (ys ! i) \<and> cells h2 (ys ! i) = cells h1 (ys ! i)"
      using depends_below[of h1 "ys ! i" h2] each_done[OF i] c by blast
    then have "?a \<notin> cells h2 (ys ! i)" using each_done[OF i] by auto
    moreover have "limit h1 \<le> limit h2" using c by (simp add: agree_def)
    ultimately show ?thesis using keep[of "ys ! i"] d each_done[OF i] False by (auto simp: subset_iff)
  qed
  ultimately show ?thesis unfolding run copied_upto_def by (intro conjI exI[of _ "ys[n := v]"]) (simp_all add: ys(2))
qed

lemma copying_all:
  assumes "valid_slice wrap elts valid h s" "n \<le> len s"
  shows "copied_upto s h n (fold (copying s (limit h)) [0..<n] (snd (alloc (wrap (replicate (len s) zero)) h)))"
  using assms(2)
proof (induction n)
  case 0
  show ?case by (auto simp: copied_upto_def agree_def)
next
  case (Suc n)
  then show ?case using copying_step[OF assms(1) Suc.IH] by simp
qed

end

sublocale slice_copier \<subseteq> slices: deep_copier "valid_slice wrap elts valid" "read_slice elts reading"
  "slice_cells elts cells" "copy_slice wrap elts zero copy"
proof
  fix h :: "('m, 'l, 'x) memory" and s h'
  assume s: "valid_slice wrap elts valid h s"
  show "slice_cells elts cells h s \<subseteq> {..<limit h}"
    using s allocated by (fastforce simp: valid_slice_def slice_cells_def)
  assume A: "agree (slice_cells elts cells h s) h h'"
  have base: "store h' (base s) = store h (base s)" using A by (simp add: agree_def slice_cells_def)
  then have same: "element elts s h' i = element elts s h i" for i
    by (simp add: element_def load_def array_at_def)
  have each: "valid h' (element elts s h i) \<and> reading h' (element elts s h i) = reading h (element elts s h i) \<and>
      cells h' (element elts s h i) = cells h (element elts s h i)" if "i < len s" for i
    using that s by (intro depends agree_mono[OF A]) (auto simp: valid_slice_def slice_cells_def)
  have "base s < limit h'" using s A by (simp add: valid_slice_def agree_def)
  then show "valid_slice wrap elts valid h' s \<and> read_slice elts reading h' s = read_slice elts reading h s \<and>
      slice_cells elts cells h' s = slice_cells elts cells h s"
    using s each base by (auto simp: valid_slice_def read_slice_def slice_cells_def same)
next
  fix h :: "('m, 'l, 'x) memory" and s s' h'
  assume s: "valid_slice wrap elts valid h s" and copy: "copy_slice wrap elts zero copy s h = (s', h')"
  have run: "s' = \<lparr>base = limit h, offset = 0, len = len s\<rparr>"
    "h' = fold (copying s (limit h)) [0..<len s] (snd (alloc (wrap (replicate (len s) zero)) h))"
    using copy by (simp_all add: copy_slice_def copying_def[abs_def] Let_def alloc_def split: prod.splits)
  have "copied_upto s h (len s) h'" unfolding run(2) by (rule copying_all[OF s order_refl])
  then obtain ys where old: "agree {..<limit h} h h'" "limit h < limit h'"
    and ys: "store h' (limit h) = Some (wrap ys)" "length ys = len s"
    and each_done: "\<And>i. i < len s \<Longrightarrow> valid h' (ys ! i) \<and> reading h' (ys ! i) = reading h (element elts s h i) \<and>
      cells h' (ys ! i) \<subseteq> {Suc (limit h)..<limit h'}"
    unfolding copied_upto_def by blast
  have elem: "element elts \<lparr>base = limit h, offset = 0, len = len s\<rparr> h' i = ys ! i" for i
    by (simp add: element_def load_def array_wrap[OF ys(1)])
  have "valid_slice wrap elts valid h' s'" using old(2) ys each_done by (auto simp: valid_slice_def elem run(1))
  moreover have "read_slice elts reading h' s' = read_slice elts reading h s"
    using each_done by (auto simp: read_slice_def elem run(1))
  moreover have "slice_cells elts cells h' s' \<subseteq> {limit h..<limit h'}"
    using each_done old(2) by (fastforce simp: slice_cells_def elem run(1))
  ultimately show "agree {..<limit h} h h' \<and> valid_slice wrap elts valid h' s' \<and>
      read_slice elts reading h' s' = read_slice elts reading h s \<and> slice_cells elts cells h' s' \<subseteq> {limit h..<limit h'}"
    using old(1) by blast
qed

text \<open>Copying what a pointer leads to into a new variable.\<close>

definition window :: "ptr \<Rightarrow> sliceHeader" where
  "window p = \<lparr>base = fst p, offset = snd p, len = 1\<rparr>"

lemma window_simps [simp]: "read_slice elts reading h (window p) = [reading h (load elts p h)]"
  by (simp add: read_slice_def window_def element_def)

context slice_copier
begin

lemma slices_copied:
  "deep_copier (valid_slice wrap elts valid) (read_slice elts reading) (slice_cells elts cells) (copy_slice wrap elts zero copy)"
  by (rule slices.deep_copier_axioms)

lemma pointer_copied:
  assumes p: "valid_slice wrap elts valid h (window p)"
    and run: "copy_slice wrap elts zero copy (window p) h = (s, h')"
  shows "s = window (limit h, 0)"
    and "agree {..<limit h} h h'"
    and "reading h' (load elts (base s, 0) h') = reading h (load elts p h)"
    and "reading h' (load elts p h') = reading h (load elts p h)"
    and "agree {limit h..<limit h'} h' h'' \<Longrightarrow> reading h'' (load elts (base s, 0) h'') = reading h (load elts p h)"
    and "agree {..<limit h} h' h'' \<Longrightarrow> reading h'' (load elts p h'') = reading h (load elts p h)"
proof -
  show s: "s = window (limit h, 0)"
    using run by (auto simp: copy_slice_def alloc_def window_def Let_def split: prod.splits)
  note c = slices.copied[OF p run]
  show "agree {..<limit h} h h'" using c by blast
  show "reading h' (load elts (base s, 0) h') = reading h (load elts p h)" using c s by (simp add: window_def)
      (simp add: read_slice_def element_def)
  show "reading h' (load elts p h') = reading h (load elts p h)"
    using slices.independent(2)[OF p run agree_refl] by simp
  show "reading h'' (load elts (base s, 0) h'') = reading h (load elts p h)" if "agree {limit h..<limit h'} h' h''"
    using slices.independent(1)[OF p run that] s by (simp add: window_def) (simp add: read_slice_def element_def)
  show "reading h'' (load elts p h'') = reading h (load elts p h)" if "agree {..<limit h} h' h''"
    using slices.independent(2)[OF p run that] by simp
qed

end

lemma both_copied:
  assumes A: "deep_copier va ra ca cpa" and B: "deep_copier vb rb cb cpb"
    and a: "va h a" "cpa a h = (a', h1)" and b: "vb h b" "cpb b h1 = (b', h2)"
  shows "agree {..<limit h} h h2"
    and "va h2 a' \<and> ra h2 a' = ra h a \<and> ca h2 a' \<subseteq> {limit h..<limit h2}"
    and "vb h2 b' \<and> rb h2 b' = rb h b \<and> cb h2 b' \<subseteq> {limit h..<limit h2}"
proof -
  note one = deep_copier.copied[OF A a]
  have b1: "vb h1 b \<and> rb h1 b = rb h b \<and> cb h1 b = cb h b"
    using deep_copier.depends_below[OF B b(1)] one by blast
  note two = deep_copier.copied[OF B _ b(2)]
  have grow: "limit h \<le> limit h1" "limit h1 \<le> limit h2" using one two b1 by (auto simp: agree_def)
  have "agree {..<limit h} h1 h2" by (rule agree_mono[of "{..<limit h1}"]) (use two b1 grow in auto)
  then show "agree {..<limit h} h h2" using one agree_trans by blast
  have "va h2 a' \<and> ra h2 a' = ra h1 a' \<and> ca h2 a' = ca h1 a'"
    using deep_copier.depends_below[OF A, of h1 a' h2] one two b1 by blast
  then show "va h2 a' \<and> ra h2 a' = ra h a \<and> ca h2 a' \<subseteq> {limit h..<limit h2}"
    using one grow by (auto simp: subset_iff)
  show "vb h2 b' \<and> rb h2 b' = rb h b \<and> cb h2 b' \<subseteq> {limit h..<limit h2}"
    using two b1 grow by (auto simp: subset_iff)
qed

end
