(* ===== verification/DeepCopy.thy ===== *)
theory DeepCopy
  imports Memory
begin

text \<open>
  The generated copy functions of \<open>api/v1alpha1/zz_generated.deepcopy.go\<close>, from the parts
  to the whole: references, status, spec, SecretUsage, list. \<open>DeepCopyInto\<close> takes the struct that \<open>in\<close>
  points to and returns the one written through \<open>out\<close>; \<open>DeepCopy\<close> takes and returns a
  pointer, \<open>None\<close> for nil. The copies of \<open>ObjectMeta\<close> and \<open>ListMeta\<close> belong to apimachinery
  and are parameters, with \<open>deep_copier\<close> as their documented behaviour.
\<close>

section \<open>SecretUsageReference\<close>

definition zero_reference :: mem_reference where
  "zero_reference = \<lparr>r_APIVersion = [], r_Kind = [], r_Namespace = [], r_Name = [], r_UID = [],
     r_FieldPath = [], r_Container = [], r_Key = [], r_Optional = None\<rparr>"

definition reference_DeepCopyInto ::
    "mem_reference \<Rightarrow> ('m, 'l, 'x) memory \<Rightarrow> mem_reference \<times> ('m, 'l, 'x) memory" where
  "reference_DeepCopyInto src h =
     (let out = src in
      case r_Optional src of
        None \<Rightarrow> (out, h)
      | Some p \<Rightarrow>
          (let (q, h) = alloc (BoolCell False) h;
               h = put_cell q (BoolCell (load_bool p h)) h
           in (out\<lparr>r_Optional := Some q\<rparr>, h)))"

definition reference_DeepCopy ::
    "ptr option \<Rightarrow> ('m, 'l, 'x) memory \<Rightarrow> ptr option \<times> ('m, 'l, 'x) memory" where
  "reference_DeepCopy src h =
     (case src of
        None \<Rightarrow> (None, h)
      | Some p \<Rightarrow>
          (let (a, h) = alloc (ReferencesCell [zero_reference]) h;
               (v, h) = reference_DeepCopyInto (load references_of p h) h;
               h = put ReferencesCell references_of (a, 0) v h
           in (Some (a, 0), h)))"

section \<open>SecretUsageStatus\<close>

definition zero_mem_status :: mem_status where
  "zero_mem_status = \<lparr>ms_SecretName = [], ms_Exists = False, ms_UsageCount = 0, ms_Truncated = False, ms_Usages = None\<rparr>"

definition status_DeepCopyInto ::
    "mem_status \<Rightarrow> ('m, 'l, 'x) memory \<Rightarrow> mem_status \<times> ('m, 'l, 'x) memory" where
  "status_DeepCopyInto src h =
     (let out = src in
      case ms_Usages src of
        None \<Rightarrow> (out, h)
      | Some s \<Rightarrow>
          (let (t, h) = copy_slice ReferencesCell references_of zero_reference reference_DeepCopyInto s h
           in (out\<lparr>ms_Usages := Some t\<rparr>, h)))"

definition status_DeepCopy ::
    "ptr option \<Rightarrow> ('m, 'l, 'x) memory \<Rightarrow> ptr option \<times> ('m, 'l, 'x) memory" where
  "status_DeepCopy src h =
     (case src of
        None \<Rightarrow> (None, h)
      | Some p \<Rightarrow>
          (let (a, h) = alloc (StatusesCell [zero_mem_status]) h;
               (v, h) = status_DeepCopyInto (load statuses_of p h) h;
               h = put StatusesCell statuses_of (a, 0) v h
           in (Some (a, 0), h)))"

section \<open>SecretUsageSpec\<close>

definition spec_DeepCopyInto :: "unit \<Rightarrow> ('m, 'l, 'x) memory \<Rightarrow> unit \<times> ('m, 'l, 'x) memory" where
  "spec_DeepCopyInto src h = (let out = src in (out, h))"

definition spec_DeepCopy :: "ptr option \<Rightarrow> ('m, 'l, 'x) memory \<Rightarrow> ptr option \<times> ('m, 'l, 'x) memory" where
  "spec_DeepCopy src h =
     (case src of
        None \<Rightarrow> (None, h)
      | Some p \<Rightarrow>
          (let (a, h) = alloc (SpecsCell [()]) h;
               (v, h) = spec_DeepCopyInto (load specs_of p h) h;
               h = put SpecsCell specs_of (a, 0) v h
           in (Some (a, 0), h)))"

section \<open>SecretUsage\<close>

record ('m, 'l, 'x) metaLib =
  zeroMeta :: 'm
  metaDeepCopyInto :: "'m \<Rightarrow> ('m, 'l, 'x) memory \<Rightarrow> 'm \<times> ('m, 'l, 'x) memory"
  zeroListMeta :: 'l
  listMetaDeepCopyInto :: "'l \<Rightarrow> ('m, 'l, 'x) memory \<Rightarrow> 'l \<times> ('m, 'l, 'x) memory"

definition zero_typeMeta :: typeMeta where
  "zero_typeMeta = \<lparr>tm_Kind = [], tm_APIVersion = []\<rparr>"

definition zero_usage :: "('m, 'l, 'x) metaLib \<Rightarrow> 'm mem_usage" where
  "zero_usage M = \<lparr>mu_TypeMeta = zero_typeMeta, mu_ObjectMeta = zeroMeta M, mu_Spec = (), mu_Status = zero_mem_status\<rparr>"

definition usage_DeepCopyInto ::
    "('m, 'l, 'x) metaLib \<Rightarrow> 'm mem_usage \<Rightarrow> ('m, 'l, 'x) memory \<Rightarrow> 'm mem_usage \<times> ('m, 'l, 'x) memory" where
  "usage_DeepCopyInto M src h =
     (let out = src;
          out = out\<lparr>mu_TypeMeta := mu_TypeMeta src\<rparr>;
          (m, h) = metaDeepCopyInto M (mu_ObjectMeta src) h;
          out = out\<lparr>mu_ObjectMeta := m\<rparr>;
          out = out\<lparr>mu_Spec := mu_Spec src\<rparr>;
          (st, h) = status_DeepCopyInto (mu_Status src) h;
          out = out\<lparr>mu_Status := st\<rparr>
      in (out, h))"

definition usage_DeepCopy ::
    "('m, 'l, 'x) metaLib \<Rightarrow> ptr option \<Rightarrow> ('m, 'l, 'x) memory \<Rightarrow> ptr option \<times> ('m, 'l, 'x) memory" where
  "usage_DeepCopy M src h =
     (case src of
        None \<Rightarrow> (None, h)
      | Some p \<Rightarrow>
          (let (a, h) = alloc (UsagesCell [zero_usage M]) h;
               (v, h) = usage_DeepCopyInto M (load usages_of p h) h;
               h = put UsagesCell usages_of (a, 0) v h
           in (Some (a, 0), h)))"

section \<open>SecretUsageList\<close>

definition zero_list :: "('m, 'l, 'x) metaLib \<Rightarrow> 'l mem_list" where
  "zero_list M = \<lparr>ml_TypeMeta = zero_typeMeta, ml_ListMeta = zeroListMeta M, ml_Items = None\<rparr>"

definition list_DeepCopyInto ::
    "('m, 'l, 'x) metaLib \<Rightarrow> 'l mem_list \<Rightarrow> ('m, 'l, 'x) memory \<Rightarrow> 'l mem_list \<times> ('m, 'l, 'x) memory" where
  "list_DeepCopyInto M src h =
     (let out = src;
          out = out\<lparr>ml_TypeMeta := ml_TypeMeta src\<rparr>;
          (m, h) = listMetaDeepCopyInto M (ml_ListMeta src) h;
          out = out\<lparr>ml_ListMeta := m\<rparr>
      in case ml_Items src of
        None \<Rightarrow> (out, h)
      | Some s \<Rightarrow>
          (let (t, h) = copy_slice UsagesCell usages_of (zero_usage M) (usage_DeepCopyInto M) s h
           in (out\<lparr>ml_Items := Some t\<rparr>, h)))"

definition list_DeepCopy ::
    "('m, 'l, 'x) metaLib \<Rightarrow> ptr option \<Rightarrow> ('m, 'l, 'x) memory \<Rightarrow> ptr option \<times> ('m, 'l, 'x) memory" where
  "list_DeepCopy M src h =
     (case src of
        None \<Rightarrow> (None, h)
      | Some p \<Rightarrow>
          (let (a, h) = alloc (ListsCell [zero_list M]) h;
               (v, h) = list_DeepCopyInto M (load lists_of p h) h;
               h = put ListsCell lists_of (a, 0) v h
           in (Some (a, 0), h)))"

text \<open>\<open>runtime.Object\<close>: an interface value, nil or a pointer of one of the two types.\<close>

datatype runtimeObject = SecretUsagePtr ptr | SecretUsageListPtr ptr

definition usage_DeepCopyObject ::
    "('m, 'l, 'x) metaLib \<Rightarrow> ptr option \<Rightarrow> ('m, 'l, 'x) memory \<Rightarrow> runtimeObject option \<times> ('m, 'l, 'x) memory" where
  "usage_DeepCopyObject M src h =
     (case usage_DeepCopy M src h of (Some c, h) \<Rightarrow> (Some (SecretUsagePtr c), h) | (None, h) \<Rightarrow> (None, h))"

definition list_DeepCopyObject ::
    "('m, 'l, 'x) metaLib \<Rightarrow> ptr option \<Rightarrow> ('m, 'l, 'x) memory \<Rightarrow> runtimeObject option \<times> ('m, 'l, 'x) memory" where
  "list_DeepCopyObject M src h =
     (case list_DeepCopy M src h of (Some c, h) \<Rightarrow> (Some (SecretUsageListPtr c), h) | (None, h) \<Rightarrow> (None, h))"

section \<open>They copy deeply\<close>

text \<open>What a struct stands for, as a value of \<open>UsageApi\<close>.\<close>

definition valid_reference :: "('m, 'l, 'x) memory \<Rightarrow> mem_reference \<Rightarrow> bool" where
  "valid_reference h v \<longleftrightarrow> (\<forall>p \<in> set_option (r_Optional v). p < limit h \<and> (\<exists>b. store h p = Some (BoolCell b)))"

definition read_reference :: "('m, 'l, 'x) memory \<Rightarrow> mem_reference \<Rightarrow> secretUsageReference" where
  "read_reference h v =
     \<lparr>u_APIVersion = r_APIVersion v, u_Kind = r_Kind v, u_Namespace = r_Namespace v, u_Name = r_Name v,
      u_UID = r_UID v, u_FieldPath = r_FieldPath v, u_Container = r_Container v, u_Key = r_Key v,
      u_Optional = map_option (\<lambda>p. load_bool p h) (r_Optional v)\<rparr>"

definition reference_cells :: "('m, 'l, 'x) memory \<Rightarrow> mem_reference \<Rightarrow> addr set" where
  "reference_cells h v = set_option (r_Optional v)"

lemma agree_bool: "agree S h h' \<Longrightarrow> p \<in> S \<Longrightarrow> load_bool p h' = load_bool p h"
  by (simp add: agree_def load_bool_def)

lemma reference_copied:
  assumes v: "valid_reference h v" and run: "reference_DeepCopyInto v h = (v', h')"
  shows "agree {..<limit h} h h' \<and> valid_reference h' v' \<and> read_reference h' v' = read_reference h v \<and>
    reference_cells h' v' \<subseteq> {limit h..<limit h'}"
proof (cases "r_Optional v")
  case None
  then have "v' = v" "h' = h" using run by (simp_all add: reference_DeepCopyInto_def)
  then show ?thesis using v None by (simp add: reference_cells_def)
next
  case (Some p)
  have p: "p < limit h" using v Some by (simp add: valid_reference_def)
  have v': "v' = v\<lparr>r_Optional := Some (limit h)\<rparr>"
    and h': "h' = put_cell (limit h) (BoolCell (load_bool p h)) (snd (alloc (BoolCell False) h))"
    using run p by (auto simp: reference_DeepCopyInto_def Some alloc_def load_bool_def Let_def)
  have "agree {..<limit h} h h'" unfolding h' by (simp add: agree_def)
  moreover have "valid_reference h' v'" "reference_cells h' v' \<subseteq> {limit h..<limit h'}"
    by (simp_all add: valid_reference_def reference_cells_def v' h')
  moreover have "load_bool (limit h) h' = load_bool p h" by (simp add: load_bool_def h')
  then have "read_reference h' v' = read_reference h v" by (simp add: read_reference_def v' Some)
  ultimately show ?thesis by blast
qed

interpretation reference: deep_copier valid_reference read_reference reference_cells reference_DeepCopyInto
proof
  fix h :: "('m, 'l, 'x) memory" and v h'
  assume v: "valid_reference h v"
  show "reference_cells h v \<subseteq> {..<limit h}" using v by (auto simp: valid_reference_def reference_cells_def)
  assume A: "agree (reference_cells h v) h h'"
  then show "valid_reference h' v \<and> read_reference h' v = read_reference h v \<and> reference_cells h' v = reference_cells h v"
    using v agree_bool[OF A]
    by (cases "r_Optional v") (auto simp: valid_reference_def read_reference_def reference_cells_def agree_def)
qed (rule reference_copied)

interpretation references: slice_copier valid_reference read_reference reference_cells reference_DeepCopyInto
  ReferencesCell references_of zero_reference
  by unfold_locales simp

definition valid_status :: "('m, 'l, 'x) memory \<Rightarrow> mem_status \<Rightarrow> bool" where
  "valid_status h st \<longleftrightarrow> (\<forall>s \<in> set_option (ms_Usages st). valid_slice ReferencesCell references_of valid_reference h s)"

definition read_status :: "('m, 'l, 'x) memory \<Rightarrow> mem_status \<Rightarrow> secretUsageStatus" where
  "read_status h st =
     \<lparr>st_SecretName = ms_SecretName st, Exists = ms_Exists st, UsageCount = ms_UsageCount st, Truncated = ms_Truncated st,
      Usages = (case ms_Usages st of None \<Rightarrow> NilSlice | Some s \<Rightarrow> Slice (read_slice references_of read_reference h s))\<rparr>"

definition status_cells :: "('m, 'l, 'x) memory \<Rightarrow> mem_status \<Rightarrow> addr set" where
  "status_cells h st = (\<Union>s \<in> set_option (ms_Usages st). slice_cells references_of reference_cells h s)"

interpretation status: deep_copier valid_status read_status status_cells status_DeepCopyInto
proof
  fix h :: "('m, 'l, 'x) memory" and st h'
  assume v: "valid_status h st"
  show "status_cells h st \<subseteq> {..<limit h}"
    using v references.slices.allocated by (fastforce simp: valid_status_def status_cells_def)
  assume "agree (status_cells h st) h h'"
  then show "valid_status h' st \<and> read_status h' st = read_status h st \<and> status_cells h' st = status_cells h st"
    using v references.slices.depends[of h _ h']
    by (cases "ms_Usages st") (simp_all add: valid_status_def status_cells_def read_status_def)
next
  fix h :: "('m, 'l, 'x) memory" and st st' h'
  assume v: "valid_status h st" and run: "status_DeepCopyInto st h = (st', h')"
  show "agree {..<limit h} h h' \<and> valid_status h' st' \<and> read_status h' st' = read_status h st \<and>
      status_cells h' st' \<subseteq> {limit h..<limit h'}"
  proof (cases "ms_Usages st")
    case None
    then show ?thesis using run v by (auto simp: status_DeepCopyInto_def status_cells_def)
  next
    case (Some s)
    obtain t h2 where copy: "copy_slice ReferencesCell references_of zero_reference reference_DeepCopyInto s h = (t, h2)" by force
    then have "st' = st\<lparr>ms_Usages := Some t\<rparr>" "h' = h2" using run by (simp_all add: status_DeepCopyInto_def Some)
    then show ?thesis
      using references.slices.copied[OF _ copy] v
      by (simp add: Some valid_status_def read_status_def status_cells_def)
  qed
qed

text \<open>SecretUsage and its list, given that the library's structs are copied deeply.\<close>

definition valid_usage ::
    "(('m, 'l, 'x) memory \<Rightarrow> 'm \<Rightarrow> bool) \<Rightarrow> ('m, 'l, 'x) memory \<Rightarrow> 'm mem_usage \<Rightarrow> bool" where
  "valid_usage mv h u \<longleftrightarrow> mv h (mu_ObjectMeta u) \<and> valid_status h (mu_Status u)"

definition read_usage ::
    "(('m, 'l, 'x) memory \<Rightarrow> 'm \<Rightarrow> 'v) \<Rightarrow> ('m, 'l, 'x) memory \<Rightarrow> 'm mem_usage \<Rightarrow> typeMeta \<times> 'v \<times> secretUsageStatus" where
  "read_usage mr h u = (mu_TypeMeta u, mr h (mu_ObjectMeta u), read_status h (mu_Status u))"

definition usage_cells ::
    "(('m, 'l, 'x) memory \<Rightarrow> 'm \<Rightarrow> addr set) \<Rightarrow> ('m, 'l, 'x) memory \<Rightarrow> 'm mem_usage \<Rightarrow> addr set" where
  "usage_cells mc h u = mc h (mu_ObjectMeta u) \<union> status_cells h (mu_Status u)"

lemma usage_copier:
  assumes M: "deep_copier mv mr mc (metaDeepCopyInto M)"
  shows "deep_copier (valid_usage mv) (read_usage mr) (usage_cells mc) (usage_DeepCopyInto M)"
proof
  fix h :: "('a, 'b, 'c) memory" and u h'
  assume v: "valid_usage mv h u"
  show "usage_cells mc h u \<subseteq> {..<limit h}"
    using v deep_copier.allocated[OF M] status.allocated[of h] by (simp add: valid_usage_def usage_cells_def)
  assume "agree (usage_cells mc h u) h h'"
  then show "valid_usage mv h' u \<and> read_usage mr h' u = read_usage mr h u \<and> usage_cells mc h' u = usage_cells mc h u"
    using v deep_copier.depends[OF M, of h _ h'] status.depends[of h _ h']
    by (simp add: valid_usage_def read_usage_def usage_cells_def agree_Un)
next
  fix h :: "('a, 'b, 'c) memory" and u u' h'
  assume v: "valid_usage mv h u" and run: "usage_DeepCopyInto M u h = (u', h')"
  obtain m h1 where m: "metaDeepCopyInto M (mu_ObjectMeta u) h = (m, h1)" by force
  obtain st h2 where st: "status_DeepCopyInto (mu_Status u) h1 = (st, h2)" by force
  have out: "u' = u\<lparr>mu_ObjectMeta := m, mu_Spec := (), mu_Status := st\<rparr>" "h' = h2"
    using run by (simp_all add: usage_DeepCopyInto_def m st Let_def)
  show "agree {..<limit h} h h' \<and> valid_usage mv h' u' \<and> read_usage mr h' u' = read_usage mr h u \<and>
      usage_cells mc h' u' \<subseteq> {limit h..<limit h'}"
    using both_copied[OF M status.deep_copier_axioms _ m _ st] v
    by (simp add: out valid_usage_def read_usage_def usage_cells_def)
qed

lemma usages_copier:
  assumes "deep_copier mv mr mc (metaDeepCopyInto M)"
  shows "slice_copier (valid_usage mv) (read_usage mr) (usage_cells mc) (usage_DeepCopyInto M)
    UsagesCell usages_of"
  using usage_copier[OF assms] by (simp add: slice_copier_def slice_copier_axioms_def)

text \<open>A slice that may be nil.\<close>

definition valid_items ::
    "(('m, 'l, 'x) memory \<Rightarrow> 'm \<Rightarrow> bool) \<Rightarrow> ('m, 'l, 'x) memory \<Rightarrow> sliceHeader option \<Rightarrow> bool" where
  "valid_items mv h s \<longleftrightarrow> (\<forall>s \<in> set_option s. valid_slice UsagesCell usages_of (valid_usage mv) h s)"

definition read_items ::
    "(('m, 'l, 'x) memory \<Rightarrow> 'm \<Rightarrow> 'v) \<Rightarrow> ('m, 'l, 'x) memory \<Rightarrow> sliceHeader option \<Rightarrow>
     (typeMeta \<times> 'v \<times> secretUsageStatus) slice" where
  "read_items mr h s = (case s of None \<Rightarrow> NilSlice | Some s \<Rightarrow> Slice (read_slice usages_of (read_usage mr) h s))"

definition item_cells ::
    "(('m, 'l, 'x) memory \<Rightarrow> 'm \<Rightarrow> addr set) \<Rightarrow> ('m, 'l, 'x) memory \<Rightarrow> sliceHeader option \<Rightarrow> addr set" where
  "item_cells mc h s = (\<Union>s \<in> set_option s. slice_cells usages_of (usage_cells mc) h s)"

definition copy_items ::
    "('m, 'l, 'x) metaLib \<Rightarrow> sliceHeader option \<Rightarrow> ('m, 'l, 'x) memory \<Rightarrow> sliceHeader option \<times> ('m, 'l, 'x) memory" where
  "copy_items M s h = (case s of None \<Rightarrow> (None, h)
     | Some s \<Rightarrow> apfst Some (copy_slice UsagesCell usages_of (zero_usage M) (usage_DeepCopyInto M) s h))"

lemma items_copier:
  assumes "deep_copier mv mr mc (metaDeepCopyInto M)"
  shows "deep_copier (valid_items mv) (read_items mr) (item_cells mc) (copy_items M)"
proof
  note S = slice_copier.slices_copied[OF usages_copier[OF assms], where zero = "zero_usage M"]
  fix h :: "('a, 'b, 'c) memory" and s h'
  assume v: "valid_items mv h s"
  show "item_cells mc h s \<subseteq> {..<limit h}"
    using v deep_copier.allocated[OF S] by (cases s) (simp_all add: valid_items_def item_cells_def)
  assume "agree (item_cells mc h s) h h'"
  then show "valid_items mv h' s \<and> read_items mr h' s = read_items mr h s \<and> item_cells mc h' s = item_cells mc h s"
    using v deep_copier.depends[OF S, of h _ h']
    by (cases s) (simp_all add: valid_items_def item_cells_def read_items_def)
next
  note S = slice_copier.slices_copied[OF usages_copier[OF assms], where zero = "zero_usage M"]
  fix h :: "('a, 'b, 'c) memory" and s s' h'
  assume v: "valid_items mv h s" and run: "copy_items M s h = (s', h')"
  show "agree {..<limit h} h h' \<and> valid_items mv h' s' \<and> read_items mr h' s' = read_items mr h s \<and>
      item_cells mc h' s' \<subseteq> {limit h..<limit h'}"
  proof (cases s)
    case None
    then show ?thesis using run v by (auto simp: copy_items_def item_cells_def)
  next
    case (Some w)
    obtain t h2 where copy: "copy_slice UsagesCell usages_of (zero_usage M) (usage_DeepCopyInto M) w h = (t, h2)" by force
    then have "s' = Some t" "h' = h2" using run by (simp_all add: copy_items_def Some)
    then show ?thesis
      using deep_copier.copied[OF S _ copy] v
      by (simp add: Some valid_items_def read_items_def item_cells_def)
  qed
qed

definition valid_list ::
    "(('m, 'l, 'x) memory \<Rightarrow> 'm \<Rightarrow> bool) \<Rightarrow> (('m, 'l, 'x) memory \<Rightarrow> 'l \<Rightarrow> bool) \<Rightarrow>
     ('m, 'l, 'x) memory \<Rightarrow> 'l mem_list \<Rightarrow> bool" where
  "valid_list mv lv h xs \<longleftrightarrow> lv h (ml_ListMeta xs) \<and> valid_items mv h (ml_Items xs)"

definition read_list ::
    "(('m, 'l, 'x) memory \<Rightarrow> 'm \<Rightarrow> 'v) \<Rightarrow> (('m, 'l, 'x) memory \<Rightarrow> 'l \<Rightarrow> 'u) \<Rightarrow>
     ('m, 'l, 'x) memory \<Rightarrow> 'l mem_list \<Rightarrow> typeMeta \<times> 'u \<times> (typeMeta \<times> 'v \<times> secretUsageStatus) slice" where
  "read_list mr lr h xs = (ml_TypeMeta xs, lr h (ml_ListMeta xs), read_items mr h (ml_Items xs))"

definition list_cells ::
    "(('m, 'l, 'x) memory \<Rightarrow> 'm \<Rightarrow> addr set) \<Rightarrow> (('m, 'l, 'x) memory \<Rightarrow> 'l \<Rightarrow> addr set) \<Rightarrow>
     ('m, 'l, 'x) memory \<Rightarrow> 'l mem_list \<Rightarrow> addr set" where
  "list_cells mc lc h xs = lc h (ml_ListMeta xs) \<union> item_cells mc h (ml_Items xs)"

lemma list_copier:
  assumes M: "deep_copier mv mr mc (metaDeepCopyInto M)" and N: "deep_copier lv lr lc (listMetaDeepCopyInto M)"
  shows "deep_copier (valid_list mv lv) (read_list mr lr) (list_cells mc lc) (list_DeepCopyInto M)"
proof
  note I = items_copier[OF M]
  fix h :: "('a, 'b, 'c) memory" and xs h'
  assume v: "valid_list mv lv h xs"
  show "list_cells mc lc h xs \<subseteq> {..<limit h}"
    using v deep_copier.allocated[OF N] deep_copier.allocated[OF I] by (simp add: valid_list_def list_cells_def)
  assume "agree (list_cells mc lc h xs) h h'"
  then show "valid_list mv lv h' xs \<and> read_list mr lr h' xs = read_list mr lr h xs \<and> list_cells mc lc h' xs = list_cells mc lc h xs"
    using v deep_copier.depends[OF N, of h _ h'] deep_copier.depends[OF I, of h _ h']
    by (simp add: valid_list_def read_list_def list_cells_def agree_Un)
next
  note I = items_copier[OF M]
  fix h :: "('a, 'b, 'c) memory" and xs xs' h'
  assume v: "valid_list mv lv h xs" and run: "list_DeepCopyInto M xs h = (xs', h')"
  obtain m h1 where m: "listMetaDeepCopyInto M (ml_ListMeta xs) h = (m, h1)" by force
  obtain s h2 where s: "copy_items M (ml_Items xs) h1 = (s, h2)" by force
  have out: "xs' = xs\<lparr>ml_ListMeta := m, ml_Items := s\<rparr>" "h' = h2"
    using run s by (auto simp: list_DeepCopyInto_def copy_items_def m Let_def apfst_def map_prod_def split: option.splits prod.splits)
  show "agree {..<limit h} h h' \<and> valid_list mv lv h' xs' \<and> read_list mr lr h' xs' = read_list mr lr h xs \<and>
      list_cells mc lc h' xs' \<subseteq> {limit h..<limit h'}"
    using both_copied[OF N I _ m _ s] v by (simp add: out valid_list_def read_list_def list_cells_def)
qed

lemma lists_copier:
  assumes "deep_copier mv mr mc (metaDeepCopyInto M)" "deep_copier lv lr lc (listMetaDeepCopyInto M)"
  shows "slice_copier (valid_list mv lv) (read_list mr lr) (list_cells mc lc) (list_DeepCopyInto M) ListsCell lists_of"
  using list_copier[OF assms] by (simp add: slice_copier_def slice_copier_axioms_def)

section \<open>Pointers\<close>

lemma DeepCopy_window:
  "usage_DeepCopy M (Some p) h =
     (let (s, h') = copy_slice UsagesCell usages_of (zero_usage M) (usage_DeepCopyInto M) (window p) h in (Some (base s, 0), h'))"
  "list_DeepCopy M (Some p) h =
     (let (s, h') = copy_slice ListsCell lists_of (zero_list M) (list_DeepCopyInto M) (window p) h in (Some (base s, 0), h'))"
  "status_DeepCopy (Some p) h =
     (let (s, h') = copy_slice StatusesCell statuses_of zero_mem_status status_DeepCopyInto (window p) h in (Some (base s, 0), h'))"
  "reference_DeepCopy (Some p) h =
     (let (s, h') = copy_slice ReferencesCell references_of zero_reference reference_DeepCopyInto (window p) h in (Some (base s, 0), h'))"
  by (simp_all add: usage_DeepCopy_def list_DeepCopy_def status_DeepCopy_def reference_DeepCopy_def
      copy_slice_def window_def alloc_def split: prod.split)

section \<open>Properties\<close>

text \<open>
  \<open>c\<close> points to a copy of what \<open>p\<close> pointed to: nothing that existed was written, the copy
  reads the same, and it does so in every memory where only older cells, those the original
  may share, have changed since; the original in turn is untouched by changes of newer cells.
\<close>

definition independent_copy ::
    "(('m, 'l, 'x) memory \<Rightarrow> ptr \<Rightarrow> 'v) \<Rightarrow> ptr \<Rightarrow> ptr \<Rightarrow> ('m, 'l, 'x) memory \<Rightarrow> ('m, 'l, 'x) memory \<Rightarrow> bool" where
  "independent_copy look p c h h' \<longleftrightarrow>
     agree {..<limit h} h h' \<and> look h' c = look h p \<and>
     (\<forall>h''. agree {limit h..<limit h'} h' h'' \<longrightarrow> look h'' c = look h p) \<and>
     (\<forall>h''. agree {..<limit h} h' h'' \<longrightarrow> look h'' p = look h p)"

lemma window_independent:
  assumes "slice_copier valid reading cells copy wrap elts"
    and "valid_slice wrap elts valid h (window p)" "copy_slice wrap elts zero copy (window p) h = (s, h')"
  shows "independent_copy (\<lambda>h p. reading h (load elts p h)) p (base s, 0) h h'"
  unfolding independent_copy_def using slice_copier.pointer_copied(2-)[OF assms] by blast

text \<open>
  C24: copying a SecretUsage gives an independent copy: equal in type, metadata and status, and
  no later write through the original (to its optional flags, its list of references or its
  metadata) shows in it, nor the other way round. \<open>DeepCopyObject\<close> returns the same pointer.
\<close>
theorem usage_DeepCopy_independent:
  assumes "deep_copier mv mr mc (metaDeepCopyInto M)"
    and "valid_slice UsagesCell usages_of (valid_usage mv) h (window p)"
    and "usage_DeepCopy M (Some p) h = (q, h')"
  shows "\<exists>c. q = Some c \<and> independent_copy (\<lambda>h p. read_usage mr h (load usages_of p h)) p c h h' \<and>
    usage_DeepCopyObject M (Some p) h = (Some (SecretUsagePtr c), h')"
proof -
  obtain s h2 where copy: "copy_slice UsagesCell usages_of (zero_usage M) (usage_DeepCopyInto M) (window p) h = (s, h2)" by force
  then have q: "q = Some (base s, 0)" "h' = h2" using assms(3) by (simp_all add: DeepCopy_window)
  show ?thesis
    using window_independent[OF usages_copier[OF assms(1)] assms(2) copy] assms(3)
    by (simp add: q usage_DeepCopyObject_def)
qed

text \<open>
  C27: the same for a list of SecretUsage objects, with every item and everything in it.
\<close>
theorem list_DeepCopy_independent:
  assumes "deep_copier mv mr mc (metaDeepCopyInto M)" and "deep_copier lv lr lc (listMetaDeepCopyInto M)"
    and "valid_slice ListsCell lists_of (valid_list mv lv) h (window p)"
    and "list_DeepCopy M (Some p) h = (q, h')"
  shows "\<exists>c. q = Some c \<and> independent_copy (\<lambda>h p. read_list mr lr h (load lists_of p h)) p c h h' \<and>
    list_DeepCopyObject M (Some p) h = (Some (SecretUsageListPtr c), h')"
proof -
  obtain s h2 where copy: "copy_slice ListsCell lists_of (zero_list M) (list_DeepCopyInto M) (window p) h = (s, h2)" by force
  then have q: "q = Some (base s, 0)" "h' = h2" using assms(4) by (simp_all add: DeepCopy_window)
  show ?thesis
    using window_independent[OF lists_copier[OF assms(1,2)] assms(3) copy] assms(4)
    by (simp add: q list_DeepCopyObject_def)
qed

section \<open>An example\<close>

text \<open>Metadata that is a pointer to one cell of the library, and a SecretUsage in memory.\<close>

definition example_meta_copy :: "addr \<Rightarrow> (addr, addr, string) memory \<Rightarrow> addr \<times> (addr, addr, string) memory" where
  "example_meta_copy a h = (case store h a of Some c \<Rightarrow> alloc c h | None \<Rightarrow> (a, h))"

definition example_metas :: "(addr, addr, string) metaLib" where
  "example_metas = \<lparr>zeroMeta = 0, metaDeepCopyInto = example_meta_copy, zeroListMeta = 0, listMetaDeepCopyInto = example_meta_copy\<rparr>"

lemma example_meta_copier:
  "deep_copier (\<lambda>h a. a < limit h \<and> store h a \<noteq> None) (\<lambda>h a. store h a) (\<lambda>h a. {a}) example_meta_copy"
  by unfold_locales (auto simp: agree_def example_meta_copy_def alloc_def)

definition example_memory :: "(addr, addr, string) memory" where
  "example_memory =
     \<lparr>store = [0 \<mapsto> LibCell ''labels'', 1 \<mapsto> BoolCell True,
        2 \<mapsto> ReferencesCell [zero_reference\<lparr>r_Optional := Some 1\<rparr>],
        3 \<mapsto> UsagesCell [\<lparr>mu_TypeMeta = zero_typeMeta, mu_ObjectMeta = 0, mu_Spec = (),
          mu_Status = zero_mem_status\<lparr>ms_Usages := Some \<lparr>base = 2, offset = 0, len = 1\<rparr>\<rparr>\<rparr>],
        4 \<mapsto> ListsCell [\<lparr>ml_TypeMeta = zero_typeMeta, ml_ListMeta = 0, ml_Items = Some \<lparr>base = 3, offset = 0, len = 1\<rparr>\<rparr>]],
      limit = 5\<rparr>"

lemma example_usage_valid:
  "valid_slice UsagesCell usages_of (valid_usage (\<lambda>h a. a < limit h \<and> store h a \<noteq> None)) example_memory \<lparr>base = 3, offset = 0, len = 1\<rparr>"
  by (auto simp: valid_slice_def element_def load_def array_at_def valid_usage_def valid_status_def valid_reference_def
      example_memory_def zero_mem_status_def)

lemma example_list_valid:
  "valid_slice ListsCell lists_of (valid_list (\<lambda>h a. a < limit h \<and> store h a \<noteq> None) (\<lambda>h a. a < limit h \<and> store h a \<noteq> None))
     example_memory (window (4, 0))"
proof -
  have "element lists_of (window (4, 0)) example_memory 0 =
      \<lparr>ml_TypeMeta = zero_typeMeta, ml_ListMeta = 0, ml_Items = Some \<lparr>base = 3, offset = 0, len = 1\<rparr>\<rparr>"
    by (simp add: element_def load_def array_at_def window_def example_memory_def)
  moreover have "store example_memory 4 = Some (ListsCell
      [\<lparr>ml_TypeMeta = zero_typeMeta, ml_ListMeta = 0, ml_Items = Some \<lparr>base = 3, offset = 0, len = 1\<rparr>\<rparr>])"
    "store example_memory 0 \<noteq> None" "limit example_memory = 5"
    by (simp_all add: example_memory_def)
  ultimately show ?thesis
    using example_usage_valid by (simp add: valid_slice_def valid_list_def valid_items_def) (simp add: window_def)
qed

text \<open>The flag is flipped through the original after the copy.\<close>

theorem usage_DeepCopy_independent_witness:
  "\<exists>c h'. usage_DeepCopy example_metas (Some (3, 0)) example_memory = (Some c, h') \<and>
     read_usage (\<lambda>h a. store h a) (put_cell 1 (BoolCell False) h') (load usages_of c (put_cell 1 (BoolCell False) h')) =
     read_usage (\<lambda>h a. store h a) example_memory (load usages_of (3, 0) example_memory)"
proof -
  obtain q h' where run: "usage_DeepCopy example_metas (Some (3, 0)) example_memory = (q, h')" by force
  have M: "deep_copier (\<lambda>h a. a < limit h \<and> store h a \<noteq> None) (\<lambda>h a. store h a) (\<lambda>h a. {a}) (metaDeepCopyInto example_metas)"
    using example_meta_copier by (simp add: example_metas_def)
  have "agree {limit example_memory..<limit h'} h' (put_cell 1 (BoolCell False) h')"
    by (rule agree_put) (simp add: example_memory_def)
  then show ?thesis
    using usage_DeepCopy_independent[OF M _ run] example_usage_valid
    by (auto simp: independent_copy_def window_def run)
qed

theorem list_DeepCopy_independent_witness:
  "\<exists>c h'. list_DeepCopy example_metas (Some (4, 0)) example_memory = (Some c, h') \<and>
     read_list (\<lambda>h a. store h a) (\<lambda>h a. store h a) h' (load lists_of c h') =
     read_list (\<lambda>h a. store h a) (\<lambda>h a. store h a) example_memory (load lists_of (4, 0) example_memory)"
proof -
  obtain q h' where run: "list_DeepCopy example_metas (Some (4, 0)) example_memory = (q, h')" by force
  have M: "deep_copier (\<lambda>h a. a < limit h \<and> store h a \<noteq> None) (\<lambda>h a. store h a) (\<lambda>h a. {a}) (metaDeepCopyInto example_metas)"
    and N: "deep_copier (\<lambda>h a. a < limit h \<and> store h a \<noteq> None) (\<lambda>h a. store h a) (\<lambda>h a. {a}) (listMetaDeepCopyInto example_metas)"
    using example_meta_copier by (simp_all add: example_metas_def)
  show ?thesis
    using list_DeepCopy_independent[OF M N example_list_valid run] by (auto simp: independent_copy_def run)
qed

end
