(* ===== verification/UsageJson.thy ===== *)
theory UsageJson
  imports UsageApi "HOL-Library.Monad_Syntax"
begin

text \<open>
  The JSON form of a \<open>SecretUsage\<close>: what the \<open>json\<close> tags of \<open>api/v1alpha1/secretusage_types.go\<close>
  make of its status, decoding it again, and the schema of the CustomResourceDefinition
  (\<open>config/crd/bases\<close>), which the API server validates and prunes every write against. Strings
  are those of API objects, so valid UTF-8, which JSON keeps. Members of an object have distinct
  names. Metadata is encoded by apimachinery: its members are a parameter.
\<close>

section \<open>Encoding\<close>

text \<open>A member tagged \<open>omitempty\<close>.\<close>

definition omitempty :: "bool \<Rightarrow> string \<Rightarrow> json \<Rightarrow> (string \<times> json) list" where
  "omitempty e k j = (if e then [] else [(k, j)])"

definition reference_json :: "secretUsageReference \<Rightarrow> json" where
  "reference_json u = JObj
     ([(''apiVersion'', JStr (u_APIVersion u)), (''kind'', JStr (u_Kind u)),
       (''namespace'', JStr (u_Namespace u)), (''name'', JStr (u_Name u))] @
      omitempty (u_UID u = []) ''uid'' (JStr (u_UID u)) @
      [(''fieldPath'', JStr (u_FieldPath u))] @
      omitempty (u_Container u = []) ''container'' (JStr (u_Container u)) @
      omitempty (u_Key u = []) ''key'' (JStr (u_Key u)) @
      (case u_Optional u of None \<Rightarrow> [] | Some b \<Rightarrow> [(''optional'', JBool b)]))"

definition status_json :: "secretUsageStatus \<Rightarrow> json" where
  "status_json st = JObj
     (omitempty (st_SecretName st = []) ''secretName'' (JStr (st_SecretName st)) @
      [(''exists'', JBool (Exists st)), (''usageCount'', JNum (sint (UsageCount st)))] @
      omitempty (\<not> Truncated st) ''truncated'' (JBool (Truncated st)) @
      omitempty (elems (Usages st) = []) ''usages'' (JArr (map reference_json (elems (Usages st)))))"

text \<open>
  A whole object, with the type the scheme knows it by. \<open>spec\<close> is an empty struct, which
  \<open>omitempty\<close> does not leave out.
\<close>

definition usage_json :: "(objectMeta \<Rightarrow> (string \<times> json) list) \<Rightarrow> secretUsage \<Rightarrow> json" where
  "usage_json meta su = JObj
     [(''kind'', JStr ''SecretUsage''),
      (''apiVersion'', JStr (gv_Group usageGroupVersion @ ''/'' @ gv_Version usageGroupVersion)),
      (''metadata'', JObj (meta (ObjectMeta su))), (''spec'', JObj []), (''status'', status_json (Status su))]"

section \<open>Decoding\<close>

text \<open>
  A member that is absent or null leaves the zero value; one of the wrong type, or a number that
  does not fit, is an error (\<open>None\<close>).
\<close>

definition decode_string :: "(string \<times> json) list \<Rightarrow> string \<Rightarrow> string option" where
  "decode_string kvs k =
     (case map_of kvs k of None \<Rightarrow> Some [] | Some JNull \<Rightarrow> Some [] | Some (JStr s) \<Rightarrow> Some s | Some _ \<Rightarrow> None)"

definition decode_bool :: "(string \<times> json) list \<Rightarrow> string \<Rightarrow> bool option" where
  "decode_bool kvs k =
     (case map_of kvs k of None \<Rightarrow> Some False | Some JNull \<Rightarrow> Some False | Some (JBool b) \<Rightarrow> Some b | Some _ \<Rightarrow> None)"

definition decode_bool_pointer :: "(string \<times> json) list \<Rightarrow> string \<Rightarrow> bool option option" where
  "decode_bool_pointer kvs k =
     (case map_of kvs k of None \<Rightarrow> Some None | Some JNull \<Rightarrow> Some None | Some (JBool b) \<Rightarrow> Some (Some b) | Some _ \<Rightarrow> None)"

definition decode_int32 :: "(string \<times> json) list \<Rightarrow> string \<Rightarrow> int32 option" where
  "decode_int32 kvs k =
     (case map_of kvs k of
        None \<Rightarrow> Some 0
      | Some JNull \<Rightarrow> Some 0
      | Some (JNum n) \<Rightarrow> if - (2 ^ 31) \<le> n \<and> n < 2 ^ 31 then Some (int32_of_int n) else None
      | Some _ \<Rightarrow> None)"

definition decode_slice :: "(json \<Rightarrow> 'a option) \<Rightarrow> (string \<times> json) list \<Rightarrow> string \<Rightarrow> 'a slice option" where
  "decode_slice dec kvs k =
     (case map_of kvs k of
        None \<Rightarrow> Some NilSlice
      | Some JNull \<Rightarrow> Some NilSlice
      | Some (JArr js) \<Rightarrow> map_option Slice (those (map dec js))
      | Some _ \<Rightarrow> None)"

definition decode_members :: "((string \<times> json) list \<Rightarrow> 'a option) \<Rightarrow> json \<Rightarrow> 'a option" where
  "decode_members dec j = (case j of JObj kvs \<Rightarrow> dec kvs | JNull \<Rightarrow> dec [] | _ \<Rightarrow> None)"

definition reference_of_json :: "json \<Rightarrow> secretUsageReference option" where
  "reference_of_json = decode_members (\<lambda>kvs. do {
     api \<leftarrow> decode_string kvs ''apiVersion'';
     kind \<leftarrow> decode_string kvs ''kind'';
     ns \<leftarrow> decode_string kvs ''namespace'';
     name \<leftarrow> decode_string kvs ''name'';
     uid \<leftarrow> decode_string kvs ''uid'';
     path \<leftarrow> decode_string kvs ''fieldPath'';
     container \<leftarrow> decode_string kvs ''container'';
     key \<leftarrow> decode_string kvs ''key'';
     opt \<leftarrow> decode_bool_pointer kvs ''optional'';
     Some \<lparr>u_APIVersion = api, u_Kind = kind, u_Namespace = ns, u_Name = name, u_UID = uid,
       u_FieldPath = path, u_Container = container, u_Key = key, u_Optional = opt\<rparr> })"

definition status_of_json :: "json \<Rightarrow> secretUsageStatus option" where
  "status_of_json = decode_members (\<lambda>kvs. do {
     name \<leftarrow> decode_string kvs ''secretName'';
     exs \<leftarrow> decode_bool kvs ''exists'';
     cnt \<leftarrow> decode_int32 kvs ''usageCount'';
     tr \<leftarrow> decode_bool kvs ''truncated'';
     us \<leftarrow> decode_slice reference_of_json kvs ''usages'';
     Some \<lparr>st_SecretName = name, Exists = exs, UsageCount = cnt, Truncated = tr, Usages = us\<rparr> })"

section \<open>Round trip\<close>

lemma map_of_omitempty [simp]:
  "map_of (omitempty e k j) = (if e then Map.empty else [k \<mapsto> j])"
  by (simp add: omitempty_def)

lemma those_map_Some: "(\<And>x. x \<in> set xs \<Longrightarrow> g (f x) = Some x) \<Longrightarrow> those (map g (map f xs)) = Some xs"
  by (induction xs) auto

lemmas decode_defs = decode_members_def decode_string_def decode_bool_def decode_bool_pointer_def
  decode_int32_def decode_slice_def

lemma reference_of_reference_json: "reference_of_json (reference_json u) = Some u"
  by (cases u; cases "u_Optional u")
    (simp_all add: reference_of_json_def reference_json_def decode_defs map_add_def split: option.split)

lemma sint_int32_in_range: "- (2 ^ 31) \<le> sint (n :: int32) \<and> sint n < 2 ^ 31"
  using sint_greater_eq[of n] sint_less[of n] by simp

lemma int32_of_sint [simp]: "int32_of_int (sint n) = n"
  by (simp add: int32_of_int_def)

lemma status_of_status_json: "status_of_json (status_json st) = Some (wire_status st)"
proof -
  have refs: "those (map reference_of_json (map reference_json us)) = Some us" for us
    by (rule those_map_Some) (rule reference_of_reference_json)
  show ?thesis
    by (cases st; cases "Usages st")
      (simp_all add: status_of_json_def status_json_def decode_defs map_add_def refs[unfolded list.map_comp]
        sint_int32_in_range[simplified] wire_status_def)
qed

section \<open>The schema\<close>

text \<open>
  Structural schemas as far as the CustomResourceDefinition uses them: an object has declared
  properties and required ones; \<open>MetadataSchema\<close> is the metadata of the root, which the server
  treats itself.
\<close>

datatype schema =
    BooleanSchema
  | StringSchema
  | Int32Schema
  | MetadataSchema
  | ArraySchema schema
  | ObjectSchema "(string \<times> schema) list" "string list"

fun accepts :: "schema \<Rightarrow> json \<Rightarrow> bool"
  and accepts_members :: "(string \<times> schema) list \<Rightarrow> (string \<times> json) list \<Rightarrow> bool"
  and accepts_items :: "schema \<Rightarrow> json list \<Rightarrow> bool" where
  "accepts BooleanSchema (JBool b) = True"
| "accepts StringSchema (JStr s) = True"
| "accepts Int32Schema (JNum n) = (- (2 ^ 31) \<le> n \<and> n < 2 ^ 31)"
| "accepts MetadataSchema (JObj kvs) = True"
| "accepts (ArraySchema s) (JArr js) = accepts_items s js"
| "accepts (ObjectSchema props required) (JObj kvs) =
     (list_all (\<lambda>k. k \<in> set (map fst kvs)) required \<and> accepts_members props kvs)"
| "accepts _ _ = False"
| "accepts_members props [] = True"
| "accepts_members props ((k, j) # kvs) =
     ((case map_of props k of None \<Rightarrow> True | Some s \<Rightarrow> accepts s j) \<and> accepts_members props kvs)"
| "accepts_items s [] = True"
| "accepts_items s (j # js) = (accepts s j \<and> accepts_items s js)"

text \<open>Pruning: members that are not declared are dropped.\<close>

fun prune :: "schema \<Rightarrow> json \<Rightarrow> json"
  and prune_members :: "(string \<times> schema) list \<Rightarrow> (string \<times> json) list \<Rightarrow> (string \<times> json) list"
  and prune_items :: "schema \<Rightarrow> json list \<Rightarrow> json list" where
  "prune (ArraySchema s) (JArr js) = JArr (prune_items s js)"
| "prune (ObjectSchema props required) (JObj kvs) = JObj (prune_members props kvs)"
| "prune _ j = j"
| "prune_members props [] = []"
| "prune_members props ((k, j) # kvs) =
     (case map_of props k of None \<Rightarrow> [] | Some s \<Rightarrow> [(k, prune s j)]) @ prune_members props kvs"
| "prune_items s [] = []"
| "prune_items s (j # js) = prune s j # prune_items s js"

definition reference_schema :: schema where
  "reference_schema = ObjectSchema
     [(''apiVersion'', StringSchema), (''container'', StringSchema), (''fieldPath'', StringSchema),
      (''key'', StringSchema), (''kind'', StringSchema), (''name'', StringSchema),
      (''namespace'', StringSchema), (''optional'', BooleanSchema), (''uid'', StringSchema)]
     [''apiVersion'', ''fieldPath'', ''kind'', ''name'', ''namespace'']"

definition status_schema :: schema where
  "status_schema = ObjectSchema
     [(''exists'', BooleanSchema), (''secretName'', StringSchema), (''truncated'', BooleanSchema),
      (''usageCount'', Int32Schema), (''usages'', ArraySchema reference_schema)]
     [''exists'', ''usageCount'']"

definition crd_schema :: schema where
  "crd_schema = ObjectSchema
     [(''apiVersion'', StringSchema), (''kind'', StringSchema), (''metadata'', MetadataSchema),
      (''spec'', ObjectSchema [] []), (''status'', status_schema)] []"

lemma accepts_members_append [simp]:
  "accepts_members props (kvs @ kvs') \<longleftrightarrow> accepts_members props kvs \<and> accepts_members props kvs'"
  by (induction kvs) auto

lemma prune_members_append [simp]:
  "prune_members props (kvs @ kvs') = prune_members props kvs @ prune_members props kvs'"
  by (induction kvs) auto

lemma accepts_items_list_all: "accepts_items s js \<longleftrightarrow> list_all (accepts s) js"
  by (induction js) auto

lemma prune_items_map: "prune_items s js = map (prune s) js"
  by (induction js) auto

lemma accepts_members_omitempty [simp]:
  "accepts_members props (omitempty e k j) \<longleftrightarrow>
     e \<or> (case map_of props k of None \<Rightarrow> True | Some s \<Rightarrow> accepts s j)"
  by (simp add: omitempty_def)

lemma prune_members_omitempty [simp]:
  "prune_members props (omitempty e k j) =
     (if e then [] else case map_of props k of None \<Rightarrow> [] | Some s \<Rightarrow> [(k, prune s j)])"
  by (simp add: omitempty_def)

lemma reference_json_fits:
  "accepts reference_schema (reference_json u) \<and> prune reference_schema (reference_json u) = reference_json u"
  by (cases "u_Optional u") (simp_all add: reference_schema_def reference_json_def omitempty_def)

lemma status_json_fits:
  "accepts status_schema (status_json st) \<and> prune status_schema (status_json st) = status_json st"
  using reference_json_fits sint_int32_in_range[of "UsageCount st"]
  by (simp add: status_schema_def status_json_def accepts_items_list_all prune_items_map list_all_iff omitempty_def)

lemma status_json_wire [simp]: "status_json (wire_status st) = status_json st"
  by (simp add: status_json_def wire_status_def)

section \<open>Properties\<close>

text \<open>
  C26: a status that is encoded and decoded comes back as it was, except that an empty list of
  usages has become nil; and two statuses have the same JSON form exactly when they agree up to
  that. This is what comparing a desired status with one that was read can tell apart.
\<close>
theorem status_round_trip:
  "status_of_json (status_json st) = Some (wire_status st) \<and>
   (status_json st = status_json st' \<longleftrightarrow> wire_status st = wire_status st')"
  by (metis status_of_status_json status_json_wire option.inject)

text \<open>
  C25: the Go types and the CustomResourceDefinition agree: the JSON form of every SecretUsage is
  valid under the schema, and the server prunes nothing from it.
\<close>
theorem usage_fits_schema:
  "accepts crd_schema (usage_json meta su) \<and> prune crd_schema (usage_json meta su) = usage_json meta su"
  using status_json_fits[of "Status su"] by (simp add: crd_schema_def usage_json_def)

end
