(* ===== verification/Flags.thy ===== *)
theory Flags
  imports Startup
begin

text \<open>
  The command line: package \<open>flag\<close> as far as \<open>main\<close> uses it, and \<open>main\<close> as a whole. A flag is a
  text that \<open>Set\<close> parses into the variable it was registered with. Flags that libraries register on the same
  command line (\<open>zap.Options.BindFlags\<close>, and \<open>--kubeconfig\<close> of controller-runtime) are parameters,
  with variables of their own, of type \<open>'z\<close>.
\<close>

section \<open>strconv.ParseInt with base 0 and 64 bits\<close>

text \<open>\<open>lower(c)\<close> is \<open>c | 0x20\<close>: it sets the bit of weight 32.\<close>

definition lower :: "char \<Rightarrow> nat" where
  "lower c = (let n = of_char c in if n div 32 mod 2 = 1 then n else n + 32)"

text \<open>The base a numeral selects by its prefix, and the rest.\<close>

definition split_base :: "string \<Rightarrow> nat \<times> string" where
  "split_base s =
     (if s = [] \<or> hd s \<noteq> CHR ''0'' then (10, s)
      else if length s \<ge> 3 \<and> lower (s ! 1) = of_char CHR ''b'' then (2, drop 2 s)
      else if length s \<ge> 3 \<and> lower (s ! 1) = of_char CHR ''o'' then (8, drop 2 s)
      else if length s \<ge> 3 \<and> lower (s ! 1) = of_char CHR ''x'' then (16, drop 2 s)
      else (8, tl s))"

definition digit_of :: "char \<Rightarrow> nat option" where
  "digit_of c =
     (if is_digit c then Some (digit_val c)
      else if of_char CHR ''a'' \<le> lower c \<and> lower c \<le> of_char CHR ''z'' then Some (lower c - of_char CHR ''a'' + 10)
      else None)"

fun parse_digits :: "nat \<Rightarrow> string \<Rightarrow> nat \<Rightarrow> nat option" where
  "parse_digits base [] n = Some n"
| "parse_digits base (c # cs) n =
     (if c = CHR ''_'' then parse_digits base cs n
      else case digit_of c of
             None \<Rightarrow> None
           | Some d \<Rightarrow> if d \<ge> base \<or> n * base + d \<ge> 2 ^ 64 then None else parse_digits base cs (n * base + d))"

text \<open>
  \<open>underscoreOK\<close>: underscores stand between digits only; a base prefix counts as a digit. The
  class of the last character is '0' (digit), '_', '!' (other) or '^' (start).
\<close>

fun underscores_ok :: "bool \<Rightarrow> char \<Rightarrow> string \<Rightarrow> bool" where
  "underscores_ok hex saw [] = (saw \<noteq> CHR ''_'')"
| "underscores_ok hex saw (c # cs) =
     (if is_digit c \<or> hex \<and> of_char CHR ''a'' \<le> lower c \<and> lower c \<le> of_char CHR ''f'' then underscores_ok hex CHR ''0'' cs
      else if c = CHR ''_'' then saw = CHR ''0'' \<and> underscores_ok hex CHR ''_'' cs
      else saw \<noteq> CHR ''_'' \<and> underscores_ok hex CHR ''!'' cs)"

definition underscoreOK :: "string \<Rightarrow> bool" where
  "underscoreOK s =
     (if length s \<ge> 2 \<and> hd s = CHR ''0'' \<and>
         (lower (s ! 1) = of_char CHR ''b'' \<or> lower (s ! 1) = of_char CHR ''o'' \<or> lower (s ! 1) = of_char CHR ''x'')
      then underscores_ok (lower (s ! 1) = of_char CHR ''x'') CHR ''0'' (drop 2 s)
      else underscores_ok False CHR ''^'' s)"

definition ParseUint :: "string \<Rightarrow> nat option" where
  "ParseUint s =
     (if s = [] then None
      else let (base, ds) = split_base s in
        case parse_digits base ds 0 of
          None \<Rightarrow> None
        | Some un \<Rightarrow> if CHR ''_'' \<in> set ds \<and> \<not> underscoreOK s then None else Some un)"

definition ParseInt :: "string \<Rightarrow> int option" where
  "ParseInt s =
     (let (neg, t) = split_sign s in
      case ParseUint t of
        None \<Rightarrow> None
      | Some un \<Rightarrow>
          if \<not> neg \<and> un \<ge> 2 ^ 63 then None
          else if neg \<and> un > 2 ^ 63 then None
          else Some (if neg then - int un else int un))"

section \<open>flag\<close>

text \<open>A flag on variables \<open>'v\<close>: whether it is boolean, and what setting it to a text does.\<close>

record 'v flagVar =
  IsBoolFlag :: bool
  Set :: "string \<Rightarrow> 'v \<Rightarrow> 'v option"

definition StringVar :: "((string \<Rightarrow> string) \<Rightarrow> 'v \<Rightarrow> 'v) \<Rightarrow> 'v flagVar" where
  "StringVar upd = \<lparr>IsBoolFlag = False, Set = (\<lambda>s v. Some (upd (\<lambda>_. s) v))\<rparr>"

definition IntVar :: "((int \<Rightarrow> int) \<Rightarrow> 'v \<Rightarrow> 'v) \<Rightarrow> 'v flagVar" where
  "IntVar upd = \<lparr>IsBoolFlag = False, Set = (\<lambda>s v. map_option (\<lambda>n. upd (\<lambda>_. n) v) (ParseInt s))\<rparr>"

definition BoolVar :: "((bool \<Rightarrow> bool) \<Rightarrow> 'v \<Rightarrow> 'v) \<Rightarrow> 'v flagVar" where
  "BoolVar upd = \<lparr>IsBoolFlag = True, Set = (\<lambda>s v. map_option (\<lambda>b. upd (\<lambda>_. b) v) (ParseBool s))\<rparr>"

text \<open>
  \<open>parseOne\<close>: a flag was seen, with the variables and the arguments that remain; or there is no
  further flag; or the arguments are wrong; or help was asked for. A flag is \<open>-name\<close> or
  \<open>--name\<close>, with \<open>=value\<close> or with its value as the next argument, which a boolean flag never takes.
\<close>

datatype 'v oneFlag = Seen 'v "string list" | NoFlag "string list" | BadFlag | ErrHelp

definition parseOne :: "(string \<times> 'v flagVar) list \<Rightarrow> 'v \<Rightarrow> string list \<Rightarrow> 'v oneFlag" where
  "parseOne formal v args =
     (case args of
        [] \<Rightarrow> NoFlag []
      | s # rest \<Rightarrow>
          if length s < 2 \<or> hd s \<noteq> CHR ''-'' then NoFlag args
          else if s = ''--'' then NoFlag rest
          else
            (let nm = (if s ! 1 = CHR ''-'' then drop 2 s else drop 1 s) in
             if nm = [] \<or> hd nm = CHR ''-'' \<or> hd nm = CHR ''='' then BadFlag
             else
               (let name = takeWhile (\<lambda>c. c \<noteq> CHR ''='') nm;
                    hasValue = (CHR ''='' \<in> set nm);
                    val = drop (length name + 1) nm
                in case map_of formal name of
                     None \<Rightarrow> if name = ''help'' \<or> name = ''h'' then ErrHelp else BadFlag
                   | Some fv \<Rightarrow>
                       if IsBoolFlag fv then
                         (case Set fv (if hasValue then val else ''true'') v of
                            None \<Rightarrow> BadFlag
                          | Some v \<Rightarrow> Seen v rest)
                       else if hasValue then
                         (case Set fv val v of None \<Rightarrow> BadFlag | Some v \<Rightarrow> Seen v rest)
                       else
                         (case rest of
                            [] \<Rightarrow> BadFlag
                          | val # rest \<Rightarrow>
                              (case Set fv val v of None \<Rightarrow> BadFlag | Some v \<Rightarrow> Seen v rest)))))"

text \<open>
  \<open>Parse\<close> runs \<open>parseOne\<close> until no further flag is seen. The loop has no bound in the code, so
  not returning is the value \<open>None\<close>. On the command line's flag set a wrong argument exits the
  process with status 2, and help with status 0.
\<close>

datatype 'v parsed = Parsed 'v "string list" | Exits nat

partial_function (option) flag_Parse :: "(string \<times> 'v flagVar) list \<Rightarrow> 'v \<Rightarrow> string list \<Rightarrow> 'v parsed option" where
  "flag_Parse formal v args =
     (case parseOne formal v args of
        Seen v rest \<Rightarrow> flag_Parse formal v rest
      | NoFlag rest \<Rightarrow> Some (Parsed v rest)
      | BadFlag \<Rightarrow> Some (Exits 2)
      | ErrHelp \<Rightarrow> Some (Exits 0))"

section \<open>main\<close>

text \<open>The flags of \<open>main\<close>, in the order it registers them.\<close>

definition program_flags :: "(string \<times> flags flagVar) list" where
  "program_flags =
     [(''metrics-bind-address'', StringVar metricsAddr_update),
      (''health-probe-bind-address'', StringVar probeAddr_update),
      (''leader-elect'', BoolVar enableLeaderElection_update),
      (''watch-namespace'', StringVar watchNamespace_update),
      (''max-usages'', IntVar maxUsagesFlag_update),
      (''track-owned-pods'', BoolVar trackOwnedPods_update),
      (''track-unused-secrets'', BoolVar trackUnusedSecrets_update),
      (''per-secret-metrics'', BoolVar perSecretMetrics_update),
      (''rules-file'', StringVar rulesFile_update)]"

text \<open>The command line's flag set: these and the libraries', each on its own variables.\<close>

definition of_program :: "'v flagVar \<Rightarrow> ('v \<times> 'z) flagVar" where
  "of_program fv = \<lparr>IsBoolFlag = IsBoolFlag fv, Set = (\<lambda>s (v, z). map_option (\<lambda>v. (v, z)) (Set fv s v))\<rparr>"

definition of_library :: "'z flagVar \<Rightarrow> ('v \<times> 'z) flagVar" where
  "of_library fv = \<lparr>IsBoolFlag = IsBoolFlag fv, Set = (\<lambda>s (v, z). map_option (\<lambda>z. (v, z)) (Set fv s z))\<rparr>"

definition commandLine :: "(string \<times> 'z flagVar) list \<Rightarrow> (string \<times> (flags \<times> 'z) flagVar) list" where
  "commandLine library = map (apsnd of_program) program_flags @ map (apsnd of_library) library"

text \<open>Registering a flag panics when its name starts with a minus, holds \<open>=\<close>, or is taken.\<close>

definition registrable :: "string list \<Rightarrow> bool" where
  "registrable names \<longleftrightarrow>
     distinct names \<and> list_all (\<lambda>n. \<not> HasPrefix n ''-'' \<and> CHR ''='' \<notin> set n) names"

text \<open>
  How the process ends: by a panic, with a status (1 for an error of \<open>main\<close>), or by returning
  from \<open>main\<close>, with the reconciler the manager ran. The manager is made with what the
  libraries' flags were set to.
\<close>

datatype 'jp process = Panicked | ExitStatus nat | Returned "'jp reconciler"

definition main ::
    "'jp lib \<Rightarrow> ('z \<Rightarrow> 'm runtime) \<Rightarrow> (string \<Rightarrow> goError + string) \<Rightarrow> (string \<Rightarrow> goError + referenceRule list) \<Rightarrow>
     (string \<Rightarrow> string) \<Rightarrow> (string \<times> 'z flagVar) list \<Rightarrow> 'z \<Rightarrow> string list \<Rightarrow>
     ('jp process \<times> 'm option) option" where
  "main L rt ReadFile UnmarshalStrict Getenv library z args =
     (if \<not> registrable (map fst (commandLine library)) then Some (Panicked, None)
      else
        (case flag_Parse (commandLine library) (flag_defaults Getenv, z) args of
           None \<Rightarrow> None
         | Some (Exits n) \<Rightarrow> Some (ExitStatus n, None)
         | Some (Parsed (f, z) rest) \<Rightarrow>
             (case main_run L (rt z) ReadFile UnmarshalStrict f of
                (Exited err, m) \<Rightarrow> Some (ExitStatus 1, m)
              | (Running r, m) \<Rightarrow> Some (Returned r, m))))"

section \<open>Reading numerals\<close>

lemma digit_of_digit: "is_digit c \<Longrightarrow> c \<noteq> CHR ''_'' \<and> digit_of c = Some (digit_val c) \<and> digit_val c < 10"
  by (auto simp: digit_of_def is_digit_def digit_val_def)

lemma decimal_from: "n \<le> fold (\<lambda>c n. 10 * n + digit_val c) ds n"
proof (induction ds arbitrary: n)
  case (Cons c ds)
  show ?case using Cons.IH[of "10 * n + digit_val c"] by simp
qed simp

lemma parse_digits_decimal:
  "list_all is_digit ds \<Longrightarrow> fold (\<lambda>c n. 10 * n + digit_val c) ds n < 2 ^ 64 \<Longrightarrow>
   parse_digits 10 ds n = Some (fold (\<lambda>c n. 10 * n + digit_val c) ds n)"
proof (induction ds arbitrary: n)
  case (Cons c ds)
  let ?m = "10 * n + digit_val c"
  have "?m \<le> fold (\<lambda>c n. 10 * n + digit_val c) ds ?m" by (rule decimal_from)
  then have "n * 10 + digit_val c < 2 ^ 64" using Cons.prems(2) by (simp add: mult.commute)
  moreover have "c \<noteq> CHR ''_''" "digit_of c = Some (digit_val c)" "digit_val c < 10"
    using Cons.prems(1) digit_of_digit[of c] by simp_all
  ultimately show ?case using Cons.IH[of ?m] Cons.prems by (simp add: mult.commute)
qed simp

lemma digits_no_underscore: "list_all is_digit ds \<Longrightarrow> CHR ''_'' \<notin> set ds"
  using digit_of_digit by (fastforce simp: list_all_iff)

lemma ParseUint_decimal:
  assumes "list_all is_digit ds" and "ds \<noteq> []" and "ds = ''0'' \<or> hd ds \<noteq> CHR ''0''" and "decimal ds < 2 ^ 64"
  shows "ParseUint ds = Some (decimal ds)"
proof (cases "hd ds = CHR ''0''")
  case True
  with assms(3) have "ds = ''0''" by simp
  moreover have "ParseUint ''0'' = Some (decimal ''0'')" by code_simp
  ultimately show ?thesis by simp
next
  case False
  then have "split_base ds = (10, ds)" by (simp add: split_base_def)
  then show ?thesis
    using parse_digits_decimal[OF assms(1), of 0] assms(2,4) digits_no_underscore[OF assms(1)]
    by (simp add: ParseUint_def decimal_def)
qed

text \<open>A decimal numeral without superfluous zeros means the same to a flag as to \<open>Atoi\<close>.\<close>

lemma ParseInt_Atoi:
  assumes "Atoi s = Some n" and "snd (split_sign s) = ''0'' \<or> hd (snd (split_sign s)) \<noteq> CHR ''0''"
  shows "ParseInt s = Some n"
proof -
  obtain neg ds where s: "split_sign s = (neg, ds)" by fastforce
  with assms(1) have d: "list_all is_digit ds" "ds \<noteq> []"
    and n: "n = (if neg then - int (decimal ds) else int (decimal ds))" "- max_int - 1 \<le> n" "n \<le> max_int"
    by (auto simp: Atoi_def Let_def split: if_splits)
  from n have le: "neg \<Longrightarrow> decimal ds \<le> 2 ^ 63" and less: "\<not> neg \<Longrightarrow> decimal ds < 2 ^ 63"
    by (auto simp: max_int_def)
  then have "decimal ds < 2 ^ 64" by (cases neg) auto
  then have "ParseUint ds = Some (decimal ds)" using ParseUint_decimal[OF d] assms(2) s by simp
  then show ?thesis using le less n(1) by (cases neg) (force simp: ParseInt_def s)+
qed

lemma itoa_hd: "0 < n \<Longrightarrow> hd (itoa n) \<noteq> CHR ''0''"
proof (induction n rule: itoa.induct)
  case (1 n)
  show ?case
  proof (cases "n < 10")
    case True
    with \<open>0 < n\<close> have "digit_val (digit n) \<noteq> digit_val (digit 0)" by (simp add: digit_inverse)
    moreover have "digit 0 = CHR ''0''" by code_simp
    ultimately show ?thesis using True by (auto simp: itoa.simps[of n])
  next
    case False
    with 1 show ?thesis by (simp add: itoa.simps[of n])
  qed
qed

lemma itoa_0: "itoa 0 = ''0''"
  by code_simp

lemma ParseInt_format_int:
  assumes "- max_int - 1 \<le> n" and "n \<le> max_int"
  shows "ParseInt (format_int n) = Some n"
proof (rule ParseInt_Atoi[OF Atoi_format_int[OF assms]])
  show "snd (split_sign (format_int n)) = ''0'' \<or> hd (snd (split_sign (format_int n))) \<noteq> CHR ''0''"
    using itoa_hd[of "nat n"] itoa_hd[of "nat (- n)"]
    by (cases "n = 0") (auto simp: format_int_def split_sign_itoa itoa_0)
qed

section \<open>Reading a command line\<close>

lemma parseOne_consumes: "parseOne formal v args = Seen v' rest \<Longrightarrow> length rest < length args"
  by (auto simp: parseOne_def Let_def split: list.splits option.splits if_splits)

lemma flag_Parse_Some: "\<exists>out. flag_Parse formal v args = Some out"
proof (induction args arbitrary: v rule: length_induct)
  case (1 args)
  show ?case
  proof (cases "parseOne formal v args")
    case (Seen v' rest)
    with 1 parseOne_consumes[OF Seen] have "\<exists>out. flag_Parse formal v' rest = Some out" by blast
    with Seen show ?thesis by (simp add: flag_Parse.simps[of formal v])
  qed (simp_all add: flag_Parse.simps[of formal v])
qed

definition flag_name :: "string \<Rightarrow> bool" where
  "flag_name n \<longleftrightarrow> n \<noteq> [] \<and> hd n \<noteq> CHR ''-'' \<and> CHR ''='' \<notin> set n"

lemma flag_name_hd: "flag_name n \<Longrightarrow> hd n \<noteq> CHR ''=''"
  by (cases n) (auto simp: flag_name_def)

lemma takeWhile_equals: "CHR ''='' \<notin> set n \<Longrightarrow> takeWhile (\<lambda>c. c \<noteq> CHR ''='') (n @ CHR ''='' # x) = n"
  by (induction n) auto

lemma takeWhile_no_equals: "CHR ''='' \<notin> set n \<Longrightarrow> takeWhile (\<lambda>c. c \<noteq> CHR ''='') n = n"
  by (induction n) auto

lemma parseOne_setting:
  assumes "flag_name n" and "map_of formal n = Some fv"
  shows "parseOne formal v ((''--'' @ n @ ''='' @ x) # rest) =
    (case Set fv x v of None \<Rightarrow> BadFlag | Some v' \<Rightarrow> Seen v' rest)"
  using assms flag_name_hd[OF assms(1)] by (simp add: parseOne_def flag_name_def takeWhile_equals hd_append Let_def)

lemma parseOne_switch:
  assumes "flag_name n" and "map_of formal n = Some fv" and "IsBoolFlag fv"
  shows "parseOne formal v ((''--'' @ n) # rest) =
    (case Set fv ''true'' v of None \<Rightarrow> BadFlag | Some v' \<Rightarrow> Seen v' rest)"
  using assms flag_name_hd[OF assms(1)] by (simp add: parseOne_def flag_name_def takeWhile_no_equals Let_def)

text \<open>
  A command line written as settings: names with their texts, where a boolean flag may stand
  alone. Each is applied to the variables in turn, so the last one for a flag decides.
\<close>

fun setting_arg :: "string \<times> string option \<Rightarrow> string" where
  "setting_arg (n, None) = ''--'' @ n"
| "setting_arg (n, Some x) = ''--'' @ n @ ''='' @ x"

fun apply_settings :: "(string \<times> 'v flagVar) list \<Rightarrow> (string \<times> string option) list \<Rightarrow> 'v \<Rightarrow> 'v option" where
  "apply_settings formal [] v = Some v"
| "apply_settings formal ((n, x) # ss) v =
     (case map_of formal n of
        None \<Rightarrow> None
      | Some fv \<Rightarrow>
          if x = None \<and> \<not> IsBoolFlag fv then None
          else case Set fv (case x of None \<Rightarrow> ''true'' | Some x \<Rightarrow> x) v of
                 None \<Rightarrow> None
               | Some v \<Rightarrow> apply_settings formal ss v)"

lemma flag_Parse_settings:
  "list_all (flag_name \<circ> fst) ss \<Longrightarrow> apply_settings formal ss v = Some v' \<Longrightarrow>
   flag_Parse formal v (map setting_arg ss) = Some (Parsed v' [])"
proof (induction ss arbitrary: v)
  case Nil
  then show ?case by (simp add: flag_Parse.simps parseOne_def)
next
  case (Cons s ss)
  obtain n x where s: "s = (n, x)" by fastforce
  with Cons.prems obtain fv w where fv: "map_of formal n = Some fv" "x = None \<Longrightarrow> IsBoolFlag fv"
    and w: "Set fv (case x of None \<Rightarrow> ''true'' | Some x \<Rightarrow> x) v = Some w" "apply_settings formal ss w = Some v'"
    by (auto split: option.splits if_splits)
  have name: "flag_name n" using Cons.prems(1) s by simp
  have "parseOne formal v (setting_arg s # map setting_arg ss) = Seen w (map setting_arg ss)"
    using parseOne_switch[OF name fv(1)] parseOne_setting[OF name fv(1)] fv(2) w(1)
    by (cases x) (simp_all add: s)
  then show ?case using Cons.IH[OF _ w(2)] Cons.prems(1) by (simp add: flag_Parse.simps[of formal v])
qed

text \<open>A text that a flag rejects ends the process with status 2, whatever follows it.\<close>

lemma flag_Parse_bad_setting:
  assumes "map_of formal n = Some fv" and "Set fv x w = None" and "flag_name n"
  shows "list_all (flag_name \<circ> fst) ss \<Longrightarrow> apply_settings formal ss v = Some w \<Longrightarrow>
    flag_Parse formal v (map setting_arg ss @ setting_arg (n, Some x) # rest) = Some (Exits 2)"
proof (induction ss arbitrary: v)
  case Nil
  then show ?case
    using parseOne_setting[OF assms(3,1)] assms(2) by (simp add: flag_Parse.simps[of formal w])
next
  case (Cons s ss)
  obtain m y where s: "s = (m, y)" by fastforce
  with Cons.prems obtain gv u where gv: "map_of formal m = Some gv" "y = None \<Longrightarrow> IsBoolFlag gv"
    and u: "Set gv (case y of None \<Rightarrow> ''true'' | Some y \<Rightarrow> y) v = Some u" "apply_settings formal ss u = Some w"
    by (auto split: option.splits if_splits)
  have name: "flag_name m" using Cons.prems(1) s by simp
  have "parseOne formal v (setting_arg s # rest') = Seen u rest'" for rest'
    using parseOne_switch[OF name gv(1)] parseOne_setting[OF name gv(1)] gv(2) u(1)
    by (cases y) (simp_all add: s)
  then show ?case using Cons.IH[OF _ u(2)] Cons.prems(1) by (simp add: flag_Parse.simps[of formal v])
qed

end
