(* ===== verification/Chart.thy ===== *)
theory Chart
  imports Flags
begin

text \<open>
  The part of the Helm chart that says how \<open>main\<close> is run:
  \<open>charts/secretusage-controller/templates/deployment.yaml\<close> (arguments, environment, volume and
  mount of the container) and \<open>configmap.yaml\<close> (the file of custom rules). \<open>toYaml\<close> of the
  template engine is a parameter.
\<close>

record chartValues =
  leaderElection_enabled :: bool
  metrics_service_port :: int
  healthProbe_port :: int
  tracking_maxUsages :: int
  tracking_ownedPods :: bool
  tracking_unusedSecrets :: bool
  metrics_perSecret :: bool
  customRules :: "referenceRule list"
  chart_watchNamespace :: string

section \<open>What a template prints\<close>

definition format_bool :: "bool \<Rightarrow> string" where
  "format_bool b = (if b then ''true'' else ''false'')"

text \<open>
  A number of a values file is a float to the template engine, which prints it with the verb
  \<open>%v\<close>: the shortest digits that identify it, in decimal below a million and as \<open>d.ddde+XX\<close> from
  there on. Up to \<open>2 ^ 53\<close> these are the number's own digits without the zeros at the end.
\<close>

definition strip_zeros :: "string \<Rightarrow> string" where
  "strip_zeros ds = rev (dropWhile (\<lambda>c. c = CHR ''0'') (rev ds))"

definition scientific :: "string \<Rightarrow> string" where
  "scientific ds =
     (let frac = strip_zeros (tl ds); e = itoa (length ds - 1) in
      hd ds # (if frac = [] then [] else CHR ''.'' # frac) @ ''e+'' @ (if length e < 2 then CHR ''0'' # e else e))"

definition template_number :: "int \<Rightarrow> string" where
  "template_number n =
     (if \<bar>n\<bar> < 1000000 then format_int n
      else if n < 0 then CHR ''-'' # scientific (itoa (nat (- n)))
      else scientific (itoa (nat n)))"

text \<open>\<open>nindent n\<close> starts a new line and indents every line; \<open>|\<close> in YAML takes the common indent off again.\<close>

abbreviation newline :: char where
  "newline \<equiv> CHR 0x0A"

definition indent_char :: "nat \<Rightarrow> char \<Rightarrow> string" where
  "indent_char n c = (if c = newline then newline # replicate n CHR '' '' else [c])"

definition nindent :: "nat \<Rightarrow> string \<Rightarrow> string" where
  "nindent n s = newline # replicate n CHR '' '' @ concat (map (indent_char n) s)"

fun unindent :: "nat \<Rightarrow> string \<Rightarrow> string" where
  "unindent n [] = []"
| "unindent n (c # cs) = c # (if c = newline then unindent n (drop n cs) else unindent n cs)"

definition block_scalar :: "nat \<Rightarrow> string \<Rightarrow> string" where
  "block_scalar n s = unindent n (drop n s)"

section \<open>deployment.yaml\<close>

definition chart_args :: "chartValues \<Rightarrow> string list" where
  "chart_args v =
     (if leaderElection_enabled v then [''--leader-elect''] else []) @
     [''--metrics-bind-address=:'' @ template_number (metrics_service_port v),
      ''--health-probe-bind-address=:'' @ template_number (healthProbe_port v),
      ''--max-usages='' @ template_number (tracking_maxUsages v),
      ''--track-owned-pods='' @ format_bool (tracking_ownedPods v),
      ''--track-unused-secrets='' @ format_bool (tracking_unusedSecrets v),
      ''--per-secret-metrics='' @ format_bool (metrics_perSecret v)] @
     (if customRules v \<noteq> [] then [''--rules-file=/etc/secretusage/rules.yaml''] else [])"

text \<open>\<open>base\<close> is the environment of the image.\<close>

definition chart_env :: "chartValues \<Rightarrow> (string \<Rightarrow> string) \<Rightarrow> string \<Rightarrow> string" where
  "chart_env v base =
     (if chart_watchNamespace v \<noteq> '''' then base(''WATCH_NAMESPACE'' := chart_watchNamespace v) else base)"

record volumeMount =
  mount_name :: string
  mountPath :: string

record configMapVolume =
  volume_name :: string
  volume_configMap :: string

definition chart_mounts :: "chartValues \<Rightarrow> volumeMount list" where
  "chart_mounts v =
     (if customRules v \<noteq> [] then [\<lparr>mount_name = ''rules'', mountPath = ''/etc/secretusage''\<rparr>] else [])"

text \<open>\<open>fullname\<close> is the name that \<open>_helpers.tpl\<close> makes from the release.\<close>

definition chart_volumes :: "string \<Rightarrow> chartValues \<Rightarrow> configMapVolume list" where
  "chart_volumes fullname v =
     (if customRules v \<noteq> [] then [\<lparr>volume_name = ''rules'', volume_configMap = fullname @ ''-rules''\<rparr>] else [])"

section \<open>configmap.yaml\<close>

record configMap =
  configMap_name :: string
  configMap_data :: "(string \<times> string) list"

definition chart_configMaps :: "(referenceRule list \<Rightarrow> string) \<Rightarrow> string \<Rightarrow> chartValues \<Rightarrow> configMap list" where
  "chart_configMaps toYaml fullname v =
     (if customRules v \<noteq> []
      then [\<lparr>configMap_name = fullname @ ''-rules'',
             configMap_data =
               [(''rules.yaml'', block_scalar 4 (''    rules:'' @ nindent 6 (toYaml (customRules v)) @ [newline]))]\<rparr>]
      else [])"

text \<open>
  The files a container sees: a mount shows the volume of its name, and the volume every entry of
  the data of its ConfigMap as a file of that name.
\<close>

definition mounted_files :: "configMap list \<Rightarrow> configMapVolume list \<Rightarrow> volumeMount list \<Rightarrow> (string \<times> string) list" where
  "mounted_files maps volumes mounts =
     [(mountPath mt @ ''/'' @ key, text).
        mt \<leftarrow> mounts,
        vol \<leftarrow> filter (\<lambda>vol. volume_name vol = mount_name mt) volumes,
        cm \<leftarrow> filter (\<lambda>cm. configMap_name cm = volume_configMap vol) maps,
        (key, text) \<leftarrow> configMap_data cm]"

definition chart_files :: "(referenceRule list \<Rightarrow> string) \<Rightarrow> string \<Rightarrow> chartValues \<Rightarrow> (string \<times> string) list" where
  "chart_files toYaml fullname v =
     mounted_files (chart_configMaps toYaml fullname v) (chart_volumes fullname v) (chart_mounts v)"

section \<open>The file of rules\<close>

lemma unindent_spaces: "unindent n (replicate m CHR '' '' @ s) = replicate m CHR '' '' @ unindent n s"
  by (induction m) simp_all

lemma unindent_indented:
  "unindent n (concat (map (indent_char (n + m)) s) @ t) = concat (map (indent_char m) s) @ unindent n t"
  by (induction s) (simp_all add: indent_char_def replicate_add unindent_spaces)

text \<open>The file holds a mapping of \<open>rules\<close> to what \<open>toYaml\<close> wrote, indented by two.\<close>

definition rules_text :: "string \<Rightarrow> string" where
  "rules_text s = ''rules:'' @ nindent 2 s @ [newline]"

lemma block_scalar_rules: "block_scalar 4 (''    rules:'' @ nindent 6 s @ [newline]) = rules_text s"
proof -
  have "replicate 6 CHR '' '' = replicate 4 CHR '' '' @ replicate 2 CHR '' ''" by (simp add: numeral_eq_Suc)
  then show ?thesis
    using unindent_indented[of 4 2 s "[newline]"] unindent_spaces[of 4 2]
    by (simp add: block_scalar_def nindent_def rules_text_def)
qed

lemma chart_files_rules:
  "chart_files toYaml fullname v =
    (if customRules v = [] then [] else [(''/etc/secretusage/rules.yaml'', rules_text (toYaml (customRules v)))])"
  by (simp add: chart_files_def mounted_files_def chart_mounts_def chart_volumes_def chart_configMaps_def
      block_scalar_rules del: append.simps)

section \<open>Large numbers are no integers to package flag\<close>

definition no_digit :: "nat \<Rightarrow> char \<Rightarrow> bool" where
  "no_digit base c \<longleftrightarrow> c \<noteq> CHR ''_'' \<and> (case digit_of c of None \<Rightarrow> True | Some d \<Rightarrow> base \<le> d)"

lemma parse_digits_stops: "list_ex (no_digit base) s \<Longrightarrow> parse_digits base s n = None"
proof (induction s arbitrary: n)
  case (Cons c s)
  show ?case
  proof (cases "no_digit base c")
    case True
    then show ?thesis by (auto simp: no_digit_def split: option.splits)
  next
    case False
    with Cons show ?thesis by (auto split: option.splits)
  qed
qed simp

lemma scientific_stops: "parse_digits 10 (scientific ds) n = None"
proof -
  have "no_digit 10 CHR ''e''" by code_simp
  then show ?thesis by (intro parse_digits_stops) (simp add: scientific_def Let_def)
qed

lemma ParseUint_scientific:
  assumes "0 < n"
  shows "ParseUint (scientific (itoa n)) = None"
proof -
  have "hd (scientific (itoa n)) \<noteq> CHR ''0''" "scientific (itoa n) \<noteq> []"
    using itoa_hd[OF assms] by (simp_all add: scientific_def Let_def)
  then show ?thesis by (simp add: ParseUint_def split_base_def scientific_stops)
qed

lemma split_sign_scientific: "split_sign (scientific (itoa n)) = (False, scientific (itoa n))"
proof -
  have "split_sign (c # cs) = (False, c # cs)" if "split_sign (c # ds) = (False, c # ds)" for c cs ds
    using that by (auto split: if_splits)
  from this[of "hd (itoa n)" "tl (itoa n)"] show ?thesis
    using split_sign_itoa[of n] by (simp add: scientific_def Let_def)
qed

lemma ParseInt_template_number:
  "ParseInt (template_number n) = (if \<bar>n\<bar> < 1000000 then Some n else None)"
proof (cases "\<bar>n\<bar> < 1000000")
  case True
  then show ?thesis using ParseInt_format_int[of n] by (simp add: template_number_def max_int_def)
next
  case False
  then show ?thesis
    using ParseUint_scientific[of "nat n"] ParseUint_scientific[of "nat (- n)"]
    by (auto simp: template_number_def ParseInt_def split_sign_scientific)
qed

end
