(* ===== verification/FlagProps.thy ===== *)
theory FlagProps
  imports Chart StartupProps
begin

text \<open>
  Properties of \<open>main\<close> with its command line: every configuration can be written as a command
  line, and the container of the Helm chart runs \<open>main\<close> with what the chart's values say, up to a
  limit on one number, and with the rules file it looks for.
\<close>

section \<open>Settings\<close>

lemma Set_of_program: "Set (of_program fv) x (f, z) = map_option (\<lambda>f. (f, z)) (Set fv x f)"
  and Bool_of_program: "IsBoolFlag (of_program fv) = IsBoolFlag fv"
  by (simp_all add: of_program_def)

lemma Set_vars:
  "Set (StringVar upd) x v = Some (upd (\<lambda>_. x) v)"
  "Set (IntVar upd') x v = map_option (\<lambda>n. upd' (\<lambda>_. n) v) (ParseInt x)"
  "Set (BoolVar upd'') x v = map_option (\<lambda>b. upd'' (\<lambda>_. b) v) (ParseBool x)"
  "\<not> IsBoolFlag (StringVar upd)" "\<not> IsBoolFlag (IntVar upd')" "IsBoolFlag (BoolVar upd'')"
  by (simp_all add: StringVar_def IntVar_def BoolVar_def)

lemma commandLine_program:
  "map_of program_flags n = Some fv \<Longrightarrow> map_of (commandLine library) n = Some (of_program fv)"
proof -
  have eq: "map (apsnd of_program) program_flags = map (\<lambda>(k, fv). (k, of_program fv)) program_flags"
    by (rule map_cong) auto
  show "map_of program_flags n = Some fv \<Longrightarrow> map_of (commandLine library) n = Some (of_program fv)"
    unfolding commandLine_def eq by (simp add: map_of_map map_add_Some_iff)
qed

lemma ParseBool_format_bool: "ParseBool (format_bool b) = Some b"
  by (simp add: format_bool_def ParseBool_def)

lemma ParseBool_true: "ParseBool ''true'' = Some True"
  by (simp add: ParseBool_def)

lemmas program_settings = Set_of_program Bool_of_program Set_vars ParseBool_format_bool ParseBool_true

text \<open>
  The command line that says a configuration in full. Values are arbitrary texts; numbers are
  written in decimal.
\<close>

definition settings :: "flags \<Rightarrow> (string \<times> string option) list" where
  "settings f =
     [(''metrics-bind-address'', Some (metricsAddr f)), (''health-probe-bind-address'', Some (probeAddr f)),
      (''leader-elect'', Some (format_bool (enableLeaderElection f))), (''watch-namespace'', Some (watchNamespace f)),
      (''max-usages'', Some (format_int (maxUsagesFlag f))),
      (''track-owned-pods'', Some (format_bool (trackOwnedPods f))),
      (''track-unused-secrets'', Some (format_bool (trackUnusedSecrets f))),
      (''per-secret-metrics'', Some (format_bool (perSecretMetrics f))), (''rules-file'', Some (rulesFile f))]"

definition command_line :: "flags \<Rightarrow> string list" where
  "command_line f = map setting_arg (settings f)"

lemma program_flag_lookups:
  "map_of program_flags ''metrics-bind-address'' = Some (StringVar metricsAddr_update)"
  "map_of program_flags ''health-probe-bind-address'' = Some (StringVar probeAddr_update)"
  "map_of program_flags ''leader-elect'' = Some (BoolVar enableLeaderElection_update)"
  "map_of program_flags ''watch-namespace'' = Some (StringVar watchNamespace_update)"
  "map_of program_flags ''max-usages'' = Some (IntVar maxUsagesFlag_update)"
  "map_of program_flags ''track-owned-pods'' = Some (BoolVar trackOwnedPods_update)"
  "map_of program_flags ''track-unused-secrets'' = Some (BoolVar trackUnusedSecrets_update)"
  "map_of program_flags ''per-secret-metrics'' = Some (BoolVar perSecretMetrics_update)"
  "map_of program_flags ''rules-file'' = Some (StringVar rulesFile_update)"
  by (simp_all add: program_flags_def)

lemmas command_line_lookups = program_flag_lookups[THEN commandLine_program]

lemma apply_settings_all:
  assumes "- max_int - 1 \<le> maxUsagesFlag f" and "maxUsagesFlag f \<le> max_int"
  shows "apply_settings (commandLine library) (settings f) (f0, z) = Some (f, z)"
  by (simp add: settings_def command_line_lookups program_settings ParseInt_format_int[OF assms])

lemma settings_names: "list_all (flag_name \<circ> fst) (settings f)"
  by (simp add: settings_def flag_name_def)

text \<open>
  C21: every configuration can be given on the command line: written out as flags it is what main
  runs with, whatever the environment and the libraries' flags say.
\<close>
theorem command_line_round_trip:
  assumes "- max_int - 1 \<le> maxUsagesFlag f" and "maxUsagesFlag f \<le> max_int"
    and "registrable (map fst (commandLine library))"
  shows "main L rt ReadFile UnmarshalStrict Getenv library z (command_line f) =
    Some (case main_run L (rt z) ReadFile UnmarshalStrict f of
            (Exited err, m) \<Rightarrow> (ExitStatus 1, m)
          | (Running r, m) \<Rightarrow> (Returned r, m))"
  using flag_Parse_settings[OF settings_names apply_settings_all[OF assms(1,2)], of library "flag_defaults Getenv" z] assms(3)
  by (simp add: main_def command_line_def split: outcome.split prod.split)

definition example_library :: "(string \<times> string flagVar) list" where
  "example_library = [(''kubeconfig'', StringVar (\<lambda>g. g)), (''zap-devel'', BoolVar (\<lambda>g z. if g False then ''devel'' else z))]"

lemma example_registrable: "registrable (map fst (commandLine example_library))"
  by code_simp

lemma example_limit: "maxUsagesFlag example_flags = 1"
  by code_simp

theorem command_line_round_trip_witness:
  "\<exists>m. main example_lib (\<lambda>_. example_runtime) (\<lambda>_. Inr []) (\<lambda>_. Inr example_rules) (\<lambda>_. ''7'') example_library ''''
    (command_line example_flags) = Some (Returned example_ready, m)"
proof -
  obtain m where m: "main_run example_lib example_runtime (\<lambda>_. Inr []) (\<lambda>_. Inr example_rules) example_flags = (Running example_ready, m)"
    using example_main by (metis prod.collapse)
  have "- max_int - 1 \<le> maxUsagesFlag example_flags" "maxUsagesFlag example_flags \<le> max_int"
    by (simp_all add: example_limit max_int_def)
  from command_line_round_trip[OF this example_registrable, of example_lib "\<lambda>_. example_runtime"
      "\<lambda>_. Inr []" "\<lambda>_. Inr example_rules" "\<lambda>_. ''7''" "''''"]
  show ?thesis by (simp add: m)
qed

section \<open>The Helm chart\<close>

text \<open>What the values mean.\<close>

definition chart_flags :: "chartValues \<Rightarrow> flags" where
  "chart_flags v =
     \<lparr>metricsAddr = CHR '':'' # format_int (metrics_service_port v),
      probeAddr = CHR '':'' # format_int (healthProbe_port v),
      enableLeaderElection = leaderElection_enabled v, watchNamespace = chart_watchNamespace v,
      maxUsagesFlag = tracking_maxUsages v, trackOwnedPods = tracking_ownedPods v,
      trackUnusedSecrets = tracking_unusedSecrets v, perSecretMetrics = metrics_perSecret v,
      rulesFile = (if customRules v = [] then '''' else ''/etc/secretusage/rules.yaml'')\<rparr>"

definition settings_before :: "chartValues \<Rightarrow> (string \<times> string option) list" where
  "settings_before v =
     (if leaderElection_enabled v then [(''leader-elect'', None)] else []) @
     [(''metrics-bind-address'', Some (CHR '':'' # format_int (metrics_service_port v))),
      (''health-probe-bind-address'', Some (CHR '':'' # format_int (healthProbe_port v)))]"

definition settings_after :: "chartValues \<Rightarrow> (string \<times> string option) list" where
  "settings_after v =
     [(''track-owned-pods'', Some (format_bool (tracking_ownedPods v))),
      (''track-unused-secrets'', Some (format_bool (tracking_unusedSecrets v))),
      (''per-secret-metrics'', Some (format_bool (metrics_perSecret v)))] @
     (if customRules v \<noteq> [] then [(''rules-file'', Some ''/etc/secretusage/rules.yaml'')] else [])"

definition chart_settings :: "chartValues \<Rightarrow> (string \<times> string option) list" where
  "chart_settings v =
     settings_before v @ (''max-usages'', Some (template_number (tracking_maxUsages v))) # settings_after v"

definition valid_port :: "int \<Rightarrow> bool" where
  "valid_port n \<longleftrightarrow> 0 \<le> n \<and> n < 65536"

lemma template_port: "valid_port n \<Longrightarrow> template_number n = format_int n"
  by (simp add: valid_port_def template_number_def)

lemma chart_args_settings:
  assumes "valid_port (metrics_service_port v)" and "valid_port (healthProbe_port v)"
  shows "chart_args v = map setting_arg (chart_settings v)"
  using assms by (simp add: chart_args_def chart_settings_def settings_before_def settings_after_def template_port)

lemma chart_settings_names:
  "list_all (flag_name \<circ> fst) (settings_before v)" "list_all (flag_name \<circ> fst) (settings_after v)" "flag_name ''max-usages''"
  by (simp_all add: settings_before_def settings_after_def flag_name_def)

lemma apply_settings_append:
  "apply_settings formal (ss @ ts) v =
    (case apply_settings formal ss v of None \<Rightarrow> None | Some w \<Rightarrow> apply_settings formal ts w)"
  by (induction formal ss v rule: apply_settings.induct) (auto split: option.splits)

definition flags_before :: "chartValues \<Rightarrow> (string \<Rightarrow> string) \<Rightarrow> flags" where
  "flags_before v Getenv = (flag_defaults Getenv)
     \<lparr>metricsAddr := CHR '':'' # format_int (metrics_service_port v),
      probeAddr := CHR '':'' # format_int (healthProbe_port v),
      enableLeaderElection := leaderElection_enabled v \<or> enableLeaderElection (flag_defaults Getenv)\<rparr>"

lemma apply_settings_before:
  "apply_settings (commandLine library) (settings_before v) (flag_defaults Getenv, z) = Some (flags_before v Getenv, z)"
  by (cases "leaderElection_enabled v")
    (simp_all add: settings_before_def command_line_lookups program_settings flags_before_def flag_defaults_def)

lemma apply_chart_settings:
  assumes "\<bar>tracking_maxUsages v\<bar> < 1000000" and "base ''WATCH_NAMESPACE'' = ''''" and "base ''RULES_FILE'' = ''''"
  shows "apply_settings (commandLine library) (chart_settings v) (flag_defaults (chart_env v base), z) = Some (chart_flags v, z)"
  using assms
  by (simp add: chart_settings_def apply_settings_append apply_settings_before settings_after_def command_line_lookups
      program_settings ParseInt_template_number)
    (simp add: flags_before_def chart_flags_def flag_defaults_def chart_env_def)

lemma chart_args_rejected:
  assumes "\<not> \<bar>tracking_maxUsages v\<bar> < 1000000"
  shows "flag_Parse (commandLine library) (flag_defaults Getenv, z) (map setting_arg (chart_settings v)) = Some (Exits 2)"
proof -
  have "Set (of_program (IntVar maxUsagesFlag_update)) (template_number (tracking_maxUsages v)) (flags_before v Getenv, z) = None"
    using assms by (simp add: program_settings ParseInt_template_number)
  from flag_Parse_bad_setting[OF command_line_lookups(5) this chart_settings_names(3,1) apply_settings_before]
  show ?thesis by (simp add: chart_settings_def)
qed

text \<open>
  What the chart relies on: the files of a mount are what \<open>os.ReadFile\<close> returns, and YAML that
  \<open>toYaml\<close> wrote, under the key \<open>rules\<close>, reads back as the rules it was written from.
\<close>

definition files_read :: "(string \<Rightarrow> goError + string) \<Rightarrow> (string \<times> string) list \<Rightarrow> bool" where
  "files_read ReadFile files \<longleftrightarrow> list_all (\<lambda>(path, text). ReadFile path = Inr text) files"

definition reads_back :: "(referenceRule list \<Rightarrow> string) \<Rightarrow> (string \<Rightarrow> goError + referenceRule list) \<Rightarrow> referenceRule list \<Rightarrow> bool" where
  "reads_back toYaml UnmarshalStrict rules \<longleftrightarrow> UnmarshalStrict (rules_text (toYaml rules)) = Inr rules"

text \<open>
  C20: the container the Helm chart deploys runs main with exactly the configuration its values
  say, as long as maxUsages is below a million: numbers, switches, the rules file when there are
  custom rules and only then, and the watched namespace, which comes through the environment.
  From a million on the chart writes the number with an exponent, and the process exits with
  status 2 before anything is started. The rules file that the configuration names is the one the
  chart's ConfigMap, volume and mount put into the container, so the rules loaded from it are the
  custom rules of the values.
\<close>
theorem chart_configures:
  assumes "valid_port (metrics_service_port v)" and "valid_port (healthProbe_port v)" and "\<bar>tracking_maxUsages v\<bar> \<le> 2 ^ 53"
    and "base ''WATCH_NAMESPACE'' = ''''" and "base ''RULES_FILE'' = ''''"
    and "registrable (map fst (commandLine library))"
    and "files_read ReadFile (chart_files toYaml fullname v)" and "reads_back toYaml UnmarshalStrict (customRules v)"
  shows "main L rt ReadFile UnmarshalStrict (chart_env v base) library z (chart_args v) =
    Some (if \<bar>tracking_maxUsages v\<bar> < 1000000
          then case main_run L (rt z) ReadFile UnmarshalStrict (chart_flags v) of
                 (Exited err, m) \<Rightarrow> (ExitStatus 1, m)
               | (Running r, m) \<Rightarrow> (Returned r, m)
          else (ExitStatus 2, None)) \<and>
    LoadRules L ReadFile UnmarshalStrict (rulesFile (chart_flags v)) = CompileRules L (customRules v)"
proof
  have names: "list_all (flag_name \<circ> fst) (chart_settings v)"
    using chart_settings_names by (simp add: chart_settings_def)
  show "main L rt ReadFile UnmarshalStrict (chart_env v base) library z (chart_args v) =
    Some (if \<bar>tracking_maxUsages v\<bar> < 1000000
          then case main_run L (rt z) ReadFile UnmarshalStrict (chart_flags v) of
                 (Exited err, m) \<Rightarrow> (ExitStatus 1, m)
               | (Running r, m) \<Rightarrow> (Returned r, m)
          else (ExitStatus 2, None))"
  proof (cases "\<bar>tracking_maxUsages v\<bar> < 1000000")
    case True
    from flag_Parse_settings[OF names apply_chart_settings[OF True assms(4,5)], of library z] assms(6) True
    show ?thesis by (simp add: main_def chart_args_settings[OF assms(1,2)] split: outcome.split prod.split)
  next
    case False
    from chart_args_rejected[OF False, of library "chart_env v base" z] assms(6) False
    show ?thesis by (simp add: main_def chart_args_settings[OF assms(1,2)])
  qed
  show "LoadRules L ReadFile UnmarshalStrict (rulesFile (chart_flags v)) = CompileRules L (customRules v)"
    using assms(7,8)
    by (cases "customRules v = []")
      (simp_all add: files_read_def chart_files_rules reads_back_def LoadRules_def chart_flags_def CompileRules_def)
qed

definition example_values :: chartValues where
  "example_values = \<lparr>leaderElection_enabled = True, metrics_service_port = 8080, healthProbe_port = 8081,
     tracking_maxUsages = 1, tracking_ownedPods = False, tracking_unusedSecrets = True,
     metrics_perSecret = True, customRules = example_rules, chart_watchNamespace = ''team''\<rparr>"

lemma example_numerals: "format_int 8080 = ''8080''" "format_int 8081 = ''8081''" "format_int 1 = ''1''"
proof -
  have "digit 0 = CHR ''0''" "digit 1 = CHR ''1''" "digit 8 = CHR ''8''" by code_simp+
  then show "format_int 8080 = ''8080''" "format_int 8081 = ''8081''" "format_int 1 = ''1''"
    by (simp_all add: format_int_def itoa.simps)
qed

text \<open>A container whose file system holds the rendered rules, and a parser that knows that file.\<close>

definition example_toYaml :: "referenceRule list \<Rightarrow> string" where
  "example_toYaml rules = concat (map (\<lambda>r. ''- kind: '' @ rr_Kind r) rules)"

definition example_ReadFile :: "string \<Rightarrow> goError + string" where
  "example_ReadFile path =
     (if path = ''/etc/secretusage/rules.yaml'' then Inr (rules_text (example_toYaml example_rules)) else Inl (APIError OtherReason ''not found''))"

definition example_UnmarshalStrict :: "string \<Rightarrow> goError + referenceRule list" where
  "example_UnmarshalStrict raw =
     (if raw = rules_text (example_toYaml example_rules) then Inr example_rules else Inl (APIError OtherReason ''syntax''))"

theorem chart_configures_witness:
  "chart_args example_values = [''--leader-elect'', ''--metrics-bind-address=:8080'', ''--health-probe-bind-address=:8081'',
     ''--max-usages=1'', ''--track-owned-pods=false'', ''--track-unused-secrets=true'', ''--per-secret-metrics=true'',
     ''--rules-file=/etc/secretusage/rules.yaml''] \<and>
   main example_lib (\<lambda>_. example_runtime) example_ReadFile example_UnmarshalStrict
      (chart_env (example_values\<lparr>tracking_maxUsages := 1500000\<rparr>) (\<lambda>_. ''''))
      example_library '''' (chart_args (example_values\<lparr>tracking_maxUsages := 1500000\<rparr>)) = Some (ExitStatus 2, None) \<and>
   main example_lib (\<lambda>_. example_runtime) example_ReadFile example_UnmarshalStrict (chart_env example_values (\<lambda>_. ''''))
      example_library '''' (chart_args example_values) =
     Some (case main_run example_lib example_runtime example_ReadFile example_UnmarshalStrict (chart_flags example_values) of
             (Exited err, m) \<Rightarrow> (ExitStatus 1, m)
           | (Running r, m) \<Rightarrow> (Returned r, m)) \<and>
   LoadRules example_lib example_ReadFile example_UnmarshalStrict (rulesFile (chart_flags example_values)) = Inr [example_compiled]"
proof (intro conjI)
  have fits: "valid_port (metrics_service_port (example_values\<lparr>tracking_maxUsages := n\<rparr>))"
    "valid_port (healthProbe_port (example_values\<lparr>tracking_maxUsages := n\<rparr>))" for n
    by (simp_all add: example_values_def valid_port_def)
  have same: "example_values = example_values\<lparr>tracking_maxUsages := 1\<rparr>" by (simp add: example_values_def)
  have files: "files_read example_ReadFile (chart_files example_toYaml ''secretusage'' (example_values\<lparr>tracking_maxUsages := n\<rparr>))" for n
    by (simp add: files_read_def chart_files_rules example_values_def example_ReadFile_def)
  have reads: "reads_back example_toYaml example_UnmarshalStrict (customRules (example_values\<lparr>tracking_maxUsages := n\<rparr>))" for n
    by (simp add: reads_back_def example_values_def example_UnmarshalStrict_def)
  note run = chart_configures[OF fits _ _ _ example_registrable files reads, of _ "\<lambda>_. ''''" example_lib "\<lambda>_. example_runtime" "''''"]
  show "chart_args example_values = [''--leader-elect'', ''--metrics-bind-address=:8080'', ''--health-probe-bind-address=:8081'',
     ''--max-usages=1'', ''--track-owned-pods=false'', ''--track-unused-secrets=true'', ''--per-secret-metrics=true'',
     ''--rules-file=/etc/secretusage/rules.yaml'']"
    by (simp add: example_values_def chart_args_def template_number_def format_bool_def example_numerals example_rules_def)
  show "main example_lib (\<lambda>_. example_runtime) example_ReadFile example_UnmarshalStrict
      (chart_env (example_values\<lparr>tracking_maxUsages := 1500000\<rparr>) (\<lambda>_. ''''))
      example_library '''' (chart_args (example_values\<lparr>tracking_maxUsages := 1500000\<rparr>)) = Some (ExitStatus 2, None)"
    using run[of 1500000, THEN conjunct1] by simp
  have small: "\<bar>tracking_maxUsages example_values\<bar> < 1000000" by (simp add: example_values_def)
  show "main example_lib (\<lambda>_. example_runtime) example_ReadFile example_UnmarshalStrict (chart_env example_values (\<lambda>_. ''''))
      example_library '''' (chart_args example_values) =
     Some (case main_run example_lib example_runtime example_ReadFile example_UnmarshalStrict (chart_flags example_values) of
             (Exited err, m) \<Rightarrow> (ExitStatus 1, m)
           | (Running r, m) \<Rightarrow> (Returned r, m))"
    using run[of 1, folded same, THEN conjunct1] small by simp
  have "customRules example_values = example_rules" by (simp add: example_values_def)
  then show "LoadRules example_lib example_ReadFile example_UnmarshalStrict (rulesFile (chart_flags example_values)) = Inr [example_compiled]"
    using run[of 1, folded same, THEN conjunct2] small by (simp add: example_rules_compile)
qed

end
