(* ===== verification/Rbac.thy ===== *)
theory Rbac
  imports Setup
begin

text \<open>
  Permissions: the \<open>+kubebuilder:rbac\<close> markers above \<open>Reconcile\<close>, from which
  \<open>config/rbac/role.yaml\<close> is generated and which the chart's \<open>secretusage-controller.rules\<close>
  repeats, with what the chart adds for custom rules. A client whose calls are authorised by
  them is compared with one that may do everything.
\<close>

section \<open>Policy rules\<close>

record policyRule =
  Groups :: "string list"
  Resources :: "string list"
  Verbs :: "string list"

definition rbac_markers :: "policyRule list" where
  "rbac_markers =
     [\<lparr>Groups = [''usage.secretusage.io''], Resources = [''secretusages''],
       Verbs = [''get'', ''list'', ''watch'', ''create'', ''update'', ''patch'', ''delete'']\<rparr>,
      \<lparr>Groups = [''usage.secretusage.io''], Resources = [''secretusages/status''],
       Verbs = [''get'', ''update'', ''patch'']\<rparr>,
      \<lparr>Groups = [''''], Resources = [''secrets''], Verbs = [''list'', ''watch'']\<rparr>,
      \<lparr>Groups = [''''], Resources = [''pods'', ''replicationcontrollers'', ''serviceaccounts''],
       Verbs = [''get'', ''list'', ''watch'']\<rparr>,
      \<lparr>Groups = [''apps''], Resources = [''deployments'', ''statefulsets'', ''daemonsets'', ''replicasets''],
       Verbs = [''get'', ''list'', ''watch'']\<rparr>,
      \<lparr>Groups = [''batch''], Resources = [''jobs'', ''cronjobs''], Verbs = [''get'', ''list'', ''watch'']\<rparr>,
      \<lparr>Groups = [''networking.k8s.io''], Resources = [''ingresses''], Verbs = [''get'', ''list'', ''watch'']\<rparr>,
      \<lparr>Groups = [''coordination.k8s.io''], Resources = [''leases''],
       Verbs = [''get'', ''list'', ''watch'', ''create'', ''update'', ''patch'', ''delete'']\<rparr>]"

text \<open>
  The chart's policy rules, without those for custom rules. Leases are in a role of their own.
\<close>

definition chart_base :: "policyRule list" where
  "chart_base =
     [\<lparr>Groups = [''usage.secretusage.io''], Resources = [''secretusages''],
       Verbs = [''create'', ''delete'', ''get'', ''list'', ''patch'', ''update'', ''watch'']\<rparr>,
      \<lparr>Groups = [''usage.secretusage.io''], Resources = [''secretusages/status''],
       Verbs = [''get'', ''patch'', ''update'']\<rparr>,
      \<lparr>Groups = [''''], Resources = [''secrets''], Verbs = [''list'', ''watch'']\<rparr>,
      \<lparr>Groups = [''''], Resources = [''pods'', ''replicationcontrollers'', ''serviceaccounts''],
       Verbs = [''get'', ''list'', ''watch'']\<rparr>,
      \<lparr>Groups = [''apps''], Resources = [''daemonsets'', ''deployments'', ''replicasets'', ''statefulsets''],
       Verbs = [''get'', ''list'', ''watch'']\<rparr>,
      \<lparr>Groups = [''batch''], Resources = [''cronjobs'', ''jobs''], Verbs = [''get'', ''list'', ''watch'']\<rparr>,
      \<lparr>Groups = [''networking.k8s.io''], Resources = [''ingresses''], Verbs = [''get'', ''list'', ''watch'']\<rparr>]"

text \<open>
  What the chart renders for an entry of \<open>customRules\<close>: the group is what stands before the
  slash of \<open>apiVersion\<close>, if it has one.
\<close>

definition chart_group :: "string \<Rightarrow> string" where
  "chart_group apiVersion =
     (if CHR ''/'' \<in> set apiVersion then takeWhile (\<lambda>c. c \<noteq> CHR ''/'') apiVersion else '''')"

definition chart_rule :: "referenceRule \<Rightarrow> policyRule" where
  "chart_rule rule = \<lparr>Groups = [chart_group (rr_APIVersion rule)], Resources = [Resource rule],
     Verbs = [''get'', ''list'', ''watch'']\<rparr>"

definition permits :: "policyRule list \<Rightarrow> string \<Rightarrow> string \<times> string \<Rightarrow> bool" where
  "permits ps verb gr \<longleftrightarrow>
     list_ex (\<lambda>p. fst gr \<in> set (Groups p) \<and> snd gr \<in> set (Resources p) \<and> verb \<in> set (Verbs p)) ps"

text \<open>Reads are served by an informer, which needs to list and watch.\<close>

definition readable :: "policyRule list \<Rightarrow> string \<times> string \<Rightarrow> bool" where
  "readable ps gr \<longleftrightarrow> permits ps ''list'' gr \<and> permits ps ''watch'' gr"

section \<open>Resources\<close>

text \<open>
  The resources of the built-in kinds are those of the Kubernetes API, those of SecretUsage are in the
  CustomResourceDefinition, and \<open>plural\<close> gives the name of any other kind's.
\<close>

fun list_resource :: "(groupVersionKind \<Rightarrow> string) \<Rightarrow> listKind \<Rightarrow> string \<times> string" where
  "list_resource plural PodList = ('''', ''pods'')"
| "list_resource plural DeploymentList = (''apps'', ''deployments'')"
| "list_resource plural StatefulSetList = (''apps'', ''statefulsets'')"
| "list_resource plural DaemonSetList = (''apps'', ''daemonsets'')"
| "list_resource plural JobList = (''batch'', ''jobs'')"
| "list_resource plural CronJobList = (''batch'', ''cronjobs'')"
| "list_resource plural ReplicaSetList = (''apps'', ''replicasets'')"
| "list_resource plural ReplicationControllerList = ('''', ''replicationcontrollers'')"
| "list_resource plural ServiceAccountList = ('''', ''serviceaccounts'')"
| "list_resource plural IngressList = (''networking.k8s.io'', ''ingresses'')"
| "list_resource plural (UnstructuredList gvk) = (gvk_Group gvk, plural gvk)"

definition metadata_resource :: "'jp lib \<Rightarrow> (groupVersionKind \<Rightarrow> string) \<Rightarrow> groupVersionKind \<Rightarrow> string \<times> string" where
  "metadata_resource L plural gvk =
     (if gvk = secretGVK L then ('''', ''secrets'') else (gvk_Group gvk, plural gvk))"

definition usages_resource :: "string \<times> string" where
  "usages_resource = (''usage.secretusage.io'', ''secretusages'')"

definition status_resource :: "string \<times> string" where
  "status_resource = (''usage.secretusage.io'', ''secretusages/status'')"

fun watched_resource :: "'jp lib \<Rightarrow> (groupVersionKind \<Rightarrow> string) \<Rightarrow> watched \<Rightarrow> string \<times> string" where
  "watched_resource L plural WatchSecretUsage = usages_resource"
| "watched_resource L plural (WatchObject (OtherObject gvk m)) = metadata_resource L plural gvk"
| "watched_resource L plural (WatchObject obj) = list_resource plural (the (listed_in obj))"

section \<open>Authorisation\<close>

text \<open>A call that is not permitted has no effect but its error.\<close>

definition forbidden :: goError where
  "forbidden = APIError OtherReason ''forbidden''"

definition guarded :: "bool \<Rightarrow> ('w, 'a) call \<Rightarrow> ('w, 'a) call" where
  "guarded permitted call w = (if permitted then call w else (Inl forbidden, w))"

definition authorized ::
    "policyRule list \<Rightarrow> 'jp lib \<Rightarrow> (groupVersionKind \<Rightarrow> string) \<Rightarrow> 'w env \<Rightarrow> 'w env" where
  "authorized ps L plural E = E
     \<lparr>GetMetadata := \<lambda>gvk nn. guarded (readable ps (metadata_resource L plural gvk)) (GetMetadata E gvk nn),
      GetSecretUsage := \<lambda>nn. guarded (readable ps usages_resource) (GetSecretUsage E nn),
      ListObjects := \<lambda>lk opts. guarded (readable ps (list_resource plural lk)) (ListObjects E lk opts),
      ListSecretUsages := \<lambda>opts. guarded (readable ps usages_resource) (ListSecretUsages E opts),
      Create := \<lambda>su. guarded (permits ps ''create'' usages_resource) (Create E su),
      Patch := \<lambda>su base. guarded (permits ps ''patch'' usages_resource) (Patch E su base),
      StatusUpdate := \<lambda>su. guarded (permits ps ''update'' status_resource) (StatusUpdate E su),
      StatusPatch := \<lambda>su base. guarded (permits ps ''patch'' status_resource) (StatusPatch E su base),
      Delete := \<lambda>su. guarded (permits ps ''delete'' usages_resource) (Delete E su)\<rparr>"

lemma guarded_True [simp]: "guarded True call = call"
  by (rule ext) (simp add: guarded_def)

text \<open>
  The calls of a reconcile that read by kind: it asks for the metadata of Secrets and for indexed
  lists only, so clients that agree on these are the same to it.
\<close>

locale same_reads =
  fixes L :: "'jp lib" and r :: "'jp reconciler" and E F :: "'w env"
  assumes meta: "GetMetadata F (secretGVK L) = GetMetadata E (secretGVK L)"
    and lists: "indexed_list (Rules r) lk \<Longrightarrow> ListObjects F lk = ListObjects E lk"
    and rest: "F = E\<lparr>GetMetadata := GetMetadata F, ListObjects := ListObjects F\<rparr>"
begin

lemma same_calls:
  "GetSecretUsage F = GetSecretUsage E" "ListSecretUsages F = ListSecretUsages E" "Create F = Create E"
  "Patch F = Patch E" "StatusUpdate F = StatusUpdate E" "StatusPatch F = StatusPatch E" "Delete F = Delete E"
  "SetLabelValues F = SetLabelValues E" "DeleteLabelValues F = DeleteLabelValues E" "SetGauge F = SetGauge E"
  by (subst rest, simp)+

lemma same_secretExists: "secretExists L F = secretExists L E"
  by (rule ext)+ (simp add: secretExists_def meta)

lemma same_collect_rules:
  "set rs \<subseteq> set (Rules r) \<Longrightarrow> collect_rules L F ns n rs acc w = collect_rules L E ns n rs acc w"
proof (induction rs arbitrary: acc w)
  case (Cons rule rs)
  then have "ListObjects F (UnstructuredList (GVK rule)) = ListObjects E (UnstructuredList (GVK rule))"
    by (intro lists) auto
  with Cons show ?case by (simp split: prod.split sum.split)
qed simp

lemma same_collect_list: "indexed_list (Rules r) lk \<Longrightarrow> collect_list lk L F = collect_list lk L E"
  by (rule ext)+ (simp add: collect_list_def lists)

lemma same_collectors: "collectors L r F = collectors L r E"
proof -
  have "collectPodUsages L r F = collectPodUsages L r E"
    by (rule ext)+ (simp add: collectPodUsages_def lists)
  moreover have "collectCustomResourceUsages L r F = collectCustomResourceUsages L r E"
    by (rule ext)+ (simp add: collectCustomResourceUsages_def same_collect_rules)
  ultimately show ?thesis
    by (simp add: collectors_def collectDeploymentUsages_def collectStatefulSetUsages_def
        collectDaemonSetUsages_def collectJobUsages_def collectCronJobUsages_def collectReplicaSetUsages_def
        collectReplicationControllerUsages_def collectServiceAccountUsages_def collectIngressUsages_def
        same_collect_list)
qed

lemma same_Reconcile: "Reconcile L r F nn w = Reconcile L r E nn w"
proof -
  have "collectUsages L r F = collectUsages L r E"
    by (rule ext)+ (simp add: collectUsages_def same_collectors)
  moreover have "write_usage F = write_usage E"
    by (rule ext)+ (simp only: write_usage_def create_usage_def update_usage_def same_calls)
  moreover have "deleteSecretUsageIfPresent F = deleteSecretUsageIfPresent E"
    by (rule ext)+ (simp only: deleteSecretUsageIfPresent_def same_calls)
  moreover have "clearSecretMetrics r F = clearSecretMetrics r E" "recordSecretMetrics r F = recordSecretMetrics r E"
    by ((rule ext)+, simp add: clearSecretMetrics_def recordSecretMetrics_def same_calls)+
  ultimately show ?thesis by (simp only: Reconcile_def same_secretExists)
qed

lemma same_aggregate_tick: "aggregate_tick F = aggregate_tick E"
  by (rule ext) (simp only: aggregate_tick_def same_calls)

end

section \<open>What is enough\<close>

lemma permits_append: "permits (ps @ qs) verb gr \<longleftrightarrow> permits ps verb gr \<or> permits qs verb gr"
  by (auto simp: permits_def)

lemma readable_append: "readable ps gr \<Longrightarrow> readable (ps @ qs) gr"
  by (simp add: readable_def permits_append)

text \<open>The permissions that the code needs when there are no custom rules.\<close>

definition enough :: "policyRule list \<Rightarrow> bool" where
  "enough B \<longleftrightarrow>
     readable B usages_resource \<and> readable B ('''', ''secrets'') \<and>
     permits B ''create'' usages_resource \<and> permits B ''patch'' usages_resource \<and>
     permits B ''delete'' usages_resource \<and> permits B ''update'' status_resource \<and>
     permits B ''patch'' status_resource \<and>
     list_all (\<lambda>lk. readable B (list_resource (\<lambda>_. '''') lk))
       [PodList, DeploymentList, StatefulSetList, DaemonSetList, JobList, CronJobList, ReplicaSetList,
        ReplicationControllerList, ServiceAccountList, IngressList]"

lemma enough_markers: "enough rbac_markers"
  by (simp add: enough_def readable_def permits_def rbac_markers_def usages_resource_def status_resource_def)

lemma enough_chart: "enough chart_base"
  by (simp add: enough_def readable_def permits_def chart_base_def usages_resource_def status_resource_def)

lemma enough_append: "enough B \<Longrightarrow> enough (B @ ps)"
  by (simp add: enough_def readable_def permits_append)

lemma enough_lists: "enough B \<Longrightarrow> indexed_list [] lk \<Longrightarrow> readable B (list_resource plural lk)"
  by (cases lk) (simp_all add: enough_def)

lemma watched_listed:
  "listed_in obj = Some lk \<Longrightarrow> watched_resource L plural (WatchObject obj) = list_resource plural lk"
  by (cases obj) auto

lemma enough_indexed:
  assumes "enough B" and "obj \<in> set IndexedObjects"
  shows "readable B (watched_resource L plural (WatchObject obj))"
proof -
  have "list_all (\<lambda>obj. \<exists>lk. listed_in obj = Some lk \<and> indexed_list [] lk) IndexedObjects"
    by (simp add: IndexedObjects_def)
  then obtain lk where "listed_in obj = Some lk" "indexed_list [] lk" using assms(2) by (auto simp: list_all_iff)
  then show ?thesis using enough_lists[OF assms(1), of lk plural] watched_listed[of obj lk L plural] by simp
qed

lemma chart_rule_readable:
  assumes "rule \<in> set rules"
  shows "readable (map chart_rule rules) (chart_group (rr_APIVersion rule), Resource rule)"
proof -
  have "permits (map chart_rule rules) verb (chart_group (rr_APIVersion rule), Resource rule)"
    if "verb \<in> set (Verbs (chart_rule rule))" for verb
    unfolding permits_def list_ex_iff
    by (rule bexI[of _ "chart_rule rule"]) (use assms that in \<open>simp_all add: chart_rule_def\<close>)
  then show ?thesis by (simp add: readable_def chart_rule_def)
qed

text \<open>The rules whose kind may be read.\<close>

definition permitted_rules :: "policyRule list \<Rightarrow> (groupVersionKind \<Rightarrow> string) \<Rightarrow> 'jp reconciler \<Rightarrow> 'jp reconciler" where
  "permitted_rules ps plural r =
     r\<lparr>Rules := filter (\<lambda>c. readable ps (list_resource plural (UnstructuredList (GVK c)))) (Rules r)\<rparr>"

lemma permitted_lists:
  assumes "enough ps" and "indexed_list (Rules (permitted_rules ps plural r)) lk"
  shows "readable ps (list_resource plural lk)"
proof (cases "indexed_list [] lk")
  case True
  then show ?thesis by (rule enough_lists[OF assms(1)])
next
  case False
  then obtain gvk where "lk = UnstructuredList gvk" by (cases lk) auto
  with assms show ?thesis by (auto simp: permitted_rules_def)
qed

lemma authorized_same_reads:
  assumes "enough ps"
  shows "same_reads L (permitted_rules ps plural r) E (authorized ps L plural E)"
proof
  show "GetMetadata (authorized ps L plural E) (secretGVK L) = GetMetadata E (secretGVK L)"
    using assms by (simp add: authorized_def metadata_resource_def enough_def)
  show "ListObjects (authorized ps L plural E) lk = ListObjects E lk"
    if "indexed_list (Rules (permitted_rules ps plural r)) lk" for lk
    using permitted_lists[OF assms that] by (simp add: authorized_def)
  show "authorized ps L plural E = E
      \<lparr>GetMetadata := GetMetadata (authorized ps L plural E), ListObjects := ListObjects (authorized ps L plural E)\<rparr>"
    using assms by (simp add: authorized_def enough_def)
qed

interpretation by_markers: same_reads L "permitted_rules (rbac_markers @ ps) plural r" E
    "authorized (rbac_markers @ ps) L plural E"
  by (rule authorized_same_reads[OF enough_append[OF enough_markers]])

interpretation by_chart: same_reads L "permitted_rules (chart_base @ ps) plural r" E
    "authorized (chart_base @ ps) L plural E"
  by (rule authorized_same_reads[OF enough_append[OF enough_chart]])

text \<open>
  What a user of the chart states in \<open>customRules\<close>: \<open>resource\<close> is the plural name of the kind; and
  what is documented of \<open>schema.ParseGroupVersion\<close>: the group stands before the slash.
\<close>

definition resources_right :: "'jp lib \<Rightarrow> (groupVersionKind \<Rightarrow> string) \<Rightarrow> referenceRule list \<Rightarrow> bool" where
  "resources_right L plural rules \<longleftrightarrow> list_all (\<lambda>rule. plural (rule_gvk L rule) = Resource rule) rules"

definition documented_groups :: "'jp lib \<Rightarrow> bool" where
  "documented_groups L \<longleftrightarrow> (\<forall>s gv. ParseGroupVersion L s = Inr gv \<longrightarrow> gv_Group gv = chart_group s)"

lemma compiled_readable:
  assumes "CompileRules L rules = Inr cs" and "resources_right L plural rules" and "documented_groups L" and "c \<in> set cs"
  shows "readable (B @ map chart_rule rules) (list_resource plural (UnstructuredList (GVK c)))"
proof -
  have compiled: "list_all2 (compiles_to L) rules cs" "list_all (rule_ok L) rules"
    using assms(1) compile_loop_Inr[of L 0 "[]" "[]" rules cs] by (auto simp: CompileRules_def Let_def)
  from assms(4) obtain i where "i < length cs" "c = cs ! i" by (auto simp: in_set_conv_nth)
  with compiled have rule: "rules ! i \<in> set rules" "compiles_to L (rules ! i) c" "rule_ok L (rules ! i)"
    by (auto simp: list_all2_conv_all_nth list_all_length)
  define rule where "rule = rules ! i"
  note rule = rule[folded rule_def]
  from this(3) obtain gv where gv: "ParseGroupVersion L (rr_APIVersion rule) = Inr gv"
    by (cases "ParseGroupVersion L (rr_APIVersion rule)") (auto simp: rule_ok_def)
  with rule(2) have "GVK c = WithKind gv (rr_Kind rule)" by (simp add: compiles_to_def rule_gvk_def)
  then have "gvk_Group (GVK c) = chart_group (rr_APIVersion rule)"
    using gv assms(3) by (simp add: documented_groups_def WithKind_def)
  moreover have "plural (GVK c) = Resource rule"
    using rule(1,2) assms(2) by (simp add: resources_right_def list_all_iff compiles_to_def)
  ultimately show ?thesis
    using chart_rule_readable[OF rule(1)] by (simp add: readable_def permits_append)
qed

lemma permitted_all:
  assumes "CompileRules L rules = Inr cs" and "resources_right L plural rules" and "documented_groups L"
    and "set (Rules r) \<subseteq> set cs"
  shows "permitted_rules (B @ map chart_rule rules) plural r = r"
proof -
  have "filter (\<lambda>c. readable (B @ map chart_rule rules) (list_resource plural (UnstructuredList (GVK c)))) (Rules r) = Rules r"
    by (rule filter_True) (use assms(4) compiled_readable[OF assms(1-3)] in blast)
  then show ?thesis by (simp add: permitted_rules_def)
qed

lemma watched_readable:
  assumes E: "enough ps" and "permitted_rules ps plural r = r" and "(w, h) \<in> set (watches L r)"
  shows "readable ps (watched_resource L plural w)"
proof -
  have lists: "readable ps (list_resource plural lk)" if "indexed_list (Rules r) lk" for lk
    using permitted_lists[OF E, of plural r lk] that by (simp add: assms(2))
  have builder: "fold (\<lambda>obj b. b @ [f obj]) xs b = b @ map f xs" for f :: "'x \<Rightarrow> 'y" and xs b
    by (induction xs arbitrary: b) auto
  from assms(3) consider "w = WatchObject (secretMetadataObject L)" | "w = WatchSecretUsage"
    | obj where "obj \<in> set IndexedObjects" "w = WatchObject obj"
    | rule where "rule \<in> set (Rules r)" "w = WatchObject (rule_Object L rule)"
    by (auto simp: watches_def Let_def builder)
  then show ?thesis
  proof cases
    case 1
    then show ?thesis
      using E by (simp add: secretMetadataObject_def metadata_resource_def enough_def)
  next
    case 2
    then show ?thesis using E by (simp add: enough_def)
  next
    case 3
    then show ?thesis using enough_indexed[OF E] by simp
  next
    case 4
    then show ?thesis using lists[of "UnstructuredList (GVK rule)"] by (simp add: rule_Object_def)
  qed
qed

end
