(* ===== verification/Roles.thy ===== *)
theory Roles
  imports Rbac Simulation
begin

text \<open>
  A role in one namespace: the calls it does not cover fail. Reconciling a name of that namespace
  makes no such call, so the restricted client and the unrestricted one are a \<open>simulation\<close>.
\<close>

definition within :: "string \<Rightarrow> secretUsage \<Rightarrow> bool" where
  "within ns su \<longleftrightarrow> Namespace (ObjectMeta su) = ns"

text \<open>
  Reads come from the informers of the manager's cache, which list and watch in the namespaces of
  an option (nil for all). They answer if the role covers all of these; the list of all
  SecretUsage objects, which names no namespace, needs nothing else.
\<close>

fun covers :: "string option \<Rightarrow> string list option \<Rightarrow> bool" where
  "covers None nss = True"
| "covers (Some ns) None = False"
| "covers (Some ns) (Some nss) = list_all (\<lambda>n. n = ns) nss"

definition scoped :: "string \<Rightarrow> string list option \<Rightarrow> 'w env \<Rightarrow> 'w env" where
  "scoped ns nss E = E
     \<lparr>GetMetadata := \<lambda>gvk nn. guarded (covers (Some ns) nss \<and> nn_Namespace nn = ns) (GetMetadata E gvk nn),
      GetSecretUsage := \<lambda>nn. guarded (covers (Some ns) nss \<and> nn_Namespace nn = ns) (GetSecretUsage E nn),
      ListObjects := \<lambda>lk opts. guarded (covers (Some ns) nss \<and> InNamespace ns \<in> set opts) (ListObjects E lk opts),
      ListSecretUsages := \<lambda>opts. guarded (covers (Some ns) nss) (ListSecretUsages E opts),
      Create := \<lambda>su. guarded (within ns su) (Create E su),
      Patch := \<lambda>su base. guarded (within ns su) (Patch E su base),
      StatusUpdate := \<lambda>su. guarded (within ns su) (StatusUpdate E su),
      StatusPatch := \<lambda>su base. guarded (within ns su) (StatusPatch E su base),
      Delete := \<lambda>su. guarded (within ns su) (Delete E su)\<rparr>"

text \<open>A role binds in one namespace, a cluster role in all.\<close>

fun in_scope :: "string option \<Rightarrow> string list option \<Rightarrow> 'w env \<Rightarrow> 'w env" where
  "in_scope None nss E = E"
| "in_scope (Some ns) nss E = scoped ns nss E"

text \<open>What is documented of the client: the objects it returns are those of the name asked for.\<close>

definition same_names :: "'w env \<Rightarrow> bool" where
  "same_names E \<longleftrightarrow>
     (\<forall>nn s su. fst (GetSecretUsage E nn s) = Inr su \<longrightarrow> usage_key su = nn) \<and>
     (\<forall>su s su'. fst (Create E su s) = Inr su' \<longrightarrow> usage_key su' = usage_key su) \<and>
     (\<forall>ls su s su'. fst (Patch E (set_labels ls su) su s) = Inr su' \<longrightarrow> usage_key su' = usage_key su)"

lemma within_key: "usage_key su = nn \<Longrightarrow> within (nn_Namespace nn) su"
  by (auto simp: usage_key_def within_def)

lemma within_changed:
  "within ns (set_labels ls su) = within ns su" "within ns (su\<lparr>Status := st\<rparr>) = within ns su"
  by (simp_all add: within_def set_labels_def)

lemma scoped_simulation:
  assumes "same_names E" and "covers (Some (nn_Namespace nn)) nss"
  shows "simulation L r nn (=) (=) E (scoped (nn_Namespace nn) nss E)"
proof
  show "usage_key su = nn" if "fst (GetSecretUsage E nn s) = Inr su" for s su
    using assms that by (simp add: same_names_def)
  show "usage_key su' = nn" if "usage_key su = nn" "fst (Create E su s) = Inr su'" for s su su'
    using assms that by (simp add: same_names_def)
  show "usage_key su' = nn" if "usage_key su = nn" "fst (Patch E (set_labels ls su) su s) = Inr su'" for s ls su su'
    using assms that unfolding same_names_def by blast
qed (simp_all add: same_def scoped_def within_key within_changed indexedSecretListOptions_def assms(2))

lemma scoped_Reconcile:
  assumes "same_names E" and "nn_Namespace nn = ns" and "covers (Some ns) nss"
  shows "Reconcile L r (scoped ns nss E) nn w = Reconcile L r E nn w"
  using simulation.sim_Reconcile[OF scoped_simulation[OF assms(1)], of nn nss w w L r] assms(2,3)
  by (simp add: same_def prod_eq_iff)

text \<open>Outside the namespace a reconcile fails at its first call.\<close>

lemma scoped_outside:
  assumes "nn_Namespace nn \<noteq> ns"
  shows "Reconcile L r (scoped ns nss E) nn w = (Some forbidden, w)"
  using assms by (simp add: Reconcile_def secretExists_def scoped_def guarded_def forbidden_def IsNotFound_def)

lemma in_scope_Reconcile:
  assumes "same_names E" and "covers scope nss"
  shows "Reconcile L r (in_scope scope nss E) nn w =
    (if scope = None \<or> scope = Some (nn_Namespace nn) then Reconcile L r E nn w else (Some forbidden, w))"
  using scoped_Reconcile[OF assms(1) refl, of nn nss L r w] scoped_outside[of nn _ L r nss E w] assms(2)
  by (cases scope) auto

lemma in_scope_aggregate:
  assumes "covers scope nss"
  shows "aggregate_tick (in_scope scope nss E) = aggregate_tick E"
proof (cases scope)
  case (Some ns)
  have "ListSecretUsages (scoped ns nss E) = ListSecretUsages E" "SetGauge (scoped ns nss E) = SetGauge E"
    using assms Some by (simp_all add: scoped_def)
  then show ?thesis unfolding Some in_scope.simps by (intro ext) (simp only: aggregate_tick_def)
qed simp

end
