(* ===== verification/RbacProps.thy ===== *)
theory RbacProps
  imports Roles FlagProps
begin

text \<open>
  The permissions the code declares, and those the chart gives, are the ones that are needed, in
  the namespaces that are watched.
\<close>

lemma base_writes:
  assumes "B = rbac_markers \<or> B = chart_base" and "permits B verb gr" and "verb \<notin> {''get'', ''list'', ''watch''}"
  shows "gr \<in> {usages_resource, status_resource, (''coordination.k8s.io'', ''leases'')}"
proof -
  have "permits rbac_markers verb gr \<Longrightarrow> ?thesis" "permits chart_base verb gr \<Longrightarrow> ?thesis"
    using assms(3)
    by (cases gr; auto simp: permits_def rbac_markers_def chart_base_def usages_resource_def status_resource_def)+
  then show ?thesis using assms(1,2) by blast
qed

lemma chart_rules_read: "permits (map chart_rule rules) verb gr \<Longrightarrow> verb \<in> {''get'', ''list'', ''watch''}"
  by (auto simp: permits_def list_ex_iff chart_rule_def)

text \<open>
  \<open>templates/rbac.yaml\<close>: a role in the watched namespace if one is set, a cluster role otherwise.
  \<open>in_namespaces\<close> is what the option of the manager's cache means.
\<close>

definition chart_scope :: "chartValues \<Rightarrow> string option" where
  "chart_scope v = (if chart_watchNamespace v \<noteq> '''' then Some (chart_watchNamespace v) else None)"

fun in_namespaces :: "string list option \<Rightarrow> string \<Rightarrow> bool" where
  "in_namespaces None ns = True"
| "in_namespaces (Some nss) ns = (ns \<in> set nss)"

lemma chart_scope_cache:
  "in_namespaces (DefaultNamespaces (manager_options (chart_flags v))) ns \<longleftrightarrow>
   chart_scope v = None \<or> chart_scope v = Some ns"
  by (auto simp: chart_scope_def manager_options_def chart_flags_def Let_def)

lemma chart_covers: "covers (chart_scope v) (DefaultNamespaces (manager_options (chart_flags v)))"
  by (simp add: chart_scope_def manager_options_def chart_flags_def Let_def)

text \<open>
  With leader election the chart adds a role in the release namespace: leases, and the events that
  the election records.
\<close>

definition chart_election :: "chartValues \<Rightarrow> policyRule list" where
  "chart_election v =
     (if leaderElection_enabled v then
        [\<lparr>Groups = [''coordination.k8s.io''], Resources = [''leases''],
          Verbs = [''create'', ''delete'', ''get'', ''list'', ''patch'', ''update'', ''watch'']\<rparr>,
         \<lparr>Groups = [''''], Resources = [''events''], Verbs = [''create'', ''patch'']\<rparr>]
      else [])"

lemma election_writes:
  "permits (chart_election v) verb gr \<Longrightarrow> gr = (''coordination.k8s.io'', ''leases'') \<or>
     gr = ('''', ''events'') \<and> verb \<in> {''create'', ''patch''}"
  by (cases gr) (auto simp: permits_def chart_election_def split: if_splits)

text \<open>
  C12: with no other permissions than the markers, or the chart's, and what the chart adds for the
  custom rules, bound where the chart binds them, a reconcile of a name in the namespaces the
  manager watches behaves as if everything were permitted, and one of any other name reads and
  writes nothing. The same goes for the aggregate metrics, which need the role to cover what
  the manager's cache covers; every kind that is watched can be listed and watched there. With
  the rules for leader election added, nothing can be changed but SecretUsage objects and
  leases, and events can be created and patched.
\<close>
theorem roles_suffice:
  assumes "CompileRules L (customRules v) = Inr cs" and "set (Rules r) \<subseteq> set cs"
    and "resources_right L plural (customRules v)" and "documented_groups L"
    and "same_names E" and "B = rbac_markers \<or> B = chart_base"
  defines "ps \<equiv> B @ map chart_rule (customRules v)"
    and "nss \<equiv> DefaultNamespaces (manager_options (chart_flags v))"
  shows "Reconcile L r (authorized ps L plural (in_scope (chart_scope v) nss E)) nn w =
      (if in_namespaces nss (nn_Namespace nn) then Reconcile L r E nn w else (Some forbidden, w)) \<and>
    aggregate_tick (authorized ps L plural (in_scope (chart_scope v) nss E)) w = aggregate_tick E w \<and>
    list_all (\<lambda>(obj, h). covers (chart_scope v) nss \<and> readable ps (watched_resource L plural obj)) (watches L r) \<and>
    (permits (ps @ chart_election v) verb gr \<and> verb \<notin> {''get'', ''list'', ''watch''} \<longrightarrow>
     gr \<in> {usages_resource, status_resource, (''coordination.k8s.io'', ''leases'')} \<or>
     gr = ('''', ''events'') \<and> verb \<in> {''create'', ''patch''})"
proof (intro conjI impI)
  have r: "permitted_rules ps plural r = r" unfolding ps_def by (rule permitted_all[OF assms(1,3,4,2)])
  have "enough ps" using assms(6) enough_append[OF enough_markers] enough_append[OF enough_chart] unfolding ps_def by blast
  have cov: "covers (chart_scope v) nss" unfolding nss_def by (rule chart_covers)
  have same: "Reconcile L r (authorized ps L plural F) nn w = Reconcile L r F nn w"
    "aggregate_tick (authorized ps L plural F) = aggregate_tick F" for F
    using assms(6) r by_markers.same_Reconcile[of L "map chart_rule (customRules v)" plural r F nn w]
      by_chart.same_Reconcile[of L "map chart_rule (customRules v)" plural r F nn w]
      by_markers.same_aggregate_tick by_chart.same_aggregate_tick unfolding ps_def by metis+
  show "Reconcile L r (authorized ps L plural (in_scope (chart_scope v) nss E)) nn w =
      (if in_namespaces nss (nn_Namespace nn) then Reconcile L r E nn w else (Some forbidden, w))"
    by (simp only: same in_scope_Reconcile[OF assms(5) cov] chart_scope_cache[of v, folded nss_def])
  show "aggregate_tick (authorized ps L plural (in_scope (chart_scope v) nss E)) w = aggregate_tick E w"
    by (simp only: same in_scope_aggregate[OF cov])
  show "list_all (\<lambda>(obj, h). covers (chart_scope v) nss \<and> readable ps (watched_resource L plural obj)) (watches L r)"
    using watched_readable[OF \<open>enough ps\<close> r] cov by (auto simp: list_all_iff)
  show "gr \<in> {usages_resource, status_resource, (''coordination.k8s.io'', ''leases'')} \<or>
     gr = ('''', ''events'') \<and> verb \<in> {''create'', ''patch''}"
    if "permits (ps @ chart_election v) verb gr \<and> verb \<notin> {''get'', ''list'', ''watch''}"
  proof -
    note no_read = that[THEN conjunct2]
    from that consider "permits B verb gr" | "permits (map chart_rule (customRules v)) verb gr" | "permits (chart_election v) verb gr"
      unfolding ps_def permits_append by (elim conjE disjE)
    then show ?thesis
    proof cases
      case 1
      show ?thesis by (rule disjI1, rule base_writes[OF assms(6) 1 no_read])
    next
      case 2
      from chart_rules_read[OF this] no_read show ?thesis by (rule notE[rotated])
    next
      case 3
      from election_writes[OF this] show ?thesis by (rule disjE) simp_all
    qed
  qed
qed

lemma dropWhile_found: "dropWhile (\<lambda>c. c \<noteq> x) s = c # t \<Longrightarrow> x \<in> set s"
  by (induction s) (auto simp del: dropWhile_eq_Cons_conv split: if_splits)

lemma example_groups: "documented_groups example_lib"
proof -
  have "gv_Group gv = chart_group s" if "example_ParseGroupVersion s = Inr gv" for s gv
  proof (cases "dropWhile (\<lambda>c. c \<noteq> CHR ''/'') s")
    case Nil
    then have "CHR ''/'' \<notin> set s" by (auto simp: dropWhile_eq_Nil_conv)
    then have "chart_group s = []" by (simp only: chart_group_def if_False)
    moreover have "gv_Group gv = []"
      using that unfolding example_ParseGroupVersion_def Let_def Nil list.case by auto
    ultimately show ?thesis by (simp only:)
  next
    case (Cons c t)
    then have "CHR ''/'' \<in> set s" by (rule dropWhile_found)
    then have "chart_group s = takeWhile (\<lambda>c. c \<noteq> CHR ''/'') s" by (simp only: chart_group_def if_True)
    moreover have "gv_Group gv = takeWhile (\<lambda>c. c \<noteq> CHR ''/'') s"
      using that unfolding example_ParseGroupVersion_def Let_def Cons list.case
      by (cases "CHR ''/'' \<in> set t") auto
    ultimately show ?thesis by (simp only:)
  qed
  then show ?thesis by (simp add: documented_groups_def example_lib_def)
qed

definition scoped_values :: chartValues where
  "scoped_values = example_values\<lparr>customRules := example_rules, chart_watchNamespace := ''default''\<rparr>"

lemma world_names: "same_names (world_env L rs)"
  using stored_key
  by (auto simp: same_names_def world_env_def Let_def usage_key_def wire_usage_def set_version_def set_labels_def split: option.splits)

theorem roles_suffice_witness:
  "Reconcile example_lib example_ready
     (authorized (chart_base @ map chart_rule example_rules) example_lib (\<lambda>_. ''certificates'')
       (scoped ''default'' (Some [''default'']) (world_env example_lib [])))
     (example_key ''db'') example_world =
   Reconcile example_lib example_ready (world_env example_lib []) (example_key ''db'') example_world"
proof -
  have v: "customRules scoped_values = example_rules" "chart_scope scoped_values = Some ''default''"
    "DefaultNamespaces (manager_options (chart_flags scoped_values)) = Some [''default'']"
    by (simp_all add: scoped_values_def example_values_def chart_scope_def manager_options_def chart_flags_def Let_def)
  have inside: "in_namespaces (DefaultNamespaces (manager_options (chart_flags scoped_values))) (nn_Namespace (example_key ''db''))"
    by (simp add: chart_scope_cache chart_scope_def scoped_values_def example_values_def)
  have rules: "set (Rules example_ready) \<subseteq> set [example_compiled]" by (simp add: example_ready_def)
  have right: "resources_right example_lib (\<lambda>_. ''certificates'') (customRules scoped_values)"
    by (simp add: v resources_right_def example_rules_def)
  have compiled: "CompileRules example_lib (customRules scoped_values) = Inr [example_compiled]"
    by (simp only: v example_rules_compile)
  from roles_suffice[OF compiled rules right example_groups world_names[of example_lib "[]"], of chart_base, THEN conjunct1]
  show ?thesis by (simp only: v in_scope.simps if_P[OF inside[unfolded v]] simp_thms)
qed

end
