(* ===== verification/Calls.thy ===== *)
theory Calls
  imports Reconcile "HOL-Library.Sublist"
begin

text \<open>
  The calls a reconcile makes, in order, on any client whatsoever. A client is \<^emph>\<open>recorded\<close> by
  keeping, beside its state, what was called and with which error; it answers as before. The
  calls follow one of a few plans, and the first error that counts is the last call.
\<close>

section \<open>Recording a client\<close>

text \<open>Reads with what they ask for. Of writes the kind is kept.\<close>

datatype apiCall = MetadataCall groupVersionKind namespacedName | GetCall namespacedName
  | ListCall listKind "listOption list" | ListUsagesCall "listOption list"
  | CreateCall | PatchCall | StatusUpdateCall | StatusPatchCall | DeleteCall
  | SetSeries gaugeVec "string list" | DeleteSeries gaugeVec "string list" | SetGaugeCall gauge

type_synonym 'w recording = "'w \<times> (apiCall \<times> goError option) list"

fun error_of :: "goError + 'a \<Rightarrow> goError option" where
  "error_of (Inl e) = Some e"
| "error_of (Inr a) = None"

definition record_call :: "apiCall \<Rightarrow> ('w, 'a) call \<Rightarrow> ('w recording, 'a) call" where
  "record_call c call s = (let (res, w) = call (fst s) in (res, (w, snd s @ [(c, error_of res)])))"

definition record_set :: "apiCall \<Rightarrow> ('w \<Rightarrow> 'w) \<Rightarrow> 'w recording \<Rightarrow> 'w recording" where
  "record_set c f s = (f (fst s), snd s @ [(c, None)])"

definition recorded :: "'w env \<Rightarrow> 'w recording env" where
  "recorded E =
     \<lparr>GetMetadata = (\<lambda>gvk nn. record_call (MetadataCall gvk nn) (GetMetadata E gvk nn)),
      GetSecretUsage = (\<lambda>nn. record_call (GetCall nn) (GetSecretUsage E nn)),
      ListObjects = (\<lambda>lk opts. record_call (ListCall lk opts) (ListObjects E lk opts)),
      ListSecretUsages = (\<lambda>opts. record_call (ListUsagesCall opts) (ListSecretUsages E opts)),
      Create = (\<lambda>su. record_call CreateCall (Create E su)),
      Patch = (\<lambda>su base. record_call PatchCall (Patch E su base)),
      StatusUpdate = (\<lambda>su. record_call StatusUpdateCall (StatusUpdate E su)),
      StatusPatch = (\<lambda>su base. record_call StatusPatchCall (StatusPatch E su base)),
      Delete = (\<lambda>su. record_call DeleteCall (Delete E su)),
      SetLabelValues = (\<lambda>v ls x. record_set (SetSeries v ls) (SetLabelValues E v ls x)),
      DeleteLabelValues = (\<lambda>v ls. record_set (DeleteSeries v ls) (DeleteLabelValues E v ls)),
      SetGauge = (\<lambda>g x. record_set (SetGaugeCall g) (SetGauge E g x))\<rparr>"

lemma recorded_calls [simp]:
  "GetMetadata (recorded E) gvk nn = record_call (MetadataCall gvk nn) (GetMetadata E gvk nn)"
  "GetSecretUsage (recorded E) nn = record_call (GetCall nn) (GetSecretUsage E nn)"
  "ListObjects (recorded E) lk opts = record_call (ListCall lk opts) (ListObjects E lk opts)"
  "Create (recorded E) su = record_call CreateCall (Create E su)"
  "Patch (recorded E) su base = record_call PatchCall (Patch E su base)"
  "StatusUpdate (recorded E) su = record_call StatusUpdateCall (StatusUpdate E su)"
  "StatusPatch (recorded E) su base = record_call StatusPatchCall (StatusPatch E su base)"
  "Delete (recorded E) su = record_call DeleteCall (Delete E su)"
  "SetLabelValues (recorded E) v ls x = record_set (SetSeries v ls) (SetLabelValues E v ls x)"
  "DeleteLabelValues (recorded E) v ls = record_set (DeleteSeries v ls) (DeleteLabelValues E v ls)"
  by (simp_all add: recorded_def)

section \<open>Following a plan\<close>

text \<open>
  After which calls a reconcile goes on: those without an error, and those that report as not
  found a Secret, a SecretUsage that is read, or one that is to be deleted. An error of listing
  custom resources is returned with their kind.
\<close>

fun goes_on :: "apiCall \<times> goError option \<Rightarrow> bool" where
  "goes_on (c, None) = True"
| "goes_on (MetadataCall gvk nn, Some e) = IsNotFound e"
| "goes_on (GetCall nn, Some e) = IsNotFound e"
| "goes_on (DeleteCall, Some e) = IsNotFound e"
| "goes_on (c, Some e) = False"

fun reported :: "apiCall \<Rightarrow> goError \<Rightarrow> goError" where
  "reported (ListCall (UnstructuredList gvk) opts) e = ErrList gvk e"
| "reported c e = e"

text \<open>The calls that were made, for a returned error and a plan.\<close>

definition stops :: "goError option \<Rightarrow> (apiCall \<times> goError option) list \<Rightarrow> bool" where
  "stops err calls \<longleftrightarrow> (case err of
     None \<Rightarrow> list_all goes_on calls
   | Some e \<Rightarrow> \<exists>before c e'. calls = before @ [(c, Some e')] \<and> list_all goes_on before \<and>
       \<not> goes_on (c, Some e') \<and> e = reported c e')"

definition on_plan :: "goError option \<Rightarrow> apiCall list \<Rightarrow> (apiCall \<times> goError option) list \<Rightarrow> bool" where
  "on_plan err plan calls \<longleftrightarrow> prefix (map fst calls) plan \<and> (err = None \<longrightarrow> map fst calls = plan)"

text \<open>A run with the recorded client beside one with the client itself.\<close>

definition follows ::
    "('r \<Rightarrow> goError option) \<Rightarrow> apiCall list \<Rightarrow> 'w recording \<Rightarrow> 'r \<times> 'w recording \<Rightarrow> 'r \<times> 'w \<Rightarrow> bool" where
  "follows err plan s out out0 \<longleftrightarrow> fst out = fst out0 \<and> fst (snd out) = snd out0 \<and>
     (\<exists>calls. snd (snd out) = snd s @ calls \<and> stops (err (fst out)) calls \<and> on_plan (err (fst out)) plan calls)"

lemma stops_append: "stops None xs \<Longrightarrow> stops err ys \<Longrightarrow> stops err (xs @ ys)"
  unfolding stops_def by (auto split: option.splits)

lemma on_plan_append: "on_plan None p xs \<Longrightarrow> on_plan err q ys \<Longrightarrow> on_plan err (p @ q) (xs @ ys)"
  by (auto simp: on_plan_def)

lemma follows_then:
  assumes "follows err p s (a, s1) (a0, w1)" and "err a = None" and "follows err' q s1 out out0"
  shows "follows err' (p @ q) s out out0"
  using assms stops_append on_plan_append unfolding follows_def by (simp, metis append_assoc)

lemma follows_error:
  assumes "follows err p s (a, s1) (a0, w1)" and "err a = Some e" and "err' b = Some e"
  shows "follows err' (p @ q) s (b, s1) (b, w1)"
  using assms unfolding follows_def on_plan_def by (auto simp: prefix_prefix)

lemma follows_stay: "err a = None \<Longrightarrow> follows err [] s (a, s) (a, fst s)"
  by (simp add: follows_def stops_def on_plan_def)

lemma follows_result:
  assumes "follows err p s (a, s1) (a0, w1)" and "err a = None" and "err' b = None"
  shows "follows err' p s (b, s1) (b, w1)"
  using assms unfolding follows_def by simp

text \<open>One call that does not go on after an error, and one that goes on after not found.\<close>

lemma follows_call:
  "goes_on (c, e) \<Longrightarrow> err b = None \<Longrightarrow> follows err [c] s (b, (w1, snd s @ [(c, e)])) (b, w1)"
  "\<not> goes_on (c, Some e') \<Longrightarrow> err b = Some (reported c e') \<Longrightarrow>
     follows err [c] s (b, (w1, snd s @ [(c, Some e')])) (b, w1)"
  by (auto simp: follows_def stops_def on_plan_def)

section \<open>Reading\<close>

lemma follows_secretExists:
  "follows error_of [MetadataCall (secretGVK L) nn] s (secretExists L (recorded E) nn s) (secretExists L E nn (fst s))"
proof -
  obtain res w1 where call: "GetMetadata E (secretGVK L) nn (fst s) = (res, w1)" by force
  show ?thesis
  proof (cases res)
    case (Inl e)
    then show ?thesis
      by (cases "IsNotFound e") (simp_all add: secretExists_def record_call_def call follows_call)
  qed (simp add: secretExists_def record_call_def call follows_call)
qed

lemma follows_collect_list:
  assumes "\<And>e. reported (ListCall lk (indexedSecretListOptions ns n)) e = e"
  shows "follows error_of [ListCall lk (indexedSecretListOptions ns n)] s
    (collect_list lk L (recorded E) ns n s) (collect_list lk L E ns n (fst s))"
proof -
  obtain res w1 where call: "ListObjects E lk (indexedSecretListOptions ns n) (fst s) = (res, w1)" by force
  show ?thesis
    by (cases res) (simp_all add: collect_list_def record_call_def call follows_call assms)
qed

lemma follows_collectPodUsages:
  "follows error_of [ListCall PodList (indexedSecretListOptions ns n)] s
    (collectPodUsages L r (recorded E) ns n s) (collectPodUsages L r E ns n (fst s))"
proof -
  obtain res w1 where call: "ListObjects E PodList (indexedSecretListOptions ns n) (fst s) = (res, w1)" by force
  show ?thesis
    by (cases res) (simp_all add: collectPodUsages_def record_call_def call follows_call)
qed

lemma follows_collect_rules:
  "follows error_of (map (\<lambda>rule. ListCall (UnstructuredList (GVK rule)) (indexedSecretListOptions ns n)) rules) s
    (collect_rules L (recorded E) ns n rules acc s) (collect_rules L E ns n rules acc (fst s))"
proof (induction rules arbitrary: acc s)
  case Nil
  show ?case using follows_stay[of error_of "Inr acc" s] by simp
next
  case (Cons rule rules)
  let ?c = "ListCall (UnstructuredList (GVK rule)) (indexedSecretListOptions ns n)"
  obtain res w1 where call: "ListObjects E (UnstructuredList (GVK rule)) (indexedSecretListOptions ns n) (fst s) = (res, w1)" by force
  show ?case
  proof (cases res)
    case (Inl e)
    have "follows error_of [?c] s (Inl (ErrList (GVK rule) e) :: goError + secretUsageReference slice, (w1, snd s @ [(?c, Some e)]))
        (Inl (ErrList (GVK rule) e), w1)"
      by (simp add: follows_call)
    from follows_error[OF this, of "ErrList (GVK rule) e" "error_of :: goError + secretUsageReference slice \<Rightarrow> _"] show ?thesis
      by (simp add: record_call_def call Inl)
  next
    case (Inr items)
    have "follows error_of [?c] s (Inr () , (w1, snd s @ [(?c, None)])) (Inr (), w1)"
      by (simp add: follows_call)
    from follows_then[OF this _ Cons.IH[where s = "(w1, snd s @ [(?c, None)])"]] show ?thesis
      by (simp add: record_call_def call Inr Let_def)
  qed
qed

text \<open>Each collector asks for its lists.\<close>

lemma follows_collect_loop:
  assumes "list_all2 (\<lambda>p (c, c0). \<forall>s. follows error_of p s (c ns n s) (c0 ns n (fst s))) ps (zip cs cs0)"
    and "length cs = length cs0"
  shows "follows error_of (concat ps) s (collect_loop cs ns n acc s) (collect_loop cs0 ns n acc (fst s))"
  using assms
proof (induction ps arbitrary: cs cs0 acc s)
  case Nil
  then show ?case using follows_stay[of error_of "Inr acc" s] by (cases cs; cases cs0) simp_all
next
  case (Cons p ps)
  then obtain c ds c0 ds0 where cs: "cs = c # ds" "cs0 = c0 # ds0" by (cases cs; cases cs0) auto
  with Cons.prems have here: "follows error_of p s (c ns n s) (c0 ns n (fst s))"
    and rest: "list_all2 (\<lambda>p (c, c0). \<forall>s. follows error_of p s (c ns n s) (c0 ns n (fst s))) ps (zip ds ds0)"
      "length ds = length ds0" by (auto simp del: split_paired_All)
  obtain res s1 res0 w1 where call: "c ns n s = (res, s1)" "c0 ns n (fst s) = (res0, w1)" by (metis prod.collapse)
  from here have same: "res0 = res" "fst s1 = w1" by (simp_all add: call follows_def)
  note here = here[unfolded call same(1)]
  show ?case
  proof (cases res)
    case (Inl e)
    from follows_error[OF here, of e "error_of :: goError + secretUsageReference slice \<Rightarrow> _" "Inl e" "concat ps"] show ?thesis
      by (simp add: cs call same Inl)
  next
    case (Inr refs)
    from follows_then[OF here _ Cons.IH[OF rest, where s = s1]] show ?thesis
      by (simp add: cs call same Inr)
  qed
qed

text \<open>The lists of a collection, in order: those of the ten built-in kinds and of the rules.\<close>

definition list_calls :: "'jp reconciler \<Rightarrow> string \<Rightarrow> string \<Rightarrow> apiCall list" where
  "list_calls r ns n = map (\<lambda>lk. ListCall lk (indexedSecretListOptions ns n)) (concat (tracked_lists r))"

lemma follows_collectUsages:
  "follows error_of (list_calls r ns n) s (collectUsages L r (recorded E) ns n s) (collectUsages L r E ns n (fst s))"
proof -
  let ?p = "map (map (\<lambda>lk. ListCall lk (indexedSecretListOptions ns n))) (tracked_lists r)"
  have custom: "follows error_of (map (\<lambda>rule. ListCall (UnstructuredList (GVK rule)) (indexedSecretListOptions ns n)) (Rules r)) s
      (collectCustomResourceUsages L r (recorded E) ns n s) (collectCustomResourceUsages L r E ns n (fst s))" for s
    using follows_collect_rules[of ns n "Rules r" s L E "Slice []"] follows_stay[of error_of "Inr NilSlice" s]
    by (cases "Rules r = []") (simp_all add: collectCustomResourceUsages_def)
  have "follows error_of (concat ?p) s (collect_loop (collectors L r (recorded E)) ns n (Slice []) s)
      (collect_loop (collectors L r E) ns n (Slice []) (fst s))"
    by (rule follows_collect_loop)
      (simp_all del: split_paired_All add: tracked_lists_def collectors_def follows_collectPodUsages follows_collect_list custom comp_def
        collectDeploymentUsages_def collectStatefulSetUsages_def
        collectDaemonSetUsages_def collectJobUsages_def collectCronJobUsages_def collectReplicaSetUsages_def
        collectReplicationControllerUsages_def collectServiceAccountUsages_def collectIngressUsages_def)
  then have loop: "follows error_of (list_calls r ns n) s (collect_loop (collectors L r (recorded E)) ns n (Slice []) s)
      (collect_loop (collectors L r E) ns n (Slice []) (fst s))"
    by (simp add: list_calls_def map_concat)
  obtain res s1 res0 w1 where call: "collect_loop (collectors L r (recorded E)) ns n (Slice []) s = (res, s1)"
    "collect_loop (collectors L r E) ns n (Slice []) (fst s) = (res0, w1)" by (metis prod.collapse)
  from loop have same: "res0 = res" by (simp add: call follows_def)
  note loop = loop[unfolded call same]
  show ?thesis
  proof (cases res)
    case (Inl e)
    from follows_error[OF loop, of e "error_of :: goError + secretUsageReference slice \<Rightarrow> _" "Inl e" "[]"] show ?thesis
      by (simp add: collectUsages_def call same Inl)
  next
    case (Inr refs)
    from follows_result[OF loop, of "error_of :: goError + secretUsageReference slice \<Rightarrow> _"] show ?thesis
      by (simp add: collectUsages_def call same Inr)
  qed
qed

section \<open>Writing\<close>

lemma follows_return_error:
  "follows error_of p s out out0 \<Longrightarrow> follows id p s (return_error out) (return_error out0)"
  by (cases out; cases out0; cases "fst out") (auto simp: follows_def return_error_def)

definition delete_plans :: "namespacedName \<Rightarrow> apiCall list list" where
  "delete_plans nn = [[GetCall nn], [GetCall nn, DeleteCall]]"

definition write_plans :: "namespacedName \<Rightarrow> apiCall list list" where
  "write_plans nn = map ((#) (GetCall nn))
     [[], [PatchCall], [StatusPatchCall], [PatchCall, StatusPatchCall], [CreateCall, StatusUpdateCall]]"

lemma follows_delete_call:
  "follows id [DeleteCall] s (IgnoreNotFound (error_of res), (w1, snd s @ [(DeleteCall, error_of res)]))
     (IgnoreNotFound (error_of res), w1)"
  by (cases res) (simp_all add: follows_call)

lemma follows_delete:
  "\<exists>p \<in> set (delete_plans nn). follows id p s (deleteSecretUsageIfPresent (recorded E) nn s) (deleteSecretUsageIfPresent E nn (fst s))"
proof -
  obtain got w1 where get: "GetSecretUsage E nn (fst s) = (got, w1)" by force
  show ?thesis
  proof (cases got)
    case (Inl e)
    then show ?thesis
      by (intro bexI[of _ "[GetCall nn]"])
        (simp_all add: deleteSecretUsageIfPresent_def delete_plans_def record_call_def get follows_call)
  next
    case (Inr su)
    let ?s1 = "(w1, snd s @ [(GetCall nn, None)])"
    have g: "follows id [GetCall nn] s (None, ?s1) (None, w1)" by (simp add: follows_call)
    obtain res w2 where del: "Delete E su w1 = (res, w2)" by force
    from follows_then[OF g _ follows_delete_call[of ?s1 res w2]] show ?thesis
      by (intro bexI[of _ "[GetCall nn, DeleteCall]"]; cases res)
        (simp_all add: deleteSecretUsageIfPresent_def delete_plans_def record_call_def get del Inr)
  qed
qed

lemma follows_status:
  "follows id [StatusPatchCall] s (return_error (record_call StatusPatchCall call s)) (return_error (call (fst s)))"
  "follows id [StatusUpdateCall] s (return_error (record_call StatusUpdateCall call s)) (return_error (call (fst s)))"
proof -
  obtain res w1 where call: "call (fst s) = (res, w1)" by force
  show "follows id [StatusPatchCall] s (return_error (record_call StatusPatchCall call s)) (return_error (call (fst s)))"
    "follows id [StatusUpdateCall] s (return_error (record_call StatusUpdateCall call s)) (return_error (call (fst s)))"
    by (cases res; simp add: return_error_def record_call_def call follows_call)+
qed

definition update_plans :: "apiCall list list" where
  "update_plans = [[], [PatchCall], [StatusPatchCall], [PatchCall, StatusPatchCall]]"

lemma follows_update:
  "\<exists>p \<in> set update_plans. follows id p s (update_usage (recorded E) su ls st s) (update_usage E su ls st (fst s))"
proof -
  have status: "\<exists>p \<in> {[], [StatusPatchCall]}. follows id p s
      (if Status su = st then (None, s) else return_error (record_call StatusPatchCall (StatusPatch E (su\<lparr>Status := st\<rparr>) su) s))
      (if Status su = st then (None, fst s) else return_error (StatusPatch E (su\<lparr>Status := st\<rparr>) su (fst s)))" for su s
    by (cases "Status su = st") (simp_all add: follows_status follows_stay)
  show ?thesis
  proof (cases "Labels (ObjectMeta su) = ls")
    case True
    with status[of s su] show ?thesis by (auto simp: update_usage_def update_plans_def)
  next
    case False
    let ?patch = "Patch E (su\<lparr>ObjectMeta := (ObjectMeta su)\<lparr>Labels := ls\<rparr>\<rparr>) su"
    obtain res w1 where call: "?patch (fst s) = (res, w1)" by force
    show ?thesis
    proof (cases res)
      case (Inl e)
      then show ?thesis
        using False by (intro bexI[of _ "[PatchCall]"]) (simp_all add: update_usage_def update_plans_def record_call_def call follows_call)
    next
      case (Inr su')
      let ?s1 = "(w1, snd s @ [(PatchCall, None)])"
      have "follows id [PatchCall] s (None, ?s1) (None, w1)" by (simp add: follows_call)
      note patch = follows_then[OF this, of id, simplified]
      from status[of ?s1 su'] obtain p where p: "p \<in> {[], [StatusPatchCall]}" and
        "follows id p ?s1
          (if Status su' = st then (None, ?s1) else return_error (record_call StatusPatchCall (StatusPatch E (su'\<lparr>Status := st\<rparr>) su') ?s1))
          (if Status su' = st then (None, w1) else return_error (StatusPatch E (su'\<lparr>Status := st\<rparr>) su' w1))"
        unfolding fst_conv by blast
      from patch[OF this(2)] have "follows id (PatchCall # p) s (update_usage (recorded E) su ls st s) (update_usage E su ls st (fst s))"
        using False by (cases "Status su' = st") (simp_all add: update_usage_def record_call_def call Inr)
      with p show ?thesis by (auto simp: update_plans_def)
    qed
  qed
qed

lemma follows_create:
  "follows id [CreateCall, StatusUpdateCall] s (create_usage (recorded E) nn ls st s) (create_usage E nn ls st (fst s))"
proof -
  let ?su = "\<lparr>ObjectMeta = zero_meta\<lparr>Namespace := nn_Namespace nn, Name := nn_Name nn, Labels := ls\<rparr>, Status = zero_status\<rparr>"
  obtain res w1 where call: "Create E ?su (fst s) = (res, w1)" by force
  show ?thesis
  proof (cases res)
    case (Inl e)
    have "follows id [CreateCall] s (Some e, (w1, snd s @ [(CreateCall, Some e)])) (Some e, w1)"
      by (simp add: follows_call)
    from follows_error[OF this, of e id "Some e" "[StatusUpdateCall]"] show ?thesis
      by (simp add: create_usage_def Let_def record_call_def call Inl)
  next
    case (Inr su')
    let ?s1 = "(w1, snd s @ [(CreateCall, None)])"
    have "follows id [CreateCall] s (None, ?s1) (None, w1)" by (simp add: follows_call)
    from follows_then[OF this _ follows_status(2)[of ?s1 "StatusUpdate E (su'\<lparr>Status := st\<rparr>)"]] show ?thesis
      by (simp add: create_usage_def Let_def record_call_def call Inr)
  qed
qed

lemma follows_write:
  "\<exists>p \<in> set (write_plans nn). follows id p s (write_usage (recorded E) nn ls st s) (write_usage E nn ls st (fst s))"
proof -
  obtain got w1 where get: "GetSecretUsage E nn (fst s) = (got, w1)" by force
  let ?s1 = "(w1, snd s @ [(GetCall nn, error_of got)])"
  show ?thesis
  proof (cases got)
    case (Inl e)
    show ?thesis
    proof (cases "IsNotFound e")
      case True
      with Inl have "follows id [GetCall nn] s (None, ?s1) (None, w1)" by (simp add: follows_call)
      from follows_then[OF this _ follows_create[of ?s1 E nn ls st]] True show ?thesis
        by (intro bexI[of _ "[GetCall nn, CreateCall, StatusUpdateCall]"])
          (simp_all add: write_usage_def write_plans_def record_call_def get Inl)
    next
      case False
      then show ?thesis
        by (intro bexI[of _ "[GetCall nn]"]) (simp_all add: write_usage_def write_plans_def record_call_def get Inl follows_call)
    qed
  next
    case (Inr su)
    then have "follows id [GetCall nn] s (None, ?s1) (None, w1)" by (simp add: follows_call)
    note g = follows_then[OF this, of id, simplified]
    from follows_update[of ?s1 E su ls st] obtain p where p: "p \<in> set update_plans"
      "follows id p ?s1 (update_usage (recorded E) su ls st ?s1) (update_usage E su ls st w1)" by auto
    from g[OF p(2)] have "follows id (GetCall nn # p) s (write_usage (recorded E) nn ls st s) (write_usage E nn ls st (fst s))"
      by (simp add: write_usage_def record_call_def get Inr)
    with p(1) show ?thesis by (auto simp: write_plans_def update_plans_def)
  qed
qed

text \<open>The series of a Secret.\<close>

definition series_calls :: "(gaugeVec \<Rightarrow> string list \<Rightarrow> apiCall) \<Rightarrow> 'jp reconciler \<Rightarrow> namespacedName \<Rightarrow> apiCall list" where
  "series_calls c r nn = (if PerSecretMetrics r
     then map (\<lambda>v. c v [nn_Namespace nn, nn_Name nn]) [SecretReferences, SecretExists, SecretUsagesTruncated] else [])"

lemma follows_series:
  "follows id (series_calls SetSeries r nn) s
     (None, recordSecretMetrics r (recorded E) (nn_Namespace nn) (nn_Name nn) b tot trunc s)
     (None, recordSecretMetrics r E (nn_Namespace nn) (nn_Name nn) b tot trunc (fst s))"
  "follows id (series_calls DeleteSeries r nn) s
     (None, clearSecretMetrics r (recorded E) (nn_Namespace nn) (nn_Name nn) s)
     (None, clearSecretMetrics r E (nn_Namespace nn) (nn_Name nn) (fst s))"
  by (simp_all add: follows_def stops_def on_plan_def series_calls_def recordSecretMetrics_def clearSecretMetrics_def
      record_set_def Let_def)

section \<open>The whole reconcile\<close>

text \<open>
  The plans of a reconcile: whether the Secret exists, every list, and then either the deletion of the
  SecretUsage and its series, or the series and the write of the SecretUsage.
\<close>

definition plans :: "'jp lib \<Rightarrow> 'jp reconciler \<Rightarrow> namespacedName \<Rightarrow> apiCall list list" where
  "plans L r nn = map (\<lambda>p. MetadataCall (secretGVK L) nn # list_calls r (nn_Namespace nn) (nn_Name nn) @ p)
     (map (\<lambda>p. p @ series_calls DeleteSeries r nn) (delete_plans nn) @
      map ((@) (series_calls SetSeries r nn)) (write_plans nn))"

lemma follows_Reconcile:
  "\<exists>p \<in> set (plans L r nn). follows id p s (Reconcile L r (recorded E) nn s) (Reconcile L r E nn (fst s))"
proof -
  let ?ns = "nn_Namespace nn" and ?n = "nn_Name nn" and ?meta = "[MetadataCall (secretGVK L) nn]"
  let ?lists = "list_calls r ?ns ?n"
  have some: "?meta @ ?lists @ (delete_plans nn ! 0 @ series_calls DeleteSeries r nn) \<in> set (plans L r nn)"
    by (simp add: plans_def delete_plans_def)
  obtain ex s1 w1 where ex: "secretExists L (recorded E) nn s = (ex, s1)" "secretExists L E nn (fst s) = (ex, w1)" "fst s1 = w1"
    and fex: "follows error_of ?meta s (ex, s1) (ex, w1)"
    using follows_secretExists[of L nn s E] unfolding follows_def by (metis prod.collapse)
  show ?thesis
  proof (cases ex)
    case (Inl e)
    from follows_error[OF fex, of e id "Some e"] some show ?thesis
      by (intro bexI[OF _ some]) (simp add: Reconcile_def ex Inl)
  next
    case exists: (Inr b)
    obtain col s2 w2 where col: "collectUsages L r (recorded E) ?ns ?n s1 = (col, s2)" "collectUsages L r E ?ns ?n w1 = (col, w2)" "fst s2 = w2"
      and fcol: "follows error_of ?lists s1 (col, s2) (col, w2)"
      using follows_collectUsages[of r ?ns ?n s1 L E] ex(3) unfolding follows_def by (metis prod.collapse)
    have read: "follows error_of (?meta @ ?lists) s (col, s2) (col, w2)"
      by (rule follows_then[OF fex _ fcol]) (simp add: exists)
    show ?thesis
    proof (cases col)
      case (Inl e)
      from follows_error[OF read, of e id "Some e"] some show ?thesis
        by (intro bexI[OF _ some]) (simp add: Reconcile_def ex exists col Inl)
    next
      case (Inr us)
      have read: "follows id (?meta @ ?lists @ q) s out out0" if "follows id q s2 out out0" for q out out0
        using follows_then[OF read _ that] by (simp add: Inr)
      obtain usages tot trunc where tr: "truncateUsages r us = (usages, tot, trunc)" by (metis prod_cases3)
      show ?thesis
      proof (cases "tot = 0 \<and> \<not> (b \<and> TrackUnusedSecrets r)")
        case del: True
        obtain p where p: "p \<in> set (delete_plans nn)"
          and f: "follows id p s2 (deleteSecretUsageIfPresent (recorded E) nn s2) (deleteSecretUsageIfPresent E nn w2)"
          using follows_delete[of nn s2 E] col(3) by auto
        obtain res s3 w3 where d: "deleteSecretUsageIfPresent (recorded E) nn s2 = (res, s3)"
          "deleteSecretUsageIfPresent E nn w2 = (res, w3)" "fst s3 = w3"
          using f unfolding follows_def by (metis prod.collapse)
        note f = f[unfolded d]
        have "follows id (p @ series_calls DeleteSeries r nn) s2
            (case res of Some err \<Rightarrow> (Some err, s3) | None \<Rightarrow> (None, clearSecretMetrics r (recorded E) ?ns ?n s3))
            (case res of Some err \<Rightarrow> (Some err, w3) | None \<Rightarrow> (None, clearSecretMetrics r E ?ns ?n w3))"
          using follows_error[OF f, of _ id] follows_then[OF f _ follows_series(2)[of r nn s3 E]] d(3)
          by (cases res) simp_all
        from read[OF this] have "follows id (?meta @ ?lists @ p @ series_calls DeleteSeries r nn) s
            (Reconcile L r (recorded E) nn s) (Reconcile L r E nn (fst s))"
          unfolding Reconcile_def ex col exists Inr tr Let_def prod.case sum.case if_P[OF del] d
          by (cases res) simp_all
        with p show ?thesis by (intro bexI) (auto simp: plans_def)
      next
        case False
        let ?s3 = "recordSecretMetrics r (recorded E) ?ns ?n b tot trunc s2" and ?w3 = "recordSecretMetrics r E ?ns ?n b tot trunc w2"
        note f = follows_series(1)[of r nn s2 E b tot trunc, unfolded col(3)]
        then have s3: "fst ?s3 = ?w3" by (simp add: follows_def)
        obtain ls st where run: "Reconcile L r (recorded E) nn s = write_usage (recorded E) nn ls st ?s3"
          "Reconcile L r E nn (fst s) = write_usage E nn ls st ?w3"
          unfolding Reconcile_def ex col exists Inr tr Let_def prod.case sum.case if_not_P[OF False] by blast
        obtain p where p: "p \<in> set (write_plans nn)" "follows id p ?s3 (write_usage (recorded E) nn ls st ?s3) (write_usage E nn ls st ?w3)"
          using follows_write[of nn ?s3 E ls st] unfolding s3 by blast
        from read[OF follows_then[OF f _ p(2)]] have "follows id (?meta @ ?lists @ series_calls SetSeries r nn @ p) s
            (Reconcile L r (recorded E) nn s) (Reconcile L r E nn (fst s))"
          by (simp add: run)
        with p(1) show ?thesis by (intro bexI) (auto simp: plans_def)
      qed
    qed
  qed
qed

end
