(* ===== verification/CallProps.thy ===== *)
theory CallProps
  imports Calls SetupProps
begin

text \<open>
  Properties of the calls of a reconcile: which error stops it, how many there are, and that each
  list is filtered by an index that set-up registered.
\<close>

section \<open>Stopping at an error\<close>

text \<open>
  C17: on any client whatsoever, a reconcile ends with the first call that fails, with its error (for
  a list of custom resources wrapped with the kind): no read, write or change of a gauge comes
  after it, and no earlier call failed. The only errors it goes on after are those that report as
  not found the Secret, the SecretUsage that is read, or the one that is to be deleted. A reconcile
  that returns no error has seen no other. So a partial list is never taken for the whole one.
\<close>
theorem Reconcile_stops_at_error:
  "case Reconcile L r (recorded E) nn (w, []) of (res, w', calls) \<Rightarrow>
     Reconcile L r E nn w = (res, w') \<and>
     (case res of
        None \<Rightarrow> list_all goes_on calls
      | Some e \<Rightarrow> \<exists>before c e'. calls = before @ [(c, Some e')] \<and> list_all goes_on before \<and>
          \<not> goes_on (c, Some e') \<and> e = reported c e')"
  using follows_Reconcile[of L r nn "(w, [])" E]
  by (auto simp: follows_def stops_def split: prod.split) (simp add: prod_eq_iff)

section \<open>The number of calls\<close>

lemma plans_length: "p \<in> set (plans L r nn) \<Longrightarrow> length p \<le> 17 + length (Rules r)"
  by (auto simp: plans_def list_calls_def concat_tracked delete_plans_def write_plans_def series_calls_def)

text \<open>
  C22: every reconcile is over after a bounded number of calls, whatever the client answers: it reads
  whether the Secret exists and every list once, in order, and then either reads the SecretUsage,
  deletes it if it is there, and drops its series, or sets the series, reads the SecretUsage and makes
  at most two writes. It follows one of these plans up to the first error, or to its end.
\<close>
theorem Reconcile_follows_plan:
  "case Reconcile L r (recorded E) nn (w, []) of (res, w', calls) \<Rightarrow>
     length calls \<le> 17 + length (Rules r) \<and>
     (\<exists>p. p \<in> set (plans L r nn) \<and>
       (case res of None \<Rightarrow> map fst calls = p | Some e \<Rightarrow> prefix (map fst calls) p))"
proof -
  obtain res w' calls where run: "Reconcile L r (recorded E) nn (w, []) = (res, w', calls)" by (metis prod_cases3)
  from follows_Reconcile[of L r nn "(w, [])" E] obtain p where p: "p \<in> set (plans L r nn)" "on_plan res p calls"
    by (auto simp: follows_def run)
  then have "length (map fst calls) \<le> length p" by (intro prefix_length_le) (simp add: on_plan_def)
  with p show ?thesis
    using plans_length[OF p(1)] by (auto simp: run on_plan_def split: option.split)
qed

section \<open>Lists and indexes\<close>

text \<open>
  The index function registered for the kind of a list, as the cache finds it.
\<close>

definition registered_index ::
    "(clientObject \<times> string \<times> (clientObject \<Rightarrow> string list)) list \<Rightarrow> listKind \<Rightarrow> string \<Rightarrow>
     (clientObject \<Rightarrow> string list) option" where
  "registered_index log lk field =
     map_option (\<lambda>(_, _, ix). ix) (find (\<lambda>(proto, f, _). listed_in proto = Some lk \<and> f = field) log)"

lemma registered_rules:
  assumes "lk = UnstructuredList g"
  shows "registered_index (map (\<lambda>rule. (rule_Object L rule, SecretNameIndexField, secretNames L rule)) rules) lk SecretNameIndexField =
    map_option (secretNames L) (rule_for g rules)"
  by (induction rules) (auto simp: registered_index_def rule_Object_def assms)

lemma registered_skip:
  "list_all (\<lambda>e. listed_in (fst e) \<noteq> Some lk) log \<Longrightarrow> registered_index (log @ log') lk field = registered_index log' lk field"
  by (induction log) (auto simp: registered_index_def)

lemma registered_built_in:
  "listed_in obj = Some lk \<Longrightarrow> (\<And>g. lk \<noteq> UnstructuredList g) \<Longrightarrow>
     registered_index (map (\<lambda>obj. (obj, SecretNameIndexField, SecretNamesForObject)) IndexedObjects @ log) lk SecretNameIndexField =
       Some SecretNamesForObject"
  by (cases obj) (auto simp: registered_index_def IndexedObjects_def)

lemma registered_values:
  assumes log: "log = map (\<lambda>obj. (obj, SecretNameIndexField, SecretNamesForObject)) IndexedObjects @
      map (\<lambda>rule. (rule_Object L rule, SecretNameIndexField, secretNames L rule)) rules"
    and lk: "lk \<in> set [PodList, DeploymentList, StatefulSetList, DaemonSetList, JobList, CronJobList,
      ReplicaSetList, ReplicationControllerList, ServiceAccountList, IngressList] \<or>
      lk \<in> (\<lambda>rule. UnstructuredList (GVK rule)) ` set rules"
  obtains ix where "registered_index log lk SecretNameIndexField = Some ix"
    "\<forall>obj. listed_in obj = Some lk \<longrightarrow> ix obj = index_values L rules obj"
proof (cases "\<exists>g. lk = UnstructuredList g")
  case True
  then obtain g where g: "lk = UnstructuredList g" by blast
  have "registered_index log lk SecretNameIndexField = map_option (secretNames L) (rule_for g rules)"
    unfolding log registered_rules[OF g, symmetric]
    by (rule registered_skip) (auto simp: IndexedObjects_def g)
  moreover have "rule_for g rules \<noteq> None" using lk g by (auto simp: rule_for_None)
  moreover have "obj = Unstructured u \<Longrightarrow> listed_in obj = Some lk \<Longrightarrow> un_GVK u = g" for obj u by (simp add: g)
  moreover have "\<exists>u. obj = Unstructured u" if "listed_in obj = Some lk" for obj using that g by (cases obj) auto
  ultimately show ?thesis using that by fastforce
next
  case False
  then have "\<exists>proto \<in> set IndexedObjects. listed_in proto = Some lk" using lk by (auto simp: IndexedObjects_def)
  then have "registered_index log lk SecretNameIndexField = Some SecretNamesForObject"
    unfolding log using registered_built_in False by blast
  moreover have "index_values L rules obj = SecretNamesForObject obj" if "listed_in obj = Some lk" for obj
    using that False by (cases obj) auto
  ultimately show ?thesis using that by simp
qed

text \<open>
  C9: each list a collection asks for is filtered by an index that set-up has registered for its
  kind, with a function that gives an object of this kind the very values that what is documented
  of the client speaks of. A collection that succeeds has asked, in this order and once, for the
  list of every kind that has an index.
\<close>
theorem lists_are_indexed:
  assumes "registers mgr log" and "SetupWithManager L mgr r m = (Inr r', m')" and "log m = []"
    and "collectUsages L r' (recorded E) ns n (w, []) = (res, w', calls)"
  shows "(\<forall>c \<in> set (map fst calls). \<exists>lk field ix. c = ListCall lk [InNamespace ns, MatchingFields field n] \<and>
      registered_index (log m') lk field = Some ix \<and>
      (\<forall>obj. listed_in obj = Some lk \<longrightarrow> ix obj = index_values L (Rules r') obj)) \<and>
    (\<forall>us. res = Inr us \<longrightarrow> map fst calls =
       map (\<lambda>(proto, field, ix). ListCall (the (listed_in proto)) [InNamespace ns, MatchingFields field n]) (log m'))"
proof -
  have log: "log m' = map (\<lambda>obj. (obj, SecretNameIndexField, SecretNamesForObject)) IndexedObjects @
      map (\<lambda>rule. (rule_Object L rule, SecretNameIndexField, secretNames L rule)) (Rules r')"
    using registered_log[OF assms(1,2)] assms(3) by simp
  have plan: "on_plan (error_of res) (list_calls r' ns n) calls"
    using follows_collectUsages[of r' ns n "(w, [])" L E] assms(4) by (auto simp: follows_def)
  have each: "\<exists>lk field ix. c = ListCall lk [InNamespace ns, MatchingFields field n] \<and>
      registered_index (log m') lk field = Some ix \<and>
      (\<forall>obj. listed_in obj = Some lk \<longrightarrow> ix obj = index_values L (Rules r') obj)"
    if "c \<in> set (map fst calls)" for c
  proof -
    have "c \<in> set (list_calls r' ns n)" using that plan set_mono_prefix unfolding on_plan_def by blast
    then obtain lk where lk: "lk \<in> set (concat (tracked_lists r'))" "c = ListCall lk (indexedSecretListOptions ns n)"
      by (auto simp: list_calls_def)
    from lk(1) have "lk \<in> set [PodList, DeploymentList, StatefulSetList, DaemonSetList, JobList, CronJobList,
        ReplicaSetList, ReplicationControllerList, ServiceAccountList, IngressList] \<or>
        lk \<in> (\<lambda>rule. UnstructuredList (GVK rule)) ` set (Rules r')"
      unfolding concat_tracked by auto
    then obtain ix where "registered_index (log m') lk SecretNameIndexField = Some ix"
      "\<forall>obj. listed_in obj = Some lk \<longrightarrow> ix obj = index_values L (Rules r') obj"
      by (rule registered_values[OF log])
    then show ?thesis unfolding lk(2) indexedSecretListOptions_def by blast
  qed
  have "list_calls r' ns n =
      map (\<lambda>(proto, field, ix). ListCall (the (listed_in proto)) [InNamespace ns, MatchingFields field n]) (log m')"
    by (simp add: log list_calls_def concat_tracked IndexedObjects_def rule_Object_def indexedSecretListOptions_def comp_def)
  then show ?thesis using each plan by (auto simp: on_plan_def)
qed

theorem lists_are_indexed_witness:
  "\<exists>m' us w' calls ix.
     SetupWithManager example_lib example_manager (example_reconciler\<lparr>Rules := [example_compiled]\<rparr>) [] = (Inr example_ready, m') \<and>
     collectUsages example_lib example_ready (recorded (world_env example_lib [example_compiled])) ''default'' ''web-tls'' (example_world, []) =
       (Inr us, w', calls) \<and> length calls = 11 \<and>
     registered_index m' (UnstructuredList (GVK example_compiled)) SecretNameIndexField = Some ix \<and>
     ix (Unstructured example_certificate) = [''web-tls'']"
proof -
  obtain m' where m': "SetupWithManager example_lib example_manager (example_reconciler\<lparr>Rules := [example_compiled]\<rparr>) [] =
      (Inr example_ready, m')" using example_setup[of "[]"] by (metis prod.collapse)
  have R: "registers example_manager (\<lambda>m. m)" by (simp add: registers_def example_manager_def)
  let ?run = "collectUsages example_lib example_ready (recorded (world_env example_lib [example_compiled])) ''default'' ''web-tls'' (example_world, [])"
  have "Rules example_ready = [example_compiled]" by (simp add: example_ready_def)
  then have av: "available example_lib (Rules example_ready) (world_env example_lib [example_compiled]) world_view"
    using world_available[of example_lib "[example_compiled]"] by simp
  have "fst ?run = fst (collectUsages example_lib example_ready (world_env example_lib [example_compiled]) ''default'' ''web-tls'' example_world)"
    using follows_collectUsages[of example_ready "''default''" "''web-tls''" "(example_world, [])" example_lib "world_env example_lib [example_compiled]"]
    by (simp add: follows_def)
  moreover have "\<not> isl (fst (collectUsages example_lib example_ready (world_env example_lib [example_compiled]) ''default'' ''web-tls'' example_world))"
    by (rule collectUsages_available[OF av])
  ultimately obtain us w' calls where run: "?run = (Inr us, w', calls)" by (metis prod_cases3 fst_conv isl_def sum.collapse(2))
  note P = lists_are_indexed[OF R m' refl run]
  have "map fst calls = map (\<lambda>(proto, field, ix). ListCall (the (listed_in proto)) [InNamespace ''default'', MatchingFields field ''web-tls'']) m'"
    using P by blast
  moreover have "m' = [] @ map (\<lambda>obj. (obj, SecretNameIndexField, SecretNamesForObject)) IndexedObjects @
      map (\<lambda>rule. (rule_Object example_lib rule, SecretNameIndexField, secretNames example_lib rule)) (Rules example_ready)"
    using registered_log[OF R m'] by simp
  ultimately have calls: "map fst calls = map (\<lambda>(proto, field, ix). ListCall (the (listed_in proto)) [InNamespace ''default'', MatchingFields field ''web-tls''])
      (map (\<lambda>obj. (obj, SecretNameIndexField, SecretNamesForObject)) IndexedObjects @
       [(rule_Object example_lib example_compiled, SecretNameIndexField, secretNames example_lib example_compiled)])"
    by (simp only: append_Nil list.map \<open>Rules example_ready = [example_compiled]\<close>)
  have len: "length calls = 11"
    using arg_cong[OF calls, where f = length] by (simp add: IndexedObjects_def)
  have "ListCall (UnstructuredList (GVK example_compiled)) [InNamespace ''default'', MatchingFields SecretNameIndexField ''web-tls''] \<in> set (map fst calls)"
    unfolding calls by (simp add: rule_Object_def)
  from P[THEN conjunct1, THEN bspec, OF this]
  obtain ix where "registered_index m' (UnstructuredList (GVK example_compiled)) SecretNameIndexField = Some ix"
    and ix: "\<And>obj. listed_in obj = Some (UnstructuredList (GVK example_compiled)) \<Longrightarrow> ix obj = index_values example_lib (Rules example_ready) obj"
    by auto
  note this(1)
  moreover have "listed_in (Unstructured example_certificate) = Some (UnstructuredList (GVK example_compiled))" by code_simp
  moreover have "index_values example_lib (Rules example_ready) (Unstructured example_certificate) = [''web-tls'']"
    unfolding example_ready_def by code_simp
  ultimately have "registered_index m' (UnstructuredList (GVK example_compiled)) SecretNameIndexField = Some ix \<and>
     ix (Unstructured example_certificate) = [''web-tls'']"
    using ix[of "Unstructured example_certificate"] by simp
  then show ?thesis using m' run len by blast
qed

end
