(* ===== verification/Spec2Isabelle.thy ===== *)
theory Spec2Isabelle
  imports RefProps UsageOrder RuleProps ReconcileProps SetupProps StartupProps Concurrent CacheLag DeepCopy
    UsageJson FlagProps RbacProps CallProps
begin

text \<open>
  SecretUsage controller: a Kubernetes controller that keeps, for every Secret that is
  referenced or exists, one SecretUsage object that lists the objects referencing it and
  through which field. This library models the Go code under \<open>src/cmd\<close>, \<open>src/api\<close> and
  \<open>src/internal/controller\<close> and proves it correct.

  \<^bold>\<open>The program.\<close> \<open>main\<close> (\<open>cmd/main.go\<close>) reads settings, compiles the rules file
  (\<open>rules.go\<close>) and sets up the reconciler: field indexes by Secret name on every tracked kind,
  watches, and event handlers that queue Secret names. A worker takes a name off the queue and
  reconciles it (\<open>secretusage_controller.go\<close>): does the Secret exist; which objects reference
  it, through the indexed lists; then the SecretUsage of that name is created, patched or
  deleted and its gauges set (\<open>metrics.go\<close>). What an object references is decided by
  \<open>secret_refs.go\<close> for ten built-in kinds and by the compiled rules for others.

  \<^bold>\<open>Theories.\<close>
  \<^item> \<open>Prelude\<close>: loops, sorting with a comparison (locale \<open>strict_linear\<close>), removal of duplicates
    by a key (locale \<open>dedup_key\<close>). \<open>GoStd\<close>: slices and maps with nil, byte strings, \<open>strconv\<close>,
    \<open>strings\<close>, \<open>int32\<close> (32-bit words) and \<open>float64\<close> (integers rounded to 53 significant bits).
  \<^item> \<open>KubeTypes\<close>: the Kubernetes structs as records with the fields that are read, the dynamic types
    of \<open>client.Object\<close>, errors, and the record \<open>lib\<close> of library functions. \<open>UsageApi\<close>:
    \<open>api/v1alpha1/secretusage_types.go\<close>, and what encoding and decoding do to nil and empty.
    \<open>UsageJson\<close>: the JSON form by the tags of the fields, decoding, and the schema of the
    CustomResourceDefinition with validation and pruning.
  \<^item> \<open>SecretRefs\<close>: \<open>secret_refs.go\<close>, function by function. \<open>FieldPaths\<close> and \<open>RefSpec\<close>: an independent
    specification, the JSON form of objects and the table of fields that name a Secret, and
    the proof that the extractors find exactly those. \<open>UsageOrder\<close>: \<open>usageReferenceLess\<close> as a
    linear order. The locale \<open>secret_index\<close> (an index that names exactly what a usage function
    records) is interpreted by the built-in extractors and by compiled rules.
  \<^item> \<open>Rules\<close>: \<open>rules.go\<close>, loading, compiling, applying.
  \<^item> \<open>Client\<close>: the API client as operations on a world of any type (\<open>env\<close>), the part of a world
    that can be observed (\<open>cluster\<close>), and what is documented of each call (\<open>documented\<close>):
    a read that succeeds is right, a write that succeeds has its effect, one that fails may
    have had it. \<open>available\<close> adds that calls do not fail.
  \<^item> \<open>Collect\<close>, \<open>Metrics\<close>, \<open>Reconcile\<close>, \<open>Events\<close>, \<open>Setup\<close>, \<open>Startup\<close>: the rest of the program, with
    the functions' names. State is passed explicitly and every early return is a branch.
    \<open>Flags\<close>: package \<open>flag\<close> with \<open>strconv.ParseInt\<close>, the flags that \<open>main\<close> registers, and \<open>main\<close>
    from its arguments to the exit status. Its loop is a \<open>partial_function\<close>, shown to end.
  \<^item> \<open>Rbac\<close>: the \<open>+kubebuilder:rbac\<close> markers and the chart's policy rules, a client whose calls
    they authorise, and the locale \<open>same_reads\<close> of two clients that agree on what is asked. \<open>Roles\<close>:
    a client that is authorised in one namespace only, by the simulation below: a cluster-wide read is
    refused unless the namespaces of the cache lie in that one.
  \<^item> \<open>Calls\<close>: any client, recorded: the calls of a reconcile in order, with their errors, the plans
    they follow and the error that stops them. \<open>CallProps\<close>: the properties of these, with the lists and
    the indexes they are filtered by.
  \<^item> \<open>Chart\<close>: what the Helm chart's \<open>deployment.yaml\<close> and \<open>configmap.yaml\<close> render from the values:
    arguments, environment, volume, mount and the file of rules, with numbers as the template
    engine prints them. The role for leader election of \<open>rbac.yaml\<close> is in \<open>RbacProps\<close>.
  \<^item> \<open>ReconcileSpec\<close>: the object that should exist as a function of the cluster (\<open>desired\<close>,
    \<open>up_to_date\<close>), and a reconcile followed call by call against it.
  \<^item> \<open>System\<close>: steps of others and whole reconciles on a cluster and a queue; the queue drains.
    \<open>Interleaving\<close>, \<open>Kept\<close>, \<open>UndisturbedRun\<close>, \<open>Concurrent\<close>: others act within
    reconciles, between and during calls, and may edit SecretUsage objects as well; reads of a
    SecretUsage may be behind the controller's own writes (\<open>Simulation\<close>: two clients a reconcile
    cannot tell apart). A name whose SecretUsage others edited, or that was reconciled before the
    cache had caught up (\<open>fresh\<close>), is in doubt until it is reconciled again. A reconcile whose name is
    neither queued nor put in doubt meanwhile is the run of an undisturbed client on the part of the
    cluster that matters to the name, so that \<open>ReconcileSpec\<close> applies; other names are kept call by call.
  \<^item> \<open>CacheLag\<close>: the same system with a client whose cache is behind the server. It has the one
    property that is a warning: a Secret that is deleted and created again can stay recorded
    as missing, because updates of SecretUsage objects are not watched.
  \<^item> \<open>Memory\<close>, \<open>DeepCopy\<close>: \<open>zz_generated.deepcopy.go\<close> on a memory of cells with pointers and
    shared arrays. The locale \<open>deep_copier\<close> is the contract of a copy; \<open>slice_copier\<close> lifts it to
    slices by the loop the code has (a \<open>sublocale\<close>). Everywhere else objects are values, which
    is right because the reconciler changes an object only after \<open>DeepCopy\<close> of the base.
  \<^item> \<open>Examples\<close>, \<open>ExampleCluster\<close>: inputs of the witnesses. \<open>RefProps\<close>, \<open>RuleProps\<close>, \<open>SetupProps\<close>,
    \<open>StartupProps\<close>, \<open>FlagProps\<close>, \<open>RbacProps\<close> (with the roles that the chart's \<open>rbac.yaml\<close> binds), \<open>ReconcileProps\<close>
    and this theory: properties.

  \<^bold>\<open>What is shown.\<close> Extraction is sound and complete against the table of the README, field
  paths lead back to the value, the order and deduplication are what they should be. Rules
  are accepted exactly when well formed. A collection returns all usages in one order. A
  reconcile without error leaves the desired object; with errors it leaves the old, the new
  or the new labels with the old status, touches nothing else, and on an available cluster
  does not fail; when nothing changed it writes nothing, with the exceptions found. Every
  change of a reference queues its Secret. Hence in the running system, from any accepted
  configuration, every name that is neither queued nor in doubt is up to date, and, if only reconciles
  change SecretUsage objects' contents and reads are current, the queue drains in at most
  two reconciles for each name. A reconcile makes a bounded number of calls and ends at its first
  error. Objects fit the schema they are stored under and come back as
  they were; any configuration can be written as a command line, and the chart's container runs with the
  values and the custom rules of the chart, up to a limit on \<open>maxUsages\<close> that the templates impose;
  the declared permissions, bound where the chart binds them, are enough in the
  namespaces that are watched, and allow no changes but those of SecretUsage objects and, by the
  role for leader election, leases and events.

  \<^bold>\<open>Hypotheses.\<close> Library code is a parameter: YAML, JSONPath and group version parsing and
  validation of label values (\<open>lib\<close>), the API client and its cache (\<open>env\<close>), the manager and discovery
  client, the flags that libraries register, the Prometheus registry, the encoding, decoding and
  copies of \<open>ObjectMeta\<close> and \<open>ListMeta\<close>. Properties that need their documented
  behaviour name it (\<open>documented\<close>, \<open>documented_amid\<close>, \<open>documented_gauges\<close>, \<open>available\<close>, \<open>registers\<close>, \<open>builds\<close>,
  \<open>files_read\<close>, \<open>reads_back\<close>, \<open>deep_copier\<close>), and a witness shows an instance. No fuel is used: loops follow lists.

  \<^bold>\<open>Not modelled.\<close> Logging; usage messages; the timer of the
  aggregate metrics (its ticks are a list of events); the lease and the events of leader election, which the
  manager handles; the scheme among the manager's options, which is a constant. In
  \<open>documented\<close>, which single reconciles and \<open>System\<close> rest on, reads come from one view of the cluster, in which
  the controller's own writes show at once; \<open>documented_amid\<close> asks this of the SecretUsage only where the cache
  has caught up, and \<open>CacheLag\<close> shows what happens where it has not. In \<open>System\<close> others create
  and delete SecretUsage objects and do not edit them; in \<open>Concurrent\<close> they do. Workloads and
  Secrets are read as they are: a change that the cache does not show yet counts as one that
  happens when its event arrives. There is
  one worker, as in the default configuration. The rest of the Helm chart, the manifests, the
  Makefile and the lab script hold configuration only.
\<close>

section \<open>From start-up to the running system\<close>

text \<open>
  C1: once main has loaded the rules and set up the reconciler, and as long as it runs, every name that is
  neither queued nor in doubt is up to date, while others change Secrets, objects and SecretUsage
  objects and calls fail. In doubt is a name whose SecretUsage others edited, or of which the last
  reconcile started before the cache had caught up with the controller's own writes to it.
\<close>
theorem running_up_to_date:
  assumes "LoadRules L rd um (rulesFile f) = Inr cs"
    and "fst (SetupWithManager L mgr (new_reconciler f cs) m) = Inr r"
    and "documented_amid L r E view (\<lambda>s. queue s \<union> doubt s) fresh"
    and "live L r E view queue doubt fresh s" and "nn \<notin> queue s" and "nn \<notin> doubt s"
  shows "up_to_date L r (view s) nn"
proof -
  obtain m' where "SetupWithManager L mgr (new_reconciler f cs) m = (Inr r, m')" using assms(2) by (metis prod.collapse)
  then obtain m1 m2 where rules: "setupRules L mgr (new_reconciler f cs) m1 = (Inr r, m2)" by (rule SetupWithManager_Inr)
  have "rules_agree r"
    using setupRules_agree[OF rules] LoadRules_distinct[OF assms(1)] by (simp add: new_reconciler_def)
  then show ?thesis using live_settled[OF _ assms(3,4)] assms(5,6) by blast
qed

lemma ready_start_queue:
  "start_queue example_lib example_ready (world_view example_world) =
     {example_key ''a-tls'', example_key ''b-tls'', example_key ''db'', example_key ''pull'', example_key ''idle''}"
proof -
  have "ran (SecretUsages (world_view example_world)) = {}"
    by (simp add: stored_def example_world_def ran_def)
  moreover have "concat (map (\<lambda>obj. enqueueForSecretConsumer example_lib example_ready (CreateEvent (Some obj)))
      (Objects (world_view example_world))) =
      [example_key ''a-tls'', example_key ''b-tls'', example_key ''db'', example_key ''pull'']"
    by code_simp
  moreover have "concat (map (\<lambda>nn. enqueueOwnKey (Some (secret_object example_lib nn))) (Secrets (world_view example_world))) =
      [example_key ''idle'']"
    by code_simp
  ultimately show ?thesis by (simp only: start_queue_def) auto
qed

theorem running_up_to_date_witness:
  "\<exists>s. live example_lib example_ready (amid_env example_lib [example_compiled]) amid_view a_queue a_doubt in_sync_at s \<and>
     up_to_date example_lib example_ready (amid_view s) (example_key ''db'') \<and>
     desired example_lib example_ready (amid_view s) (example_key ''db'') \<noteq> None"
proof -
  have load: "LoadRules example_lib (\<lambda>_. Inr []) (\<lambda>_. Inr example_rules) (rulesFile example_flags) = Inr [example_compiled]"
  proof -
    have "rulesFile example_flags = ''rules.yaml''" by code_simp
    then show ?thesis by (simp add: LoadRules_def example_rules_compile)
  qed
  have set_up: "fst (SetupWithManager example_lib example_manager (new_reconciler example_flags [example_compiled]) []) = Inr example_ready"
    unfolding example_new_reconciler by (rule example_setup)
  have agree: "rules_agree example_ready" by (simp add: rules_agree_def example_ready_def lookup_empty)
  obtain s where live: "live example_lib example_ready (amid_env example_lib (Rules example_ready)) amid_view a_queue a_doubt in_sync_at s"
    and q: "example_key ''db'' \<notin> a_queue s" "example_key ''db'' \<notin> a_doubt s"
    and want: "desired example_lib example_ready (amid_view s) (example_key ''db'') =
      desired example_lib example_ready (world_view example_world) (example_key ''db'')"
    by (rule amid_started[OF agree, of "example_key ''db''" example_lib]) (simp_all add: ready_start_queue)
  have "desired example_lib example_ready (world_view example_world) (example_key ''db'') \<noteq> None" by code_simp
  then show ?thesis
    using live want running_up_to_date[OF load set_up amid_documented live q] by (auto simp: example_ready_def)
qed

end
